(* ===== verification/Prelude.thy ===== *)
theory Prelude
  imports Main "HOL-Library.Word" "HOL-Library.AList"
begin

text \<open>
  The vocabulary the components share: machine types, the result codes of SQLite that the
  code tests, C strings, the comparison functions of the C library and a few generic lemmas.
  Names of tables, columns and settings are HOL strings; the contents of TEXT and BLOB values
  and of encoded buffers are lists of bytes.
\<close>

unbundle bit_operations_syntax

type_synonym byte = "8 word"
type_synonym i64 = "64 word"
type_synonym pkblob = "byte list"

named_theorems effect_simps \<open>equations for the effect of one operation on the state\<close>
named_theorems frame_simps \<open>fields an operation leaves alone\<close>

section \<open>Result codes\<close>

abbreviation (input) SQLITE_OK :: int where "SQLITE_OK \<equiv> 0"
abbreviation (input) SQLITE_ERROR :: int where "SQLITE_ERROR \<equiv> 1"
abbreviation (input) SQLITE_INTERNAL :: int where "SQLITE_INTERNAL \<equiv> 2"
abbreviation (input) SQLITE_NOMEM :: int where "SQLITE_NOMEM \<equiv> 7"
abbreviation (input) SQLITE_CONSTRAINT :: int where "SQLITE_CONSTRAINT \<equiv> 19"
abbreviation (input) SQLITE_MISMATCH :: int where "SQLITE_MISMATCH \<equiv> 20"
abbreviation (input) SQLITE_MISUSE :: int where "SQLITE_MISUSE \<equiv> 21"
abbreviation (input) SQLITE_ROW :: int where "SQLITE_ROW \<equiv> 100"
abbreviation (input) SQLITE_DONE :: int where "SQLITE_DONE \<equiv> 101"

section \<open>Characters and C strings\<close>

text \<open>The ASCII part of \<open>tolower\<close> in the C locale.\<close>

definition c_tolower :: "char \<Rightarrow> char" where
  "c_tolower c = (let n = (of_char c :: nat) in if 65 \<le> n \<and> n \<le> 90 then char_of (n + 32) else c)"

definition lowercase :: "string \<Rightarrow> string" where
  "lowercase s = List.map c_tolower s"

text \<open>\<open>strcasecmp(a, b) == 0\<close>\<close>

definition str_case_eq :: "string \<Rightarrow> string \<Rightarrow> bool" where
  "str_case_eq a b \<longleftrightarrow> lowercase a = lowercase b"

lemma c_tolower_idem [simp]: "c_tolower (c_tolower c) = c_tolower c"
proof (cases "65 \<le> (of_char c :: nat) \<and> (of_char c :: nat) \<le> 90")
  case True
  then have "of_char (char_of ((of_char c :: nat) + 32)) = (of_char c :: nat) + 32"
    by simp
  with True show ?thesis by (simp add: c_tolower_def Let_def)
next
  case False
  then have "c_tolower c = c" by (auto simp: c_tolower_def Let_def)
  then show ?thesis by simp
qed

lemma lowercase_idem [simp]: "lowercase (lowercase s) = lowercase s"
  by (simp add: lowercase_def)

lemma lowercase_Nil [simp]: "lowercase [] = []"
  by (simp add: lowercase_def)

lemma str_case_eq_refl [simp]: "str_case_eq a a"
  by (simp add: str_case_eq_def)

lemma str_case_eq_sym: "str_case_eq a b = str_case_eq b a"
  by (auto simp: str_case_eq_def)

lemma str_case_eq_trans [trans]: "str_case_eq a b \<Longrightarrow> str_case_eq b c \<Longrightarrow> str_case_eq a c"
  by (simp add: str_case_eq_def)

lemma str_case_eq_lowercase [simp]:
  "str_case_eq (lowercase a) b = str_case_eq a b"
  "str_case_eq a (lowercase b) = str_case_eq a b"
  by (simp_all add: str_case_eq_def)

section \<open>Comparison of byte strings\<close>

text \<open>
  The C library promises only the sign of \<open>memcmp\<close> and \<open>strcmp\<close>; the models return
  \<open>-1\<close>, \<open>0\<close> or \<open>1\<close>. Bytes compare as unsigned values.
\<close>

fun memcmp :: "byte list \<Rightarrow> byte list \<Rightarrow> nat \<Rightarrow> int" where
  "memcmp (a # as) (b # bs) (Suc n) = (if a < b then -1 else if b < a then 1 else memcmp as bs n)"
| "memcmp _ _ _ = 0"

text \<open>The bytes of a C string: everything before the first NUL.\<close>

definition cstr :: "byte list \<Rightarrow> byte list" where
  "cstr bs = takeWhile (\<lambda>b. b \<noteq> 0) bs"

text \<open>The lexicographic order of unsigned bytes, as \<open>strcmp\<close> gives it on the parts before NUL.\<close>

fun lexcmp :: "byte list \<Rightarrow> byte list \<Rightarrow> int" where
  "lexcmp [] [] = 0"
| "lexcmp [] (_ # _) = -1"
| "lexcmp (_ # _) [] = 1"
| "lexcmp (a # as) (b # bs) = (if a < b then -1 else if b < a then 1 else lexcmp as bs)"

definition strcmp :: "byte list \<Rightarrow> byte list \<Rightarrow> int" where
  "strcmp a b = lexcmp (cstr a) (cstr b)"

lemma lexcmp_range: "lexcmp a b \<in> {-1, 0, 1}"
  by (induction a b rule: lexcmp.induct) auto

lemma lexcmp_refl [simp]: "lexcmp a a = 0"
  by (induction a) auto

lemma lexcmp_neg: "lexcmp b a = - lexcmp a b"
  by (induction a b rule: lexcmp.induct) auto

lemma lexcmp_0_iff [simp]: "lexcmp a b = 0 \<longleftrightarrow> a = b"
  by (induction a b rule: lexcmp.induct) (auto simp: not_less)

lemma lexcmp_trans: "lexcmp a b \<le> 0 \<Longrightarrow> lexcmp b c \<le> 0 \<Longrightarrow> lexcmp a c \<le> 0"
proof (induction a b arbitrary: c rule: lexcmp.induct)
  case (1 c) then show ?case by simp
next
  case (2 y ys c) then show ?case by (cases c) auto
next
  case (3 x xs c) then show ?case by simp
next
  case (4 x xs y ys c)
  then show ?case by (cases c) (auto split: if_splits)
qed

lemma memcmp_range: "memcmp a b n \<in> {-1, 0, 1}"
  by (induction a b n rule: memcmp.induct) auto

lemma memcmp_same [simp]: "memcmp a a n = 0"
proof (induction a arbitrary: n)
  case (Cons x a)
  then show ?case by (cases n) simp_all
qed simp

text \<open>\<open>memcmp\<close> over the shorter length, then the lengths, is the lexicographic order.\<close>

lemma lexcmp_memcmp:
  "lexcmp a b = (let c = memcmp a b (min (length a) (length b))
                 in if c \<noteq> 0 then c else sgn (int (length a) - int (length b)))"
  by (induction a b rule: lexcmp.induct) (auto simp: Let_def)

section \<open>Association lists as tables\<close>

lemma map_of_filter_key:
  "map_of (filter (\<lambda>(k, _). P k) xs) k = (if P k then map_of xs k else None)"
  by (induction xs) auto

lemma distinct_keys_filter: "distinct (map fst xs) \<Longrightarrow> distinct (map fst (filter P xs))"
  by (induction xs) auto

lemma distinct_keys_map_val:
  "map fst (map (\<lambda>(k, v). (k, f k v)) xs) = map fst xs"
  by (induction xs) auto

lemma map_of_map_val:
  "map_of (map (\<lambda>(k, v). (k, f k v)) xs) k = map_option (f k) (map_of xs k)"
  by (induction xs) auto

end
