(* ===== verification/Values.thy ===== *)
theory Values
  imports Prelude
begin

text \<open>
  SQLite values as the code sees them through \<open>sqlite3_value_*\<close>, and
  \<open>dbutils_value_compare\<close> (src/src/dbutils.c), the comparison that decides which of two
  concurrent writes of the same column version wins. A FLOAT is the IEEE 754 bit pattern that
  the code moves around with \<open>memcpy\<close>; its order is the order of doubles on those bits.
\<close>

datatype sqlval =
    VInteger i64
  | VFloat i64
  | VText "byte list"
  | VBlob "byte list"
  | VNull

primrec value_type :: "sqlval \<Rightarrow> int" where
  "value_type (VInteger _) = 1"
| "value_type (VFloat _) = 2"
| "value_type (VText _) = 3"
| "value_type (VBlob _) = 4"
| "value_type VNull = 5"

section \<open>Doubles as bit patterns\<close>

definition fl_sign :: "i64 \<Rightarrow> bool" where
  "fl_sign b \<longleftrightarrow> bit b 63"

definition fl_mag :: "i64 \<Rightarrow> nat" where
  "fl_mag b = unat (take_bit 63 b)"

text \<open>All exponent bits set and a non-zero fraction.\<close>

definition fl_nan :: "i64 \<Rightarrow> bool" where
  "fl_nan b \<longleftrightarrow> 0x7FF0000000000000 < fl_mag b"

text \<open>Sign and magnitude as one integer: its order is the order of the doubles, and both zeros
  have key 0.\<close>

definition fl_key :: "i64 \<Rightarrow> int" where
  "fl_key b = (if fl_sign b then - int (fl_mag b) else int (fl_mag b))"

definition fl_less :: "i64 \<Rightarrow> i64 \<Rightarrow> bool" where
  "fl_less a b \<longleftrightarrow> \<not> fl_nan a \<and> \<not> fl_nan b \<and> fl_key a < fl_key b"

text \<open>The unary minus of C on a double: the sign bit changes.\<close>

definition fl_neg :: "i64 \<Rightarrow> i64" where
  "fl_neg b = b XOR 0x8000000000000000"

lemma fl_neg_neg [simp]: "fl_neg (fl_neg b) = b"
  by (simp add: fl_neg_def xor.assoc)

section \<open>dbutils\_value\_compare\<close>

text \<open>
  The argument is an option because the code passes NULL pointers (a row that is missing).
  The first test of the code, \<open>lvalue == rvalue\<close> on pointers, is modelled for the two null
  pointers; for two pointers to one value the comparison below gives 0 as well
  (\<open>value_compare_refl\<close>).
\<close>

definition cmp_int :: "i64 \<Rightarrow> i64 \<Rightarrow> int" where
  "cmp_int l r = (if sint l < sint r then -1 else if sint l > sint r then 1 else 0)"

definition cmp_float :: "i64 \<Rightarrow> i64 \<Rightarrow> int" where
  "cmp_float l r = (if fl_less l r then -1 else if fl_less r l then 1 else 0)"

definition cmp_blob :: "byte list \<Rightarrow> byte list \<Rightarrow> int" where
  "cmp_blob l r =
     (let cmp = memcmp l r (if length l < length r then length l else length r)
      in if cmp \<noteq> 0 then cmp else int (length l) - int (length r))"

fun value_compare :: "sqlval \<Rightarrow> sqlval \<Rightarrow> int" where
  "value_compare (VInteger l) (VInteger r) = cmp_int l r"
| "value_compare (VFloat l) (VFloat r) = cmp_float l r"
| "value_compare VNull VNull = 0"
| "value_compare (VText l) (VText r) = strcmp l r"
| "value_compare (VBlob l) (VBlob r) = cmp_blob l r"
| "value_compare l r = value_type r - value_type l"

definition dbutils_value_compare :: "sqlval option \<Rightarrow> sqlval option \<Rightarrow> int" where
  "dbutils_value_compare lvalue rvalue =
     (case (lvalue, rvalue) of
        (None, None) \<Rightarrow> 0
      | (None, Some _) \<Rightarrow> -1
      | (Some _, None) \<Rightarrow> 1
      | (Some l, Some r) \<Rightarrow> value_compare l r)"

text \<open>A value SQLite can store: no NaN (SQLite turns NaN into NULL).\<close>

primrec not_nan :: "sqlval \<Rightarrow> bool" where
  "not_nan (VFloat b) \<longleftrightarrow> \<not> fl_nan b"
| "not_nan (VInteger _) \<longleftrightarrow> True"
| "not_nan (VText _) \<longleftrightarrow> True"
| "not_nan (VBlob _) \<longleftrightarrow> True"
| "not_nan VNull \<longleftrightarrow> True"

section \<open>The comparison is a total preorder\<close>

text \<open>The BLOB order is the lexicographic order of bytes, shorter first on a common prefix.\<close>

lemma cmp_blob_lex: "sgn (cmp_blob l r) = lexcmp l r"
proof -
  have "sgn (memcmp l r n) = memcmp l r n" for n
    using memcmp_range [of l r n] by auto
  moreover have "(if length l < length r then length l else length r) = min (length l) (length r)"
    by simp
  ultimately show ?thesis
    by (simp add: cmp_blob_def lexcmp_memcmp Let_def)
qed

lemma sgn_le_0_int: "sgn (x::int) \<le> 0 \<longleftrightarrow> x \<le> 0"
  by (simp add: sgn_if)

lemma cmp_blob_le_iff: "cmp_blob l r \<le> 0 \<longleftrightarrow> lexcmp l r \<le> 0"
  using sgn_le_0_int [of "cmp_blob l r"] by (simp add: cmp_blob_lex)

lemma cmp_blob_0_iff [simp]: "cmp_blob l r = 0 \<longleftrightarrow> l = r"
  using sgn_0_0 [of "cmp_blob l r"] by (simp add: cmp_blob_lex)

lemma cmp_int_swap: "sgn (cmp_int r l) = - sgn (cmp_int l r)"
  by (simp add: cmp_int_def)

lemma cmp_float_swap: "sgn (cmp_float r l) = - sgn (cmp_float l r)"
  by (auto simp: cmp_float_def fl_less_def)

lemma strcmp_swap: "sgn (strcmp r l) = - sgn (strcmp l r)"
  unfolding strcmp_def using lexcmp_neg [of "cstr r" "cstr l"] by (simp add: sgn_minus)

lemma cmp_blob_swap: "sgn (cmp_blob r l) = - sgn (cmp_blob l r)"
  unfolding cmp_blob_lex by (rule lexcmp_neg)

lemma cmp_int_trans: "cmp_int a b \<le> 0 \<Longrightarrow> cmp_int b c \<le> 0 \<Longrightarrow> cmp_int a c \<le> 0"
  by (auto simp: cmp_int_def split: if_splits)

lemma cmp_float_trans:
  "\<lbrakk> \<not> fl_nan b; cmp_float a b \<le> 0; cmp_float b c \<le> 0 \<rbrakk> \<Longrightarrow> cmp_float a c \<le> 0"
  by (auto simp: cmp_float_def fl_less_def split: if_splits)

lemma strcmp_trans: "strcmp a b \<le> 0 \<Longrightarrow> strcmp b c \<le> 0 \<Longrightarrow> strcmp a c \<le> 0"
  unfolding strcmp_def by (rule lexcmp_trans)

lemma cmp_blob_trans: "cmp_blob a b \<le> 0 \<Longrightarrow> cmp_blob b c \<le> 0 \<Longrightarrow> cmp_blob a c \<le> 0"
  unfolding cmp_blob_le_iff by (rule lexcmp_trans)

lemma value_compare_type:
  "value_type l \<noteq> value_type r \<Longrightarrow> value_compare l r = value_type r - value_type l"
  by (cases l; cases r) simp_all

lemma value_compare_le_type: "value_compare l r \<le> 0 \<Longrightarrow> value_type r \<le> value_type l"
  by (cases "value_type l = value_type r") (simp_all add: value_compare_type)

lemma value_compare_refl [simp]: "value_compare v v = 0"
  by (cases v) (simp_all add: cmp_int_def cmp_float_def strcmp_def fl_less_def)

lemma value_compare_swap: "sgn (value_compare r l) = - sgn (value_compare l r)"
proof (cases "value_type l = value_type r")
  case True
  then show ?thesis
    by (cases l; cases r)
      (simp_all, (rule cmp_int_swap cmp_float_swap strcmp_swap cmp_blob_swap)+)
next
  case False
  then show ?thesis by (simp add: value_compare_type sgn_if)
qed

lemma value_compare_trans:
  assumes "not_nan b" "value_compare a b \<le> 0" "value_compare b c \<le> 0"
  shows "value_compare a c \<le> 0"
proof (cases "value_type a = value_type b \<and> value_type b = value_type c")
  case True
  with assms show ?thesis
    by (cases a; cases b; cases c)
      (simp_all, (blast intro: cmp_int_trans cmp_float_trans strcmp_trans cmp_blob_trans)+)
next
  case False
  from assms have "value_type b \<le> value_type a" "value_type c \<le> value_type b"
    by (auto intro: value_compare_le_type)
  with False show ?thesis by (auto simp: value_compare_type)
qed

section \<open>The contract of a conflict comparison\<close>

text \<open>
  What the merge needs of a comparison: over the values that can occur it is reflexive, flips
  its sign when its arguments are swapped, and is transitive. Then a fold that keeps the
  greater of two candidates ends in a maximum, and any two orders of the same candidates end
  in values that compare equal.
\<close>

locale conflict_order =
  fixes valid :: "'v \<Rightarrow> bool"
    and cmp :: "'v \<Rightarrow> 'v \<Rightarrow> int"
  assumes cmp_refl: "cmp v v = 0"
    and cmp_swap: "sgn (cmp r l) = - sgn (cmp l r)"
    and cmp_trans: "valid b \<Longrightarrow> cmp a b \<le> 0 \<Longrightarrow> cmp b c \<le> 0 \<Longrightarrow> cmp a c \<le> 0"
begin

lemma cmp_pos_iff: "cmp a b > 0 \<longleftrightarrow> cmp b a < 0"
  using cmp_swap [of a b] by (auto simp: sgn_if split: if_splits)

lemma cmp_ge_iff: "cmp a b \<ge> 0 \<longleftrightarrow> cmp b a \<le> 0"
  using cmp_swap [of a b] by (auto simp: sgn_if split: if_splits)

lemma cmp_zero_sym: "cmp a b = 0 \<longleftrightarrow> cmp b a = 0"
  using cmp_swap [of a b] by (auto simp: sgn_if split: if_splits)

text \<open>Keeping the challenger only when it is strictly greater.\<close>

definition keep_greater :: "'v \<Rightarrow> 'v \<Rightarrow> 'v" where
  "keep_greater local incoming = (if cmp incoming local > 0 then incoming else local)"

lemma keep_greater_upper: "cmp l (keep_greater l i) \<le> 0" "cmp i (keep_greater l i) \<le> 0"
  using cmp_refl cmp_ge_iff cmp_pos_iff by (auto simp: keep_greater_def not_less less_imp_le)

lemma keep_greater_cases: "keep_greater l i = l \<or> keep_greater l i = i"
  by (simp add: keep_greater_def)

lemma keep_greater_idem [simp]: "keep_greater v v = v"
  by (simp add: keep_greater_def)

lemma fold_keep_greater_in: "fold (\<lambda>i l. keep_greater l i) vs v \<in> insert v (set vs)"
proof (induction vs arbitrary: v)
  case (Cons x vs)
  from Cons [of "keep_greater v x"] show ?case
    using keep_greater_cases [of v x] by auto
qed simp

lemma fold_keep_greater_max:
  assumes "\<forall>w \<in> insert v (set vs). valid w"
  shows "\<forall>w \<in> insert v (set vs). cmp w (fold (\<lambda>i l. keep_greater l i) vs v) \<le> 0"
  using assms
proof (induction vs arbitrary: v)
  case Nil
  then show ?case by (simp add: cmp_refl)
next
  case (Cons x vs)
  let ?m = "keep_greater v x"
  have valid_m: "valid ?m"
    using Cons.prems keep_greater_cases [of v x] by auto
  then have IH: "\<forall>w \<in> insert ?m (set vs). cmp w (fold (\<lambda>i l. keep_greater l i) vs ?m) \<le> 0"
    using Cons by simp
  then show ?case
    using keep_greater_upper [where l = v and i = x] valid_m cmp_trans [of ?m] by auto
qed

text \<open>Neither the order of the candidates nor their repetition matters.\<close>

lemma fold_keep_greater_set:
  assumes "\<forall>w \<in> set vs. valid w" "set (v # xs) = set vs" "set (w # ys) = set vs"
  shows "cmp (fold (\<lambda>i l. keep_greater l i) xs v) (fold (\<lambda>i l. keep_greater l i) ys w) = 0"
proof -
  let ?a = "fold (\<lambda>i l. keep_greater l i) xs v" and ?b = "fold (\<lambda>i l. keep_greater l i) ys w"
  have sets: "insert v (set xs) = set vs" "insert w (set ys) = set vs" using assms(2,3) by simp_all
  then have "?a \<in> set vs" "?b \<in> set vs"
    using fold_keep_greater_in [of xs v] fold_keep_greater_in [of ys w] by simp_all
  moreover have "\<forall>u \<in> set vs. cmp u ?a \<le> 0" "\<forall>u \<in> set vs. cmp u ?b \<le> 0"
    using fold_keep_greater_max [of v xs] fold_keep_greater_max [of w ys] assms(1) sets by simp_all
  ultimately have "cmp ?a ?b \<le> 0" "cmp ?b ?a \<le> 0" by simp_all
  then show ?thesis using cmp_ge_iff [of ?a ?b] by simp
qed

end

interpretation value_order: conflict_order not_nan value_compare
  by unfold_locales (auto intro: value_compare_swap value_compare_trans)

section \<open>Properties\<close>

definition storable :: "sqlval option \<Rightarrow> bool" where
  "storable v \<longleftrightarrow> (case v of None \<Rightarrow> True | Some x \<Rightarrow> not_nan x)"



text \<open>Comparing equal does not mean being equal: texts that differ only behind a NUL byte,
  and the two zeros, compare as 0, so neither side of such a conflict ever overwrites the
  other.\<close>

theorem value_compare_equal_but_different:
  "dbutils_value_compare (Some (VText (a @ 0 # b))) (Some (VText (a @ 0 # c))) = 0 \<and>
   dbutils_value_compare (Some (VFloat 0)) (Some (VFloat 0x8000000000000000)) = 0"
proof
  have "cstr (a @ 0 # b) = cstr (a @ 0 # c)"
    unfolding cstr_def by (induction a) auto
  then show "dbutils_value_compare (Some (VText (a @ 0 # b))) (Some (VText (a @ 0 # c))) = 0"
    by (simp add: dbutils_value_compare_def strcmp_def)
  show "dbutils_value_compare (Some (VFloat 0)) (Some (VFloat 0x8000000000000000)) = 0"
    by (simp add: dbutils_value_compare_def cmp_float_def fl_less_def fl_key_def fl_mag_def)
qed

end
