(* ===== verification/Pk.thy ===== *)
theory Pk
  imports Values
begin

text \<open>
  The record encoding of src/src/pk.c: one type byte per value, its low three bits the type and
  its high five bits the number of bytes of the integer or of the length that follows, then that
  integer big-endian, then the payload of TEXT and BLOB. Primary keys carry a leading byte with
  the number of values.

  A buffer being written is the list of the bytes written so far, so \<open>bseek\<close> is its length; the
  bound on what is written is the theorem \<open>length_pk_encode_values\<close>. A buffer being read is the
  list of its bytes with a seek position. Reading returns \<open>None\<close> where the C code would read
  outside the buffer, or would meet a length that does not fit the \<open>int32_t\<close> it casts to.
\<close>

section \<open>Encoding\<close>

definition INT64_MIN :: i64 where
  "INT64_MIN = 0x8000000000000000"

definition pk_encode_nbytes_needed :: "i64 \<Rightarrow> nat" where
  "pk_encode_nbytes_needed value =
     (if sint value \<le> 0x7F then 1
      else if sint value \<le> 0x7FFF then 2
      else if sint value \<le> 0x7FFFFF then 3
      else if sint value \<le> 0x7FFFFFFF then 4
      else if sint value \<le> 0x7FFFFFFFFF then 5
      else if sint value \<le> 0x7FFFFFFFFFFF then 6
      else if sint value \<le> 0x7FFFFFFFFFFFFF then 7
      else 8)"

text \<open>The space one value adds to \<open>required\<close>.\<close>

fun pk_encode_value_size :: "sqlval \<Rightarrow> nat" where
  "pk_encode_value_size (VInteger v) =
     (if v = INT64_MIN then 1
      else let val = (if sint v < 0 then - v else v) in 1 + pk_encode_nbytes_needed val)"
| "pk_encode_value_size (VFloat _) = 1 + 8"
| "pk_encode_value_size (VText bs) =
     (let len = word_of_nat (length bs) in 1 + length bs + pk_encode_nbytes_needed len)"
| "pk_encode_value_size (VBlob bs) =
     (let len = word_of_nat (length bs) in 1 + length bs + pk_encode_nbytes_needed len)"
| "pk_encode_value_size VNull = 1"

fun pk_encode_size :: "sqlval list \<Rightarrow> nat \<Rightarrow> nat" where
  "pk_encode_size [] required = required"
| "pk_encode_size (v # argv) required = pk_encode_size argv (required + pk_encode_value_size v)"

definition pk_encode_u8 :: "byte list \<Rightarrow> byte \<Rightarrow> byte list" where
  "pk_encode_u8 buffer value = buffer @ [value]"

text \<open>The loop of \<open>pk_encode_int64\<close> with \<open>nbytes - i\<close> iterations left.\<close>

fun pk_encode_int64 :: "byte list \<Rightarrow> i64 \<Rightarrow> nat \<Rightarrow> byte list" where
  "pk_encode_int64 buffer value 0 = buffer"
| "pk_encode_int64 buffer value (Suc left) =
     pk_encode_int64 (buffer @ [ucast (signed_drop_bit (8 * left) value AND 0xFF)]) value left"

definition pk_encode_data :: "byte list \<Rightarrow> byte list \<Rightarrow> byte list" where
  "pk_encode_data buffer data = buffer @ data"

definition type_byte :: "nat \<Rightarrow> byte \<Rightarrow> byte" where
  "type_byte nbytes ty = push_bit 3 (word_of_nat nbytes) OR ty"

text \<open>\<open>value < 0\<close> on a double: false for both zeros and for NaN.\<close>

definition fl_negative :: "i64 \<Rightarrow> bool" where
  "fl_negative b \<longleftrightarrow> fl_less b 0"

fun pk_encode_value :: "byte list \<Rightarrow> sqlval \<Rightarrow> byte list" where
  "pk_encode_value buffer (VInteger v) =
     (if v = INT64_MIN then pk_encode_u8 buffer 6
      else let neg = sint v < 0; value = (if neg then - v else v); ty = (if neg then 0 else 1);
               nbytes = pk_encode_nbytes_needed value
           in pk_encode_int64 (pk_encode_u8 buffer (type_byte nbytes ty)) value nbytes)"
| "pk_encode_value buffer (VFloat b) =
     (let neg = fl_negative b; value = (if neg then fl_neg b else b); ty = (if neg then 7 else 2)
      in pk_encode_int64 (pk_encode_u8 buffer ty) value 8)"
| "pk_encode_value buffer (VText bs) =
     (let len = word_of_nat (length bs); nbytes = pk_encode_nbytes_needed len
      in pk_encode_data (pk_encode_int64 (pk_encode_u8 buffer (type_byte nbytes 3)) len nbytes) bs)"
| "pk_encode_value buffer (VBlob bs) =
     (let len = word_of_nat (length bs); nbytes = pk_encode_nbytes_needed len
      in pk_encode_data (pk_encode_int64 (pk_encode_u8 buffer (type_byte nbytes 4)) len nbytes) bs)"
| "pk_encode_value buffer VNull = pk_encode_u8 buffer 5"

definition pk_encode_values :: "byte list \<Rightarrow> sqlval list \<Rightarrow> byte list" where
  "pk_encode_values buffer argv = fold (\<lambda>v buf. pk_encode_value buf v) argv buffer"

text \<open>
  \<open>pk_encode\<close>: the result is the buffer, the size stored through \<open>bsize\<close> and whether the
  buffer was allocated. \<open>b\<close> is the capacity of the caller's buffer, \<open>None\<close> for a NULL pointer;
  \<open>alloc\<close> says whether an allocation of that many bytes succeeds.
\<close>

definition pk_encode ::
  "(nat \<Rightarrow> bool) \<Rightarrow> sqlval list \<Rightarrow> nat option \<Rightarrow> bool \<Rightarrow> (byte list \<times> nat \<times> bool) option" where
  "pk_encode alloc argv b is_prikey =
     (if is_prikey then
        (let blen = pk_encode_size argv 1;
             must_alloc = (case b of None \<Rightarrow> True | Some cap \<Rightarrow> blen > cap)
         in if must_alloc \<and> \<not> alloc blen then None
            else Some (pk_encode_values (pk_encode_u8 [] (word_of_nat (length argv))) argv, blen, must_alloc))
      else Some (pk_encode_values [] argv, 0, False))"

definition pk_encode_prikey ::
  "(nat \<Rightarrow> bool) \<Rightarrow> sqlval list \<Rightarrow> nat option \<Rightarrow> (byte list \<times> nat \<times> bool) option" where
  "pk_encode_prikey alloc argv b = pk_encode alloc argv b True"

text \<open>The bytes of an encoded primary key, when the allocation succeeds.\<close>

definition pk_blob :: "sqlval list \<Rightarrow> pkblob" where
  "pk_blob argv = pk_encode_values (pk_encode_u8 [] (word_of_nat (length argv))) argv"

section \<open>Decoding\<close>

definition pk_decode_u8 :: "byte list \<Rightarrow> nat \<Rightarrow> (byte \<times> nat) option" where
  "pk_decode_u8 buffer bseek = (if bseek < length buffer then Some (buffer ! bseek, bseek + 1) else None)"

fun pk_decode_int64_loop :: "byte list \<Rightarrow> i64 \<Rightarrow> nat \<Rightarrow> nat \<Rightarrow> (i64 \<times> nat) option" where
  "pk_decode_int64_loop buffer value bseek 0 = Some (value, bseek)"
| "pk_decode_int64_loop buffer value bseek (Suc n) =
     (if bseek < length buffer
      then pk_decode_int64_loop buffer (push_bit 8 value OR ucast (buffer ! bseek)) (bseek + 1) n
      else None)"

definition pk_decode_int64 :: "byte list \<Rightarrow> nat \<Rightarrow> nat \<Rightarrow> (i64 \<times> nat) option" where
  "pk_decode_int64 buffer bseek nbytes = pk_decode_int64_loop buffer 0 bseek nbytes"

definition pk_decode_data :: "byte list \<Rightarrow> nat \<Rightarrow> i64 \<Rightarrow> (byte list \<times> nat) option" where
  "pk_decode_data buffer bseek blen =
     (if unat blen < 2 ^ 31 \<and> bseek + unat blen \<le> length buffer
      then Some (take (unat blen) (drop bseek buffer), bseek + unat blen) else None)"

definition pk_decode_double :: "byte list \<Rightarrow> nat \<Rightarrow> (i64 \<times> nat) option" where
  "pk_decode_double buffer bseek = pk_decode_int64 buffer bseek 8"

text \<open>One iteration of the loop of \<open>pk_decode\<close>, before the callback.\<close>

definition pk_decode_value :: "byte list \<Rightarrow> nat \<Rightarrow> (sqlval \<times> nat) option" where
  "pk_decode_value buffer bseek =
     (case pk_decode_u8 buffer bseek of None \<Rightarrow> None
      | Some (tb, s) \<Rightarrow>
        (let ty = unat (tb AND 0x07); nbytes = unat (drop_bit 3 tb AND 0x1F)
         in if ty = 6 then Some (VInteger INT64_MIN, s)
            else if ty = 0 \<or> ty = 1 then
              (case pk_decode_int64 buffer s nbytes of None \<Rightarrow> None
               | Some (v, s') \<Rightarrow> Some (VInteger (if ty = 0 then - v else v), s'))
            else if ty = 7 \<or> ty = 2 then
              (case pk_decode_double buffer s of None \<Rightarrow> None
               | Some (v, s') \<Rightarrow> Some (VFloat (if ty = 7 then fl_neg v else v), s'))
            else if ty = 3 \<or> ty = 4 then
              (case pk_decode_int64 buffer s nbytes of None \<Rightarrow> None
               | Some (len, s') \<Rightarrow>
                 (case pk_decode_data buffer s' len of None \<Rightarrow> None
                  | Some (bs, s'') \<Rightarrow> Some (if ty = 3 then VText bs else VBlob bs, s'')))
            else Some (VNull, s)))"

text \<open>
  The loop. The callback has an accumulator (the C code passes \<open>xdata\<close>), the index of the value
  and the value, and returns a result code; \<open>n\<close> values are left, \<open>i\<close> is the index of the next.
  \<open>Inl\<close> is the early return of \<open>-1\<close>.
\<close>

fun pk_decode_loop ::
  "('s \<Rightarrow> nat \<Rightarrow> sqlval \<Rightarrow> int \<times> 's) option \<Rightarrow> byte list \<Rightarrow> nat \<Rightarrow> nat \<Rightarrow> nat \<Rightarrow> 's \<Rightarrow> ('s + nat \<times> 's) option" where
  "pk_decode_loop cb buffer i 0 bseek x = Some (Inr (bseek, x))"
| "pk_decode_loop cb buffer i (Suc n) bseek x =
     (case pk_decode_value buffer bseek of None \<Rightarrow> None
      | Some (v, s) \<Rightarrow>
        (case cb of None \<Rightarrow> pk_decode_loop cb buffer (i + 1) n s x
         | Some f \<Rightarrow>
           (case f x i v of (rc, x') \<Rightarrow>
              if rc \<noteq> SQLITE_OK then Some (Inl x') else pk_decode_loop cb buffer (i + 1) n s x')))"

text \<open>
  \<open>pk_decode\<close>: \<open>cnt\<close> is \<open>None\<close> for the argument \<open>-1\<close> (the count is then the first byte), and
  \<open>seek\<close> is the value behind the pointer (0 for a NULL pointer). The result is the return value
  (\<open>-1\<close> after a callback error, else the count), the new seek value and the accumulator.
\<close>

definition pk_decode ::
  "byte list \<Rightarrow> nat option \<Rightarrow> nat \<Rightarrow> ('s \<Rightarrow> nat \<Rightarrow> sqlval \<Rightarrow> int \<times> 's) option \<Rightarrow> 's \<Rightarrow> (int \<times> nat \<times> 's) option" where
  "pk_decode buffer cnt seek cb x =
     (case (case cnt of Some c \<Rightarrow> Some (c, seek)
            | None \<Rightarrow> map_option (\<lambda>(b, s). (unat b, s)) (pk_decode_u8 buffer seek)) of
        None \<Rightarrow> None
      | Some (c, s) \<Rightarrow>
        (case pk_decode_loop cb buffer 0 c s x of None \<Rightarrow> None
         | Some (Inl x') \<Rightarrow> Some (-1, seek, x')
         | Some (Inr (s', x')) \<Rightarrow> Some (int c, s', x')))"

definition pk_decode_prikey ::
  "byte list \<Rightarrow> ('s \<Rightarrow> nat \<Rightarrow> sqlval \<Rightarrow> int \<times> 's) option \<Rightarrow> 's \<Rightarrow> (int \<times> nat \<times> 's) option" where
  "pk_decode_prikey buffer cb x =
     (case pk_decode_u8 buffer 0 of None \<Rightarrow> None
      | Some (cnt, s) \<Rightarrow> pk_decode buffer (Some (unat cnt)) s cb x)"

text \<open>
  The bindings of a prepared statement, as far as the code fills them: parameter \<open>index + 1\<close> gets
  the value. \<open>bindable\<close> is SQLite's answer to the bind call.
\<close>

type_synonym bindings = "(nat \<times> sqlval) list"

definition pk_decode_bind_callback :: "(nat \<Rightarrow> sqlval \<Rightarrow> int) \<Rightarrow> bindings \<Rightarrow> nat \<Rightarrow> sqlval \<Rightarrow> int \<times> bindings" where
  "pk_decode_bind_callback bindable vm index v =
     (let rc = bindable (index + 1) v
      in if rc = SQLITE_OK then (rc, AList.update (index + 1) v vm) else (rc, vm))"

section \<open>The contract of a value encoding\<close>

text \<open>
  What the readers of a buffer rely on: reading at the place where a well-formed value was
  written gives that value back and stops behind it, whatever comes before and after. A list of
  values then reads back in order, and two different lists never have the same bytes.
\<close>

locale seek_codec =
  fixes wf :: "'v \<Rightarrow> bool"
    and enc :: "'v \<Rightarrow> byte list"
    and dec :: "byte list \<Rightarrow> nat \<Rightarrow> ('v \<times> nat) option"
  assumes dec_enc: "wf v \<Longrightarrow> dec (pre @ enc v @ post) (length pre) = Some (v, length pre + length (enc v))"
begin

definition enc_list :: "'v list \<Rightarrow> byte list" where
  "enc_list vs = concat (List.map enc vs)"

fun dec_list :: "byte list \<Rightarrow> nat \<Rightarrow> nat \<Rightarrow> ('v list \<times> nat) option" where
  "dec_list buf s 0 = Some ([], s)"
| "dec_list buf s (Suc n) =
     (case dec buf s of None \<Rightarrow> None
      | Some (v, s') \<Rightarrow> map_option (\<lambda>(vs, s''). (v # vs, s'')) (dec_list buf s' n))"

lemma enc_list_simps [simp]: "enc_list [] = []" "enc_list (v # vs) = enc v @ enc_list vs"
  by (simp_all add: enc_list_def)

lemma dec_list_enc_list:
  "\<forall>v \<in> set vs. wf v \<Longrightarrow>
   dec_list (pre @ enc_list vs @ post) (length pre) (length vs) =
     Some (vs, length pre + length (enc_list vs))"
proof (induction vs arbitrary: pre)
  case (Cons v vs)
  have "dec (pre @ enc v @ enc_list vs @ post) (length pre) = Some (v, length (pre @ enc v))"
    using dec_enc [of v pre "enc_list vs @ post"] Cons.prems by simp
  moreover have "dec_list ((pre @ enc v) @ enc_list vs @ post) (length (pre @ enc v)) (length vs) =
      Some (vs, length (pre @ enc v) + length (enc_list vs))"
    using Cons.IH [of "pre @ enc v"] Cons.prems by simp
  ultimately show ?case by simp
qed simp

lemma enc_list_inj:
  assumes "\<forall>v \<in> set vs. wf v" "\<forall>w \<in> set ws. wf w" "length vs = length ws"
    and "enc_list vs @ post = enc_list ws @ post'"
  shows "vs = ws"
  using dec_list_enc_list [OF assms(1), of "[]" post] dec_list_enc_list [OF assms(2), of "[]" post'] assms(3,4)
  by simp

end

section \<open>The integer bytes\<close>

lemma pk_encode_int64_append: "pk_encode_int64 buf v n = buf @ pk_encode_int64 [] v n"
proof (induction n arbitrary: buf)
  case (Suc n)
  from Suc [of "buf @ x" for x] Suc [of "[] @ x" for x] show ?case
    by (metis append.assoc append_Nil pk_encode_int64.simps(2))
qed simp

lemma pk_encode_int64_Suc:
  "pk_encode_int64 [] v (Suc n) = ucast (signed_drop_bit (8 * n) v AND 0xFF) # pk_encode_int64 [] v n"
  by (subst pk_encode_int64.simps(2), subst pk_encode_int64_append) simp

lemma length_pk_encode_int64 [simp]: "length (pk_encode_int64 buf v n) = length buf + n"
  by (induction n arbitrary: buf) simp_all

declare pk_encode_int64.simps(2) [simp del]

lemma and_255: "x AND 255 = take_bit 8 (x :: i64)"
  by (simp add: take_bit_eq_mask mask_eq_exp_minus_1)

text \<open>The byte of the arithmetic shift that the code writes, put back in place.\<close>

lemma push_bit_byte:
  fixes v :: i64
  assumes "n < 8"
  shows "push_bit (8 * n) (ucast (ucast (signed_drop_bit (8 * n) v AND 0xFF) :: byte)) OR take_bit (8 * n) v
    = take_bit (8 * Suc n) v"
  using assms by (intro bit_word_eqI) (auto simp: and_255 bit_simps bit_signed_drop_bit_iff)

lemma pk_decode_int64_loop_encoded:
  assumes "n \<le> 8"
  shows "pk_decode_int64_loop (pre @ pk_encode_int64 [] v n @ post) acc (length pre) n =
    Some (push_bit (8 * n) acc OR take_bit (8 * n) v, length pre + n)"
  using assms
proof (induction n arbitrary: pre acc)
  case (Suc n)
  let ?b = "ucast (signed_drop_bit (8 * n) v AND 0xFF) :: byte"
  let ?acc = "push_bit 8 acc OR ucast ?b"
  have "pk_decode_int64_loop ((pre @ [?b]) @ pk_encode_int64 [] v n @ post) ?acc (length (pre @ [?b])) n
      = Some (push_bit (8 * n) ?acc OR take_bit (8 * n) v, length (pre @ [?b]) + n)"
    using Suc.IH [of "pre @ [?b]" ?acc] Suc.prems by simp
  moreover have "push_bit (8 * n) ?acc OR take_bit (8 * n) v
      = push_bit (8 * Suc n) acc OR take_bit (8 * Suc n) v"
    using push_bit_byte [of n v] Suc.prems
    by (simp add: push_bit_or or.assoc add.commute)
  ultimately show ?case by (simp add: pk_encode_int64_Suc nth_append)
qed simp

text \<open>The number of bytes is enough for the value and its sign bit, and no smaller number is.\<close>

lemma nbytes_needed_bounds: "1 \<le> pk_encode_nbytes_needed v" "pk_encode_nbytes_needed v \<le> 8"
  by (simp_all add: pk_encode_nbytes_needed_def)

lemma sint_uint_pos:
  fixes v :: i64
  assumes "0 \<le> sint v"
  shows "sint v = uint v"
proof -
  have nb: "\<not> bit v 63" using bit_last_iff [of v] assms by simp
  then have "sint v = take_bit 63 (uint v)"
    by (simp add: sint_uint signed_take_bit_eq_if_positive bit_uint_iff)
  also have "\<dots> = uint v"
  proof (rule bit_eqI)
    fix n
    show "bit (take_bit 63 (uint v)) n \<longleftrightarrow> bit (uint v) n"
      using nb by (cases "n = 63") (auto simp: bit_take_bit_iff bit_uint_iff)
  qed
  finally show ?thesis .
qed

lemma nbytes_needed_enough:
  assumes "0 \<le> sint v"
  shows "uint v < 2 ^ (8 * pk_encode_nbytes_needed v - 1)"
proof -
  have "sint v = uint v" using assms by (rule sint_uint_pos)
  then show ?thesis using sint_lt [of v] by (auto simp: pk_encode_nbytes_needed_def)
qed

lemma pk_decode_int64_encoded:
  assumes "0 \<le> sint v" "n = pk_encode_nbytes_needed v"
  shows "pk_decode_int64 (pre @ pk_encode_int64 [] v n @ post) (length pre) n = Some (v, length pre + n)"
proof -
  have "uint v < 2 ^ (8 * n)"
    using nbytes_needed_enough [OF assms(1)] assms(2)
    by (smt (verit) diff_le_self power_increasing)
  then have "take_bit (8 * n) v = v"
    by (intro word_uint_eq_iff [THEN iffD2]) (simp add: unsigned_take_bit_eq take_bit_int_eq_self)
  then show ?thesis
    using pk_decode_int64_loop_encoded [of n pre v post 0] nbytes_needed_bounds [of v] assms(2)
    by (simp add: pk_decode_int64_def)
qed

lemma pk_decode_double_encoded:
  "pk_decode_double (pre @ pk_encode_int64 [] v 8 @ post) (length pre) = Some (v, length pre + 8)"
  using pk_decode_int64_loop_encoded [of 8 pre v post 0]
  by (simp add: pk_decode_double_def pk_decode_int64_def take_bit_word_eq_self)

section \<open>One value\<close>

text \<open>The sizes SQLite allows: fewer than \<open>2 ^ 31\<close> bytes.\<close>

primrec wf_val :: "sqlval \<Rightarrow> bool" where
  "wf_val (VText bs) \<longleftrightarrow> length bs < 2 ^ 31"
| "wf_val (VBlob bs) \<longleftrightarrow> length bs < 2 ^ 31"
| "wf_val (VInteger _) \<longleftrightarrow> True"
| "wf_val (VFloat _) \<longleftrightarrow> True"
| "wf_val VNull \<longleftrightarrow> True"

lemma pk_encode_value_append: "pk_encode_value buf v = buf @ pk_encode_value [] v"
  by (cases v) (simp_all add: Let_def pk_encode_u8_def pk_encode_data_def
      pk_encode_int64_append [of "buf @ b" for b] pk_encode_int64_append [of "[b]" for b])

lemma type_byte_fields:
  assumes "1 \<le> n" "n \<le> 8" "ty \<in> {0, 1, 3, 4}"
  shows "unat (type_byte n ty AND 0x07) = unat ty" "unat (drop_bit 3 (type_byte n ty) AND 0x1F) = n"
proof -
  from assms have "n \<in> {1, 2, 3, 4, 5, 6, 7, 8}" by auto
  with assms(3) show "unat (type_byte n ty AND 0x07) = unat ty"
      "unat (drop_bit 3 (type_byte n ty) AND 0x1F) = n"
    by (auto simp: type_byte_def)
qed

lemma sint_uminus_nonneg:
  fixes v :: i64
  assumes "sint v < 0" "v \<noteq> INT64_MIN"
  shows "0 \<le> sint (- v)"
proof -
  have "sint v \<noteq> - (2 ^ 63)"
  proof
    assume "sint v = - (2 ^ 63)"
    then have "v = word_of_int (- (2 ^ 63))" by (metis scast_eq scast_id)
    with assms(2) show False by (simp add: INT64_MIN_def)
  qed
  then have "- (2 ^ 63) < sint v" using sint_ge [of v] by simp
  moreover have "sint (- v) = signed_take_bit 63 (- sint v)"
    by transfer (simp add: signed_take_bit_minus)
  ultimately show ?thesis using assms(1) by (simp add: signed_take_bit_int_eq_self)
qed

text \<open>The length of a well-formed TEXT or BLOB survives as an integer.\<close>

lemma length_word:
  assumes "length (bs :: byte list) < 2 ^ 31"
  shows "0 \<le> sint (word_of_nat (length bs) :: i64)" "unat (word_of_nat (length bs) :: i64) = length bs"
proof -
  show "unat (word_of_nat (length bs) :: i64) = length bs"
    using assms by (simp add: unat_of_nat take_bit_nat_eq_self)
  then have "uint (word_of_nat (length bs) :: i64) = int (length bs)"
    by (simp add: uint_nat)
  then have "sint (word_of_nat (length bs) :: i64) = int (length bs)"
    using assms by (simp add: sint_uint signed_take_bit_int_eq_self)
  then show "0 \<le> sint (word_of_nat (length bs) :: i64)" by simp
qed

lemma pk_decode_u8_at [simp]:
  "pk_decode_u8 (pre @ b # post) (length pre) = Some (b, length pre + 1)"
  by (simp add: pk_decode_u8_def)

lemma pk_decode_data_at:
  assumes "length bs < 2 ^ 31"
  shows "pk_decode_data (pre @ bs @ post) (length pre) (word_of_nat (length bs)) =
    Some (bs, length pre + length bs)"
  using assms length_word(2) [OF assms] by (simp add: pk_decode_data_def)

text \<open>Reading back what was written, for each type of value.\<close>

lemma pk_decode_integer:
  "pk_decode_value (pre @ pk_encode_value [] (VInteger v) @ post) (length pre) =
    Some (VInteger v, length pre + length (pk_encode_value [] (VInteger v)))"
proof (cases "v = INT64_MIN")
  case True
  then show ?thesis by (simp add: pk_decode_value_def pk_encode_u8_def)
next
  case False
  define val where "val = (if sint v < 0 then - v else v)"
  define ty :: byte where "ty = (if sint v < 0 then 0 else 1)"
  define n where "n = pk_encode_nbytes_needed val"
  have val: "0 \<le> sint val" using sint_uminus_nonneg [OF _ False] by (auto simp: val_def)
  have enc: "pk_encode_value [] (VInteger v) = type_byte n ty # pk_encode_int64 [] val n"
    using False pk_encode_int64_append [of "[b]" for b]
    by (simp add: val_def ty_def n_def pk_encode_u8_def Let_def)
  have ty: "unat (type_byte n ty AND 7) = unat ty" "unat (drop_bit 3 (type_byte n ty) AND 31) = n"
    using type_byte_fields [of n ty] nbytes_needed_bounds [of val] by (simp_all add: n_def ty_def)
  have dec: "pk_decode_int64 (pre @ type_byte n ty # pk_encode_int64 [] val n @ post) (Suc (length pre)) n
      = Some (val, Suc (length pre) + n)"
    using pk_decode_int64_encoded [OF val n_def, of "pre @ [type_byte n ty]" post] by simp
  show ?thesis
    unfolding enc pk_decode_value_def using ty dec by (simp add: Let_def ty_def val_def)
qed

lemma pk_decode_float:
  "pk_decode_value (pre @ pk_encode_value [] (VFloat b) @ post) (length pre) =
    Some (VFloat b, length pre + length (pk_encode_value [] (VFloat b)))"
proof -
  define val where "val = (if fl_negative b then fl_neg b else b)"
  define ty :: byte where "ty = (if fl_negative b then 7 else 2)"
  have enc: "pk_encode_value [] (VFloat b) = ty # pk_encode_int64 [] val 8"
    using pk_encode_int64_append [of "[c]" for c] by (simp add: val_def ty_def pk_encode_u8_def Let_def)
  have "pk_decode_double (pre @ ty # pk_encode_int64 [] val 8 @ post) (Suc (length pre))
      = Some (val, Suc (length pre) + 8)"
    using pk_decode_double_encoded [of "pre @ [ty]" val post] by simp
  then show ?thesis unfolding enc pk_decode_value_def
    by (cases "fl_negative b") (simp_all add: Let_def ty_def val_def)
qed

lemma pk_decode_bytes:
  assumes "length bs < 2 ^ 31" "ty \<in> {3, 4}"
    and n: "n = pk_encode_nbytes_needed (word_of_nat (length bs))"
    and enc: "e = type_byte n ty # pk_encode_int64 [] (word_of_nat (length bs)) n @ bs"
  shows "pk_decode_value (pre @ e @ post) (length pre) =
    Some (if ty = 3 then VText bs else VBlob bs, length pre + length e)"
proof -
  let ?l = "word_of_nat (length bs) :: i64"
  have ty: "unat (type_byte n ty AND 7) = unat ty" "unat (drop_bit 3 (type_byte n ty) AND 31) = n"
    using type_byte_fields [of n ty] nbytes_needed_bounds [of ?l] assms(2) n by auto
  have "pk_decode_int64 (pre @ type_byte n ty # pk_encode_int64 [] ?l n @ bs @ post) (Suc (length pre)) n
      = Some (?l, Suc (length pre) + n)"
    using pk_decode_int64_encoded [OF length_word(1) [OF assms(1)] n, of "pre @ [type_byte n ty]" "bs @ post"]
    by simp
  moreover have "pk_decode_data (pre @ type_byte n ty # pk_encode_int64 [] ?l n @ bs @ post)
      (Suc (length pre + n)) ?l = Some (bs, Suc (length pre + n) + length bs)"
    using pk_decode_data_at [OF assms(1), of "pre @ type_byte n ty # pk_encode_int64 [] ?l n" post] by simp
  ultimately show ?thesis
    unfolding enc pk_decode_value_def using ty assms(2) by (auto simp: Let_def)
qed

lemma pk_decode_value_encoded:
  assumes "wf_val v"
  shows "pk_decode_value (pre @ pk_encode_value [] v @ post) (length pre) =
    Some (v, length pre + length (pk_encode_value [] v))"
proof (cases v)
  case (VText bs)
  with assms pk_decode_bytes [of bs 3 _ "pk_encode_value [] v"] show ?thesis
    by (simp add: Let_def pk_encode_u8_def pk_encode_data_def pk_encode_int64_append [of "[c]" for c])
next
  case (VBlob bs)
  with assms pk_decode_bytes [of bs 4 _ "pk_encode_value [] v"] show ?thesis
    by (simp add: Let_def pk_encode_u8_def pk_encode_data_def pk_encode_int64_append [of "[c]" for c])
next
  case VNull
  then show ?thesis by (simp add: pk_decode_value_def pk_encode_u8_def)
qed (simp_all only: pk_decode_integer pk_decode_float)

interpretation pkval: seek_codec wf_val "pk_encode_value []" pk_decode_value
  by unfold_locales (rule pk_decode_value_encoded)

section \<open>Lists of values\<close>

lemma pk_encode_values_concat: "pk_encode_values buf vs = buf @ pkval.enc_list vs"
proof (induction vs arbitrary: buf)
  case (Cons v vs)
  have "pk_encode_values buf (v # vs) = pk_encode_values (pk_encode_value buf v) vs"
    by (simp add: pk_encode_values_def)
  also have "\<dots> = pk_encode_value buf v @ pkval.enc_list vs" by (rule Cons.IH)
  also have "pk_encode_value buf v = buf @ pk_encode_value [] v" by (rule pk_encode_value_append)
  finally show ?case by simp
qed (simp add: pk_encode_values_def)

lemma pk_blob_eq: "pk_blob vs = word_of_nat (length vs) # pkval.enc_list vs"
  by (simp add: pk_blob_def pk_encode_values_concat pk_encode_u8_def)

lemma length_pk_encode_value: "length (pk_encode_value [] v) = pk_encode_value_size v"
  by (cases v) (simp_all add: Let_def pk_encode_u8_def pk_encode_data_def)

lemma pk_encode_size_sum: "pk_encode_size vs r = r + sum_list (List.map pk_encode_value_size vs)"
  by (induction vs arbitrary: r) simp_all

lemma length_enc_list: "length (pkval.enc_list vs) = sum_list (List.map pk_encode_value_size vs)"
  by (simp add: pkval.enc_list_def length_concat length_pk_encode_value comp_def)

text \<open>
  The callback sees each value with its index. Running it over a list is
  \<open>run_callback\<close>; it stops at the first result that is not \<open>SQLITE_OK\<close>.
\<close>

fun run_callback :: "('s \<Rightarrow> nat \<Rightarrow> sqlval \<Rightarrow> int \<times> 's) \<Rightarrow> nat \<Rightarrow> sqlval list \<Rightarrow> 's \<Rightarrow> 's + 's" where
  "run_callback f i [] x = Inr x"
| "run_callback f i (v # vs) x =
     (case f x i v of (rc, x') \<Rightarrow> if rc \<noteq> SQLITE_OK then Inl x' else run_callback f (i + 1) vs x')"

lemma pk_decode_loop_dec_list:
  "pkval.dec_list buf s n = Some (vs, s') \<Longrightarrow>
   pk_decode_loop (Some f) buf i n s x =
     Some (case run_callback f i vs x of Inl y \<Rightarrow> Inl y | Inr y \<Rightarrow> Inr (s', y))"
proof (induction n arbitrary: s i x vs)
  case (Suc n)
  then obtain v s1 vs1 where v: "pk_decode_value buf s = Some (v, s1)" "vs = v # vs1"
    and rest: "pkval.dec_list buf s1 n = Some (vs1, s')"
    by (auto split: option.splits)
  obtain rc x' where "f x i v = (rc, x')" by fastforce
  with v Suc.IH [OF rest] show ?case by simp
qed simp

text \<open>\<open>pk_decode\<close> at the place where a row of values was written runs the callback over them.\<close>

lemma pk_decode_encoded_row:
  assumes "\<forall>v \<in> set vs. wf_val v"
  shows "pk_decode (pre @ pk_encode_values [] vs @ post) (Some (length vs)) (length pre) (Some f) x =
    Some (case run_callback f 0 vs x of
      Inl y \<Rightarrow> (-1, length pre, y)
    | Inr y \<Rightarrow> (int (length vs), length pre + length (pk_encode_values [] vs), y))"
  using pk_decode_loop_dec_list [OF pkval.dec_list_enc_list [OF assms, of pre post], of f 0 x]
  by (simp add: pk_decode_def pk_encode_values_concat split: sum.splits)

lemma pk_decode_prikey_blob:
  assumes "\<forall>v \<in> set vs. wf_val v" "length vs < 256"
  shows "pk_decode_prikey (pk_blob vs @ post) (Some f) x =
    Some (case run_callback f 0 vs x of
      Inl y \<Rightarrow> (-1, 1, y)
    | Inr y \<Rightarrow> (int (length vs), length (pk_blob vs), y))"
proof -
  have "unat (word_of_nat (length vs) :: byte) = length vs"
    using assms(2) by (simp add: unat_of_nat take_bit_nat_eq_self)
  then show ?thesis
    using pk_decode_encoded_row [OF assms(1), of "[word_of_nat (length vs)]" post f x]
    by (simp add: pk_decode_prikey_def pk_blob_eq pk_decode_u8_def pk_encode_values_concat
        split: sum.splits)
qed

text \<open>Decoding into a list, the callback that collects.\<close>

definition collect_cb :: "sqlval list \<Rightarrow> nat \<Rightarrow> sqlval \<Rightarrow> int \<times> sqlval list" where
  "collect_cb acc i v = (SQLITE_OK, acc @ [v])"

lemma run_collect_cb [simp]: "run_callback collect_cb i vs acc = Inr (acc @ vs)"
  by (induction vs arbitrary: i acc) (simp_all add: collect_cb_def)

text \<open>Binding all values succeeds when every bind does, and fills parameters \<open>i + 1\<close> onwards.\<close>

lemma run_bind_callback:
  assumes "\<forall>k v. bindable k v = SQLITE_OK"
  shows "run_callback (pk_decode_bind_callback bindable) i vs vm =
    Inr (fold (\<lambda>(k, v) m. AList.update (k + 1) v m) (List.enumerate i vs) vm)"
  using assms by (induction vs arbitrary: i vm) (simp_all add: pk_decode_bind_callback_def Let_def)

section \<open>Properties\<close>

text \<open>C23. Decoding an encoded primary key hands the callback exactly the encoded values, in order,
  returns their number and stops at the end of the blob, without reading outside it.\<close>

theorem pk_encode_decode_roundtrip:
  assumes "\<forall>v \<in> set argv. wf_val v" "length argv < 256"
    and "pk_encode_prikey alloc argv b = Some (buffer, bsize, allocated)"
  shows "pk_decode_prikey buffer (Some collect_cb) [] = Some (int (length argv), bsize, argv)"
proof -
  have buf: "buffer = pk_blob argv" "bsize = length (pk_blob argv)"
    using assms(3)
    by (auto simp: pk_encode_prikey_def pk_encode_def pk_blob_def Let_def pk_encode_size_sum
        pk_encode_values_concat pk_encode_u8_def length_enc_list split: if_splits)
  show ?thesis
    using pk_decode_prikey_blob [OF assms(1,2), of "[]" collect_cb "[]"] buf by simp
qed

theorem pk_encode_decode_roundtrip_witness:
  "\<exists>buffer bsize. pk_encode_prikey (\<lambda>_. True) [VInteger (-7), VText [104, 105], VNull] None
      = Some (buffer, bsize, True) \<and>
    pk_decode_prikey buffer (Some collect_cb) [] =
      Some (3, bsize, [VInteger (-7), VText [104, 105], VNull])"
proof -
  let ?argv = "[VInteger (-7), VText [104, 105], VNull]"
  obtain buffer bsize where enc: "pk_encode_prikey (\<lambda>_. True) ?argv None = Some (buffer, bsize, True)"
    by (simp add: pk_encode_prikey_def pk_encode_def Let_def)
  show ?thesis
    using pk_encode_decode_roundtrip [OF _ _ enc] enc by auto
qed

text \<open>C24. Two different lists of key values never have the same encoded key, so a meta-table row
  belongs to one row of the table.\<close>

theorem pk_encode_injective:
  assumes "\<forall>v \<in> set vs. wf_val v" "length vs < 256" "\<forall>w \<in> set ws. wf_val w" "length ws < 256"
    and "pk_blob vs = pk_blob ws"
  shows "vs = ws"
  using pk_decode_prikey_blob [OF assms(1,2), of "[]" collect_cb "[]"]
    pk_decode_prikey_blob [OF assms(3,4), of "[]" collect_cb "[]"] assms(5)
  by simp

theorem pk_encode_injective_witness:
  "pk_blob [VText [49]] \<noteq> pk_blob [VInteger 1]"
  using pk_encode_injective [of "[VText [49]]" "[VInteger 1]"] by auto

text \<open>The size computed in advance is the number of bytes written, for every argument list:
  the encoder never writes behind the buffer it allocated or was given.\<close>

theorem pk_encode_fits:
  assumes "pk_encode_prikey alloc argv b = Some (buffer, bsize, allocated)"
  shows "length buffer = bsize \<and> bsize = pk_encode_size argv 1 \<and>
    (\<not> allocated \<longrightarrow> (\<exists>cap. b = Some cap \<and> bsize \<le> cap))"
  using assms
  by (auto simp: pk_encode_prikey_def pk_encode_def Let_def pk_encode_size_sum
      pk_encode_values_concat pk_encode_u8_def length_enc_list split: if_splits option.splits)

theorem pk_encode_fits_witness:
  "\<exists>buffer. pk_encode_prikey (\<lambda>_. False) [VNull] (Some 1024) = Some (buffer, 2, False) \<and>
    length buffer = 2 \<and> (\<exists>cap. Some 1024 = Some cap \<and> (2::nat) \<le> cap)"
proof -
  obtain buffer where e: "pk_encode_prikey (\<lambda>_. False) [VNull] (Some 1024) = Some (buffer, 2, False)"
    by (simp add: pk_encode_prikey_def pk_encode_def Let_def)
  show ?thesis
    using e pk_encode_fits [OF e] by auto
qed

text \<open>The number of bytes chosen for a non-negative integer is between 1 and 8, holds the value
  with a clear sign bit, and is the least such number.\<close>

theorem pk_nbytes_minimal:
  assumes "0 \<le> sint value"
  shows "1 \<le> pk_encode_nbytes_needed value \<and> pk_encode_nbytes_needed value \<le> 8 \<and>
    uint value < 2 ^ (8 * pk_encode_nbytes_needed value - 1) \<and>
    (1 \<le> m \<and> m < pk_encode_nbytes_needed value \<longrightarrow> 2 ^ (8 * m - 1) \<le> uint value)"
proof (intro conjI impI)
  show "1 \<le> pk_encode_nbytes_needed value" "pk_encode_nbytes_needed value \<le> 8"
    by (rule nbytes_needed_bounds)+
  show "uint value < 2 ^ (8 * pk_encode_nbytes_needed value - 1)"
    by (rule nbytes_needed_enough [OF assms])
  assume "1 \<le> m \<and> m < pk_encode_nbytes_needed value"
  then have m: "1 \<le> m" "m < pk_encode_nbytes_needed value" by simp_all
  then have "m \<in> {1, 2, 3, 4, 5, 6, 7}" using nbytes_needed_bounds(2) [of "value"] by auto
  then show "2 ^ (8 * m - 1) \<le> uint value"
    using m(2) sint_uint_pos [OF assms]
    by (auto simp: pk_encode_nbytes_needed_def split: if_splits)
qed

theorem pk_nbytes_minimal_witness:
  "(0::int) \<le> sint (300 :: i64) \<and> pk_encode_nbytes_needed 300 = 2 \<and> (2::int) ^ 7 \<le> uint (300 :: i64)"
proof -
  have h: "0 \<le> sint (300 :: i64)" by simp
  have n: "pk_encode_nbytes_needed 300 = 2" by (simp add: pk_encode_nbytes_needed_def)
  show ?thesis using h n pk_nbytes_minimal [OF h, of 1] by simp
qed

text \<open>The decoder trusts its input: its loop has no test against the length it is given, so a
  blob that ends early makes it read outside the buffer.\<close>

theorem pk_decode_truncated_reads_outside:
  assumes "0 < cnt" "cnt < 256"
  shows "pk_decode_prikey [word_of_nat cnt] (Some f) x = None"
proof -
  have "unat (word_of_nat cnt :: byte) = cnt"
    using assms(2) by (simp add: unat_of_nat take_bit_nat_eq_self)
  with assms(1) show ?thesis
    by (cases cnt)
      (simp_all add: pk_decode_prikey_def pk_decode_def pk_decode_u8_def pk_decode_value_def)
qed

theorem pk_decode_truncated_reads_outside_witness:
  "pk_decode_prikey [word_of_nat 2] (Some collect_cb) [] = None"
  by (rule pk_decode_truncated_reads_outside) simp_all

end
