(* ===== verification/Utils.thy ===== *)
theory Utils
  imports Pk
begin

text \<open>
  src/src/utils.c: UUIDv7 site identifiers, string and blob helpers, the rowid of a change, the
  hash of a normalized schema and the names of the CRDT algorithms. Randomness, the clock and the
  allocator are arguments.
\<close>

section \<open>UUIDv7\<close>

abbreviation UUID_LEN :: nat where "UUID_LEN \<equiv> 16"

text \<open>
  \<open>entropy\<close> is what the random generator fills in (\<open>None\<close>: it failed), \<open>ts\<close> the seconds and
  nanoseconds of the clock (\<open>None\<close>: it failed). \<open>None\<close> is the return value \<open>-1\<close>.
\<close>

definition cloudsync_uuid_v7 :: "byte list option \<Rightarrow> (i64 \<times> i64) option \<Rightarrow> byte list option" where
  "cloudsync_uuid_v7 entropy ts =
     (case entropy of None \<Rightarrow> None
      | Some value \<Rightarrow>
        (case ts of None \<Rightarrow> None
         | Some (tv_sec, tv_nsec) \<Rightarrow>
           (let timestamp = tv_sec * 1000 + tv_nsec div 1000000;
                value = value[0 := ucast (drop_bit 40 timestamp AND 0xFF)];
                value = value[1 := ucast (drop_bit 32 timestamp AND 0xFF)];
                value = value[2 := ucast (drop_bit 24 timestamp AND 0xFF)];
                value = value[3 := ucast (drop_bit 16 timestamp AND 0xFF)];
                value = value[4 := ucast (drop_bit 8 timestamp AND 0xFF)];
                value = value[5 := ucast (timestamp AND 0xFF)];
                value = value[6 := (value ! 6 AND 0x0F) OR 0x70];
                value = value[8 := (value ! 8 AND 0x3F) OR 0x80]
            in Some value)))"

definition hex_digit :: "nat \<Rightarrow> char" where
  "hex_digit n = (if n < 10 then char_of (48 + n) else char_of (87 + n))"

text \<open>\<open>%02x\<close>\<close>

definition hex_byte :: "byte \<Rightarrow> string" where
  "hex_byte b = [hex_digit (unat b div 16), hex_digit (unat b mod 16)]"

text \<open>\<open>snprintf\<close> with \<open>UUID_STR_MAXLEN\<close> (37) keeps at most 36 characters.\<close>

definition cloudsync_uuid_v7_stringify :: "byte list \<Rightarrow> bool \<Rightarrow> string" where
  "cloudsync_uuid_v7_stringify uuid dash_format =
     take 36
      (let h = (\<lambda>i j. concat (List.map hex_byte (take (j - i) (drop i uuid))))
       in if dash_format
          then h 0 4 @ ''-'' @ h 4 6 @ ''-'' @ h 6 8 @ ''-'' @ h 8 10 @ ''-'' @ h 10 16
          else h 0 16)"

definition cloudsync_uuid_v7_string ::
  "byte list option \<Rightarrow> (i64 \<times> i64) option \<Rightarrow> bool \<Rightarrow> string option" where
  "cloudsync_uuid_v7_string entropy ts dash_format =
     map_option (\<lambda>uuid. cloudsync_uuid_v7_stringify uuid dash_format) (cloudsync_uuid_v7 entropy ts)"

definition uuid_timestamp :: "byte list \<Rightarrow> i64" where
  "uuid_timestamp v =
     push_bit 40 (ucast (v ! 0)) OR push_bit 32 (ucast (v ! 1)) OR push_bit 24 (ucast (v ! 2)) OR
     push_bit 16 (ucast (v ! 3)) OR push_bit 8 (ucast (v ! 4)) OR ucast (v ! 5)"

definition cloudsync_uuid_v7_compare :: "byte list \<Rightarrow> byte list \<Rightarrow> int" where
  "cloudsync_uuid_v7_compare value1 value2 =
     (let t1 = uuid_timestamp value1; t2 = uuid_timestamp value2
      in if t1 = t2 then memcmp value1 value2 UUID_LEN else if t1 > t2 then 1 else -1)"

section \<open>Strings and blobs\<close>

text \<open>\<open>alloc\<close> says whether an allocation of that many bytes succeeds; \<open>len\<close> bytes are readable.\<close>

definition cloudsync_string_ndup :: "(nat \<Rightarrow> bool) \<Rightarrow> string option \<Rightarrow> nat \<Rightarrow> bool \<Rightarrow> string option" where
  "cloudsync_string_ndup alloc str len lower =
     (case str of None \<Rightarrow> None
      | Some s \<Rightarrow> if \<not> alloc (len + 1) then None
                  else Some (if lower then lowercase (take len s) else take len s))"

definition cloudsync_string_dup :: "(nat \<Rightarrow> bool) \<Rightarrow> string option \<Rightarrow> bool \<Rightarrow> string option" where
  "cloudsync_string_dup alloc str lower =
     (case str of None \<Rightarrow> None | Some s \<Rightarrow> cloudsync_string_ndup alloc (Some s) (length s) lower)"

text \<open>The sizes are \<open>size_t\<close>; their difference is cast to a 32-bit \<open>int\<close>.\<close>

definition cloudsync_blob_compare :: "byte list \<Rightarrow> byte list \<Rightarrow> int" where
  "cloudsync_blob_compare blob1 blob2 =
     (if length blob1 \<noteq> length blob2
      then sint (ucast (word_of_nat (length blob1) - word_of_nat (length blob2) :: i64) :: 32 word)
      else memcmp blob1 blob2 (length blob1))"

definition cloudsync_string_replace_prefix ::
  "(nat \<Rightarrow> bool) \<Rightarrow> string \<Rightarrow> string \<Rightarrow> string \<Rightarrow> string option" where
  "cloudsync_string_replace_prefix alloc input prefix replacement =
     (if take (length prefix) input = prefix
      then (let new_len = length input - length prefix + length replacement
            in if \<not> alloc (new_len + 1) then None
               else Some (replacement @ drop (length prefix) input))
      else Some input)"

section \<open>The rowid of a change\<close>

text \<open>\<open>cloudsync_changesvtab_rowid\<close> of src/src/vtab.c and its inverse.\<close>

definition rowid_encode :: "i64 \<Rightarrow> i64 \<Rightarrow> i64" where
  "rowid_encode db_version seq = push_bit 30 db_version OR seq"

definition cloudsync_rowid_decode :: "i64 \<Rightarrow> i64 \<times> i64" where
  "cloudsync_rowid_decode rowid = (drop_bit 30 rowid, rowid AND 0x3FFFFFFF)"

section \<open>CRDT algorithms\<close>

datatype table_algo =
    table_algo_none
  | table_algo_crdt_cls
  | table_algo_crdt_gos
  | table_algo_crdt_dws
  | table_algo_crdt_aws

definition crdt_algo_from_name :: "string option \<Rightarrow> table_algo" where
  "crdt_algo_from_name algo_name =
     (case algo_name of None \<Rightarrow> table_algo_none
      | Some n \<Rightarrow>
        if str_case_eq n ''CausalLengthSet'' \<or> str_case_eq n ''cls'' then table_algo_crdt_cls
        else if str_case_eq n ''GrowOnlySet'' \<or> str_case_eq n ''gos'' then table_algo_crdt_gos
        else if str_case_eq n ''DeleteWinsSet'' \<or> str_case_eq n ''dws'' then table_algo_crdt_dws
        else if str_case_eq n ''AddWinsSet'' \<or> str_case_eq n ''aws'' then table_algo_crdt_aws
        else table_algo_none)"

primrec crdt_algo_name :: "table_algo \<Rightarrow> string option" where
  "crdt_algo_name table_algo_crdt_cls = Some ''cls''"
| "crdt_algo_name table_algo_crdt_gos = Some ''gos''"
| "crdt_algo_name table_algo_crdt_dws = Some ''dws''"
| "crdt_algo_name table_algo_crdt_aws = Some ''aws''"
| "crdt_algo_name table_algo_none = None"

section \<open>The schema hash\<close>

definition FNV_OFFSET_BASIS :: i64 where "FNV_OFFSET_BASIS = 0xcbf29ce484222325"
definition FNV_PRIME :: i64 where "FNV_PRIME = 0x100000001b3"

text \<open>\<open>q\<close> is the open quote character or 0, \<open>cmt\<close> is 1 in a line comment and 2 in a block comment.\<close>

record fnv_state =
  fnv_h :: i64
  fnv_q :: byte
  fnv_cmt :: nat
  fnv_last_space :: bool
  fnv_h_final :: i64

definition HASH_CHAR :: "byte \<Rightarrow> fnv_state \<Rightarrow> fnv_state" where
  "HASH_CHAR c st = (let h = (fnv_h st XOR ucast c) * FNV_PRIME in st\<lparr>fnv_h := h, fnv_h_final := h\<rparr>)"

definition c_isprint :: "byte \<Rightarrow> bool" where "c_isprint c \<longleftrightarrow> 32 \<le> c \<and> c \<le> 126"
definition c_isspace :: "byte \<Rightarrow> bool" where "c_isspace c \<longleftrightarrow> c = 32 \<or> (9 \<le> c \<and> c \<le> 13)"
definition byte_tolower :: "byte \<Rightarrow> byte" where
  "byte_tolower c = (if 65 \<le> c \<and> c \<le> 90 then c + 32 else c)"

definition peek :: "byte list \<Rightarrow> byte" where
  "peek bs = (case bs of [] \<Rightarrow> 0 | b # _ \<Rightarrow> b)"

text \<open>
  The body of the loop for the character \<open>c\<close> with \<open>rest\<close> behind it: whether it also consumes the
  next character (\<open>i += 1\<close>), and the new state. The characters are 34 and 39 (quotes), 45 (-),
  47 (/), 42 (*), 10 (newline), 59 (;).
\<close>

definition fnv_step :: "byte \<Rightarrow> byte list \<Rightarrow> fnv_state \<Rightarrow> bool \<times> fnv_state" where
  "fnv_step c rest st =
     (let next = peek rest in
      if fnv_q st = 0 \<and> fnv_cmt st = 0 \<and> c = 45 \<and> next = 45 then (True, st\<lparr>fnv_cmt := 1\<rparr>)
      else if fnv_q st = 0 \<and> fnv_cmt st = 0 \<and> c = 47 \<and> next = 42 then (True, st\<lparr>fnv_cmt := 2\<rparr>)
      else if fnv_cmt st = 1 then (False, if c = 10 then st\<lparr>fnv_cmt := 0\<rparr> else st)
      else if fnv_cmt st = 2 then
        (if c = 42 \<and> next = 47 then (True, st\<lparr>fnv_cmt := 0\<rparr>) else (False, st))
      else if c = 39 \<or> c = 34 then
        (if fnv_q st = c then
           (if next = c then (True, HASH_CHAR c st)
            else (False, (HASH_CHAR c (st\<lparr>fnv_q := 0\<rparr>))\<lparr>fnv_last_space := False\<rparr>))
         else (False,
           (HASH_CHAR c (if fnv_q st = 0 then st\<lparr>fnv_q := c\<rparr> else st))\<lparr>fnv_last_space := False\<rparr>))
      else if fnv_q st \<noteq> 0 then (False, (HASH_CHAR c st)\<lparr>fnv_last_space := False\<rparr>)
      else if \<not> c_isprint c then (False, st)
      else if c_isspace c then
        (let next_c = peek (dropWhile c_isspace rest) in
         if next_c = 40 \<or> next_c = 41 \<or> next_c = 44 \<or> next_c = 59 \<or> next_c = 0
         then (False, st\<lparr>fnv_last_space := True\<rparr>)
         else (False, if fnv_last_space st then st else (HASH_CHAR 32 st)\<lparr>fnv_last_space := True\<rparr>))
      else if c = 59 then (False, st\<lparr>fnv_last_space := True\<rparr>)
      else (False, (HASH_CHAR (byte_tolower c) st)\<lparr>fnv_last_space := False\<rparr>))"

function fnv_loop :: "byte list \<Rightarrow> fnv_state \<Rightarrow> fnv_state" where
  "fnv_loop [] st = st"
| "fnv_loop (c # rest) st =
     (case fnv_step c rest st of (extra, st') \<Rightarrow> fnv_loop (if extra then tl rest else rest) st')"
  by pat_completeness auto
termination
  by (relation "measure (\<lambda>(bs, _). length bs)") auto

definition fnv_init :: fnv_state where
  "fnv_init = \<lparr>fnv_h = FNV_OFFSET_BASIS, fnv_q = 0, fnv_cmt = 0, fnv_last_space = True,
               fnv_h_final = FNV_OFFSET_BASIS\<rparr>"

definition fnv1a_hash :: "byte list \<Rightarrow> i64" where
  "fnv1a_hash data = fnv_h_final (fnv_loop data fnv_init)"

section \<open>Big-endian bytes order like the numbers they spell\<close>

lemma unat_byte_less: "unat (b :: byte) < 256"
  using unsigned_less [where ?'a = nat and w = b] by simp

fun be_nat :: "byte list \<Rightarrow> nat" where
  "be_nat [] = 0"
| "be_nat (b # bs) = unat b * 256 ^ length bs + be_nat bs"

lemma be_nat_bound: "be_nat bs < 256 ^ length bs"
proof (induction bs)
  case (Cons b bs)
  have "unat b * 256 ^ length bs + be_nat bs < unat b * 256 ^ length bs + 256 ^ length bs"
    using Cons by simp
  also have "\<dots> = (unat b + 1) * 256 ^ length bs" by simp
  also have "\<dots> \<le> 256 * 256 ^ length bs"
    using unat_byte_less [of b] by (intro mult_right_mono) linarith+
  finally show ?case by simp
qed simp

lemma be_nat_digit_less:
  assumes "unat a < unat b" "length as = length bs"
  shows "be_nat (a # as) < be_nat (b # bs)"
proof -
  have "be_nat (a # as) < unat a * 256 ^ length as + 256 ^ length as"
    using be_nat_bound [of as] by simp
  also have "\<dots> = (unat a + 1) * 256 ^ length as" by simp
  also have "\<dots> \<le> unat b * 256 ^ length as"
    using assms(1) by (intro mult_right_mono) simp_all
  finally show ?thesis using assms(2) by simp
qed

lemma memcmp_be_nat:
  assumes "length as = length bs"
  shows "memcmp as bs (length as) =
    (if be_nat as < be_nat bs then -1 else if be_nat bs < be_nat as then 1 else 0)"
  using assms
proof (induction as bs rule: list_induct2)
  case (Cons a as b bs)
  consider "unat a < unat b" | "unat b < unat a" | "a = b"
    by (metis linorder_neqE_nat word_unat_eq_iff)
  then show ?case
  proof cases
    case 1
    with be_nat_digit_less [OF 1 Cons.hyps] show ?thesis by (simp add: word_less_nat_alt)
  next
    case 2
    with be_nat_digit_less [OF 2 Cons.hyps [symmetric]] show ?thesis by (simp add: word_less_nat_alt)
  next
    case 3
    with Cons show ?thesis by simp
  qed
qed simp

lemma memcmp_append:
  "length a = length b \<Longrightarrow>
   memcmp (a @ c) (b @ d) (length a + n) = (if memcmp a b (length a) \<noteq> 0 then memcmp a b (length a) else memcmp c d n)"
  by (induction a b rule: list_induct2) simp_all

lemma unat_shift_in_byte:
  fixes x :: i64
  assumes "unat x < 2 ^ 56"
  shows "unat (push_bit 8 x OR ucast (b :: byte)) = unat x * 256 + unat b"
proof -
  have "push_bit 8 x AND ucast b = 0"
    by (intro bit_word_eqI) (auto simp: bit_simps dest: bit_imp_le_length)
  then have "push_bit 8 x OR ucast b = push_bit 8 x + ucast b"
    by (simp add: disjunctive_add_eq_or)
  moreover have "unat (push_bit 8 x) = unat x * 256"
    using assms by (simp add: push_bit_eq_mult unat_word_ariths)
  moreover have "unat (ucast b :: i64) = unat b"
    by (simp add: unsigned_ucast_eq take_bit_nat_eq_self_iff) (use unat_byte_less [of b] in simp)
  ultimately show ?thesis
    using assms unat_byte_less [of b] by (simp add: unat_word_ariths)
qed

text \<open>The 48-bit timestamp of a UUID is the number its first six bytes spell.\<close>

lemma unat_uuid_timestamp:
  assumes "6 \<le> length v"
  shows "unat (uuid_timestamp v) = be_nat (take 6 v)"
proof -
  define w :: "nat \<Rightarrow> i64" where
    "w n = foldl (\<lambda>x b. push_bit 8 x OR ucast b) 0 (take n v)" for n
  have step: "w (Suc n) = push_bit 8 (w n) OR ucast (v ! n)" if "n < 6" for n
    using that assms by (simp add: w_def take_Suc_conv_app_nth)
  have nat_step: "be_nat (xs @ [b]) = be_nat xs * 256 + unat b" for xs b
    by (induction xs) (simp_all add: algebra_simps)
  have val: "n \<le> 6 \<Longrightarrow> unat (w n) = be_nat (take n v)" for n
  proof (induction n)
    case (Suc n)
    have "be_nat (take n v) < 256 ^ length (take n v)" by (rule be_nat_bound)
    also have "\<dots> \<le> 256 ^ 5" using Suc.prems by (intro power_increasing) simp_all
    finally have "unat (w n) < 2 ^ 56" using Suc by simp
    then show ?case
      using Suc assms by (simp add: step unat_shift_in_byte take_Suc_conv_app_nth nat_step)
  qed (simp add: w_def)
  have "uuid_timestamp v = w 6"
    using step [of 0] step [of 1] step [of 2] step [of 3] step [of 4] step [of 5]
    by (simp add: uuid_timestamp_def eval_nat_numeral w_def push_bit_or or.assoc)
  then show ?thesis using val [of 6] by simp
qed

lemma uuid_compare_memcmp:
  assumes "length a = UUID_LEN" "length b = UUID_LEN"
  shows "cloudsync_uuid_v7_compare a b = memcmp a b UUID_LEN"
proof -
  have "memcmp a b (6 + 10) = (if memcmp (take 6 a) (take 6 b) 6 \<noteq> 0 then memcmp (take 6 a) (take 6 b) 6
      else memcmp (drop 6 a) (drop 6 b) 10)"
    using memcmp_append [of "take 6 a" "take 6 b" "drop 6 a" "drop 6 b" 10] assms by simp
  moreover have "memcmp (take 6 a) (take 6 b) 6 = (if be_nat (take 6 a) < be_nat (take 6 b) then -1
      else if be_nat (take 6 b) < be_nat (take 6 a) then 1 else 0)"
    using memcmp_be_nat [of "take 6 a" "take 6 b"] assms by simp
  moreover have "unat (uuid_timestamp a) = be_nat (take 6 a)" "unat (uuid_timestamp b) = be_nat (take 6 b)"
    using assms by (simp_all add: unat_uuid_timestamp)
  ultimately show ?thesis
    by (auto simp: cloudsync_uuid_v7_compare_def Let_def word_less_nat_alt word_unat_eq_iff)
qed

section \<open>The normalization of the schema hash\<close>

text \<open>No quote character: the whole text is outside quotes.\<close>

definition unquoted :: "byte list \<Rightarrow> bool" where
  "unquoted bs \<longleftrightarrow> 34 \<notin> set bs \<and> 39 \<notin> set bs"

lemma unat_upper_shift:
  "65 \<le> (c :: byte) \<Longrightarrow> c \<le> 90 \<Longrightarrow> unat (c + 32) = unat c + 32"
  by (simp add: word_le_nat_alt unat_word_ariths)

lemma byte_tolower_eq_iff:
  "byte_tolower c = k \<longleftrightarrow> (if 65 \<le> c \<and> c \<le> 90 then c = k - 32 else c = k)"
  by (auto simp: byte_tolower_def)

text \<open>Case folding moves letters only, so every test of the scanner has the same answer.\<close>

lemma byte_tolower_tests:
  "byte_tolower c = 0 \<longleftrightarrow> c = 0" "byte_tolower c = 10 \<longleftrightarrow> c = 10"
  "byte_tolower c = 34 \<longleftrightarrow> c = 34" "byte_tolower c = 39 \<longleftrightarrow> c = 39"
  "byte_tolower c = 40 \<longleftrightarrow> c = 40" "byte_tolower c = 41 \<longleftrightarrow> c = 41"
  "byte_tolower c = 42 \<longleftrightarrow> c = 42" "byte_tolower c = 44 \<longleftrightarrow> c = 44"
  "byte_tolower c = 45 \<longleftrightarrow> c = 45" "byte_tolower c = 47 \<longleftrightarrow> c = 47"
  "byte_tolower c = 59 \<longleftrightarrow> c = 59"
  by (auto simp: byte_tolower_eq_iff)

lemma byte_tolower_upper: "65 \<le> c \<Longrightarrow> c \<le> 90 \<Longrightarrow> 97 \<le> byte_tolower c \<and> byte_tolower c \<le> 122"
  using unat_upper_shift [of c] by (simp add: byte_tolower_def word_le_nat_alt)

lemma byte_tolower_classes:
  "c_isprint (byte_tolower c) \<longleftrightarrow> c_isprint c" "c_isspace (byte_tolower c) \<longleftrightarrow> c_isspace c"
  "byte_tolower (byte_tolower c) = byte_tolower c"
proof -
  have "(c_isprint (byte_tolower c) \<longleftrightarrow> c_isprint c) \<and> (c_isspace (byte_tolower c) \<longleftrightarrow> c_isspace c)
      \<and> byte_tolower (byte_tolower c) = byte_tolower c"
  proof (cases "65 \<le> c \<and> c \<le> 90")
    case True
    then have "97 \<le> byte_tolower c" "byte_tolower c \<le> 122" using byte_tolower_upper by auto
    moreover from this have "\<not> byte_tolower c \<le> 90" "byte_tolower c \<noteq> 32"
      by (auto simp: word_le_nat_alt)
    ultimately show ?thesis using True
      by (auto simp: c_isprint_def c_isspace_def byte_tolower_def [of "byte_tolower c"] word_le_nat_alt)
  next
    case False
    then have "byte_tolower c = c" by (auto simp: byte_tolower_def)
    then show ?thesis by simp
  qed
  then show "c_isprint (byte_tolower c) \<longleftrightarrow> c_isprint c" "c_isspace (byte_tolower c) \<longleftrightarrow> c_isspace c"
    "byte_tolower (byte_tolower c) = byte_tolower c" by blast+
qed

lemma peek_map_tolower: "peek (List.map byte_tolower bs) = byte_tolower (peek bs)"
  by (cases bs) (simp_all add: peek_def byte_tolower_def)

lemma dropWhile_space_tolower:
  "dropWhile c_isspace (List.map byte_tolower bs) = List.map byte_tolower (dropWhile c_isspace bs)"
  by (simp add: dropWhile_map comp_def byte_tolower_classes)

lemma HASH_CHAR_q [simp]:
  "fnv_q (HASH_CHAR c st) = fnv_q st" "fnv_cmt (HASH_CHAR c st) = fnv_cmt st"
  "fnv_last_space (HASH_CHAR c st) = fnv_last_space st"
  by (simp_all add: HASH_CHAR_def Let_def)

lemma unquoted_Cons: "unquoted (c # bs) \<longleftrightarrow> c \<noteq> 34 \<and> c \<noteq> 39 \<and> unquoted bs"
  by (auto simp: unquoted_def)

lemma unquoted_tl: "unquoted bs \<Longrightarrow> unquoted (tl bs)"
  by (cases bs) (auto simp: unquoted_def)

lemma fnv_step_q:
  assumes "c \<noteq> 34" "c \<noteq> 39"
  shows "fnv_q (snd (fnv_step c rest st)) = fnv_q st"
  using assms by (simp add: fnv_step_def Let_def)

lemma fnv_step_tolower:
  assumes "c \<noteq> 34" "c \<noteq> 39" "fnv_q st = 0"
  shows "fnv_step (byte_tolower c) (List.map byte_tolower rest) st = fnv_step c rest st"
  using assms
  by (simp add: fnv_step_def Let_def peek_map_tolower byte_tolower_tests byte_tolower_classes
      dropWhile_space_tolower)

text \<open>Outside quotes the scan of a text and of its lower-case copy agree.\<close>

lemma fnv_loop_tolower:
  "unquoted bs \<Longrightarrow> fnv_q st = 0 \<Longrightarrow> fnv_loop (List.map byte_tolower bs) st = fnv_loop bs st"
proof (induction bs st rule: fnv_loop.induct)
  case (2 c rest st)
  obtain extra st' where step: "fnv_step c rest st = (extra, st')" by fastforce
  let ?next = "if extra then tl rest else rest"
  have q: "unquoted ?next" "fnv_q st' = 0"
    using "2.prems" fnv_step_q [of c rest st] step by (auto simp: unquoted_Cons unquoted_tl)
  have IH: "fnv_loop (List.map byte_tolower ?next) st' = fnv_loop ?next st'"
    using "2.IH" [OF step [symmetric] q] .
  have "(if extra then tl (List.map byte_tolower rest) else List.map byte_tolower rest)
      = List.map byte_tolower ?next" by (simp add: map_tl)
  then show ?case
    using fnv_step_tolower [of c st rest] "2.prems" step IH by (simp add: unquoted_Cons)
qed simp

text \<open>A semicolon behind a text that ends outside quotes changes nothing.\<close>

lemma peek_Nil [simp]: "peek [] = 0"
  by (simp add: peek_def)

lemma peek_semicolon: "k \<noteq> 0 \<Longrightarrow> k \<noteq> 59 \<Longrightarrow> peek (bs @ [59]) = k \<longleftrightarrow> peek bs = k"
  by (cases bs) (auto simp: peek_def)

lemma dropWhile_space_semicolon:
  "dropWhile c_isspace (bs @ [59]) = dropWhile c_isspace bs @ [59]"
  by (induction bs) (simp_all add: c_isspace_def)

definition space_irrelevant :: "byte \<Rightarrow> bool" where
  "space_irrelevant b \<longleftrightarrow> b = 40 \<or> b = 41 \<or> b = 44 \<or> b = 59 \<or> b = 0"

lemma space_irrelevant_semicolon: "space_irrelevant (peek (bs @ [59])) \<longleftrightarrow> space_irrelevant (peek bs)"
  by (cases bs) (auto simp: peek_def space_irrelevant_def)

lemma fnv_step_semicolon: "fnv_step c (rest @ [59]) st = fnv_step c rest st"
proof -
  consider "c = 39" | "c = 34" | "c \<noteq> 39" "c \<noteq> 34" by blast
  then show ?thesis
    by cases
      (simp_all only: fnv_step_def Let_def peek_semicolon dropWhile_space_semicolon
        space_irrelevant_def [symmetric] space_irrelevant_semicolon simp_thms if_True if_False
        zero_neq_numeral numeral_eq_iff, simp_all add: peek_semicolon)
qed

lemma fnv_loop_semicolon:
  assumes "fnv_q (fnv_loop bs st) = 0"
  shows "fnv_h_final (fnv_loop (bs @ [59]) st) = fnv_h_final (fnv_loop bs st)"
  using assms
proof (induction bs st rule: fnv_loop.induct)
  case (1 st)
  then show ?case by (simp add: fnv_step_def Let_def c_isprint_def c_isspace_def)
next
  case (2 c rest st)
  obtain extra st' where step: "fnv_step c rest st = (extra, st')" by fastforce
  have "extra \<Longrightarrow> rest \<noteq> []"
    using step by (auto simp: fnv_step_def Let_def split: if_splits)
  then have "(if extra then tl (rest @ [59]) else rest @ [59]) = (if extra then tl rest else rest) @ [59]"
    by (cases rest) auto
  then show ?case
    using "2.IH" [OF step [symmetric]] "2.prems" step by (simp add: fnv_step_semicolon)
qed

text \<open>\<open>h_final\<close> follows every hashed character, so it is always the running hash.\<close>

lemma fnv_step_final: "fnv_h st = fnv_h_final st \<Longrightarrow> fnv_h (snd (fnv_step c rest st)) = fnv_h_final (snd (fnv_step c rest st))"
  by (simp add: fnv_step_def HASH_CHAR_def Let_def)

section \<open>The rowid\<close>

lemma bit_high_False:
  fixes x :: i64
  assumes "unat x < 2 ^ m" "m \<le> n"
  shows "\<not> bit x n"
proof
  assume "bit x n"
  then have "n < 64" by (auto dest: bit_imp_le_length)
  have "bit (unat x) n" using \<open>bit x n\<close> by (simp add: bit_unsigned_iff \<open>n < 64\<close>)
  moreover have "take_bit n (unat x) = unat x"
    using assms by (simp add: take_bit_nat_eq_self power_increasing less_le_trans)
  ultimately show False by (metis bit_take_bit_iff less_irrefl)
qed

lemma rowid_decode_encode:
  fixes d s :: i64
  assumes "unat d < 2 ^ 34" "unat s < 2 ^ 30"
  shows "cloudsync_rowid_decode (rowid_encode d s) = (d, s)"
proof -
  have mask: "x AND 0x3FFFFFFF = take_bit 30 x" for x :: i64
    by (simp add: take_bit_eq_mask mask_eq_exp_minus_1)
  have "bit d n \<Longrightarrow> n < 34" for n
    using bit_high_False [OF assms(1), of n] by (cases "n < 34") auto
  then have "drop_bit 30 (rowid_encode d s) = d"
    using bit_high_False [OF assms(2)]
    by (auto intro!: bit_word_eqI simp: rowid_encode_def bit_simps) 
  moreover have "take_bit 30 (rowid_encode d s) = s"
    using bit_high_False [OF assms(2)]
    by (auto intro!: bit_word_eqI simp: rowid_encode_def bit_simps not_less) 
  ultimately show ?thesis by (simp add: cloudsync_rowid_decode_def mask)
qed

section \<open>The bytes of a UUID\<close>

lemma unat_take_bit_48:
  fixes t :: i64
  assumes "unat t < 2 ^ 48"
  shows "take_bit 48 t = t"
  using assms by (simp add: word_unat_eq_iff unsigned_take_bit_eq take_bit_nat_eq_self)

lemma join_byte:
  fixes t :: i64
  assumes "k + 8 \<le> 64"
  shows "push_bit k (ucast (ucast (take_bit 8 (drop_bit k t)) :: byte)) OR take_bit k t = take_bit (k + 8) t"
  using assms by (intro bit_word_eqI) (auto simp: bit_simps)

text \<open>The timestamp goes in big-endian and comes out again.\<close>

lemma uuid_timestamp_v7:
  assumes "cloudsync_uuid_v7 (Some e) (Some (sec, nsec)) = Some v" "length e = UUID_LEN"
  shows "uuid_timestamp v = take_bit 48 (sec * 1000 + nsec div 1000000)"
proof -
  define t where "t = sec * 1000 + nsec div 1000000"
  have "v ! 0 = ucast (take_bit 8 (drop_bit 40 t))" "v ! 1 = ucast (take_bit 8 (drop_bit 32 t))"
    "v ! 2 = ucast (take_bit 8 (drop_bit 24 t))" "v ! 3 = ucast (take_bit 8 (drop_bit 16 t))"
    "v ! 4 = ucast (take_bit 8 (drop_bit 8 t))" "v ! 5 = ucast (take_bit 8 (drop_bit 0 t))"
    using assms by (auto simp: cloudsync_uuid_v7_def Let_def and_255 simp flip: t_def)
  then have "uuid_timestamp v = take_bit 48 t"
    using join_byte [of 0 t] join_byte [of 8 t] join_byte [of 16 t] join_byte [of 24 t]
      join_byte [of 32 t] join_byte [of 40 t]
    by (simp add: uuid_timestamp_def)
  then show ?thesis by (simp add: t_def)
qed

lemma uuid_v7_length:
  "cloudsync_uuid_v7 (Some e) (Some ts) = Some v \<Longrightarrow> length v = length e"
  by (cases ts) (auto simp: cloudsync_uuid_v7_def Let_def)

lemma uuid_v7_version:
  assumes "cloudsync_uuid_v7 (Some e) (Some ts) = Some v" "length e = UUID_LEN"
  shows "drop_bit 4 (v ! 6) = 7" "drop_bit 6 (v ! 8) = 2"
proof -
  have "v ! 6 = (e ! 6 AND 0x0F) OR 0x70" "v ! 8 = (e ! 8 AND 0x3F) OR 0x80"
    using assms by (cases ts; auto simp: cloudsync_uuid_v7_def Let_def)+
  moreover have "x AND 0x0F = take_bit 4 x" "x AND 0x3F = take_bit 6 x" for x :: byte
    by (simp_all add: take_bit_eq_mask mask_eq_exp_minus_1)
  ultimately show "drop_bit 4 (v ! 6) = 7" "drop_bit 6 (v ! 8) = 2"
    by (simp_all add: drop_bit_or drop_bit_take_bit)
qed

section \<open>Properties\<close>

text \<open>Site identifiers sort by creation time: of two UUIDs made at different milliseconds (before
  the 48-bit timestamp overflows) the earlier one compares less, and carries version 7 and the
  RFC variant.\<close>

theorem uuid_v7_ordered_by_time:
  assumes u: "cloudsync_uuid_v7 (Some e1) (Some (s1, n1)) = Some u" "length e1 = UUID_LEN"
    and v: "cloudsync_uuid_v7 (Some e2) (Some (s2, n2)) = Some v" "length e2 = UUID_LEN"
    and t: "s1 * 1000 + n1 div 1000000 < s2 * 1000 + n2 div 1000000"
      "unat (s2 * 1000 + n2 div 1000000) < 2 ^ 48"
  shows "cloudsync_uuid_v7_compare u v = -1 \<and> cloudsync_uuid_v7_compare v u = 1 \<and>
    memcmp u v UUID_LEN = -1 \<and> drop_bit 4 (u ! 6) = 7 \<and> drop_bit 6 (u ! 8) = 2"
proof (intro conjI)
  have "unat (s1 * 1000 + n1 div 1000000) < 2 ^ 48"
    using t unfolding word_less_nat_alt by linarith
  then have "uuid_timestamp u = s1 * 1000 + n1 div 1000000" "uuid_timestamp v = s2 * 1000 + n2 div 1000000"
    using uuid_timestamp_v7 [OF u] uuid_timestamp_v7 [OF v] t(2) by (simp_all add: unat_take_bit_48)
  then show c: "cloudsync_uuid_v7_compare u v = -1" and "cloudsync_uuid_v7_compare v u = 1"
    using t(1) by (auto simp: cloudsync_uuid_v7_compare_def Let_def)
  show "memcmp u v UUID_LEN = -1"
    using c uuid_compare_memcmp [of u v] uuid_v7_length [OF u(1)] uuid_v7_length [OF v(1)] u(2) v(2)
    by simp
  show "drop_bit 4 (u ! 6) = 7" "drop_bit 6 (u ! 8) = 2"
    using uuid_v7_version [OF u] by simp_all
qed

theorem uuid_v7_ordered_by_time_witness:
  "\<exists>u v. cloudsync_uuid_v7 (Some (replicate 16 255)) (Some (1, 0)) = Some u \<and>
    cloudsync_uuid_v7 (Some (replicate 16 0)) (Some (1, 2000000)) = Some v \<and>
    cloudsync_uuid_v7_compare u v = -1"
proof -
  obtain u v where uv: "cloudsync_uuid_v7 (Some (replicate 16 255)) (Some (1, 0)) = Some u"
    "cloudsync_uuid_v7 (Some (replicate 16 0)) (Some (1, 2000000)) = Some v"
    by (simp add: cloudsync_uuid_v7_def Let_def)
  show ?thesis using uv uuid_v7_ordered_by_time [OF uv(1) _ uv(2)] by auto
qed

text \<open>The schema hash does not depend on the case of unquoted text nor on a final semicolon.\<close>

theorem fnv1a_hash_normalizes:
  "(unquoted data \<longrightarrow> fnv1a_hash (List.map byte_tolower data) = fnv1a_hash data) \<and>
   (fnv_q (fnv_loop data fnv_init) = 0 \<longrightarrow> fnv1a_hash (data @ [59]) = fnv1a_hash data)"
  by (simp_all add: fnv1a_hash_def fnv_loop_tolower fnv_loop_semicolon fnv_init_def)

theorem fnv1a_hash_normalizes_witness:
  "unquoted [65, 32, 66] \<and> fnv1a_hash [97, 32, 98] = fnv1a_hash [65, 32, 66] \<and>
   fnv1a_hash ([65, 32, 66] @ [59]) = fnv1a_hash [65, 32, 66]"
proof -
  have u: "unquoted [65, 32, 66]" by (simp add: unquoted_def)
  have q: "fnv_q (fnv_loop [65, 32, 66] fnv_init) = 0"
    by (simp add: fnv_init_def fnv_step_def c_isprint_def c_isspace_def peek_def Let_def)
  show ?thesis
    using u q fnv1a_hash_normalizes [of "[65, 32, 66]"] by (simp add: byte_tolower_def)
qed

text \<open>A newline (or a tab) is dropped, not collapsed to a space: two words separated by a line
  break hash as one word, unlike the same two words separated by a space.\<close>

theorem fnv1a_hash_drops_newline:
  "fnv1a_hash [97, 10, 98] = fnv1a_hash [97, 98] \<and> fnv1a_hash [97, 32, 98] \<noteq> fnv1a_hash [97, 98]"
  by (simp_all add: fnv1a_hash_def fnv_init_def fnv_step_def c_isprint_def c_isspace_def peek_def
      Let_def HASH_CHAR_def byte_tolower_def FNV_OFFSET_BASIS_def FNV_PRIME_def)

text \<open>The rowid of a change determines its db\_version and seq, as long as they fit 34 and 30
  bits.\<close>

theorem rowid_roundtrip:
  assumes "unat db_version < 2 ^ 34" "unat seq < 2 ^ 30"
  shows "cloudsync_rowid_decode (rowid_encode db_version seq) = (db_version, seq)"
  using assms by (rule rowid_decode_encode)

theorem rowid_roundtrip_witness: "cloudsync_rowid_decode (rowid_encode 12 34) = (12, 34)"
  by (rule rowid_roundtrip) simp_all

lemma crdt_algo_name_closed:
  "crdt_algo_from_name (crdt_algo_name table_algo_none) = table_algo_none"
  "crdt_algo_from_name (crdt_algo_name table_algo_crdt_cls) = table_algo_crdt_cls"
  "crdt_algo_from_name (crdt_algo_name table_algo_crdt_gos) = table_algo_crdt_gos"
  "crdt_algo_from_name (crdt_algo_name table_algo_crdt_dws) = table_algo_crdt_dws"
  "crdt_algo_from_name (crdt_algo_name table_algo_crdt_aws) = table_algo_crdt_aws"
  by code_simp+

text \<open>Every algorithm is found under the name the library writes for it, whatever its case.\<close>

theorem crdt_algo_name_roundtrip:
  "crdt_algo_from_name (crdt_algo_name algo) = algo \<and>
   (str_case_eq n m \<longrightarrow> crdt_algo_from_name (Some n) = crdt_algo_from_name (Some m))"
proof (intro conjI impI)
  show "crdt_algo_from_name (crdt_algo_name algo) = algo"
    by (cases algo) (simp_all only: crdt_algo_name_closed)
  assume "str_case_eq n m"
  then have "str_case_eq n k = str_case_eq m k" for k
    by (simp add: str_case_eq_def)
  then show "crdt_algo_from_name (Some n) = crdt_algo_from_name (Some m)"
    by (simp add: crdt_algo_from_name_def)
qed

theorem crdt_algo_name_roundtrip_witness:
  "str_case_eq ''GOS'' ''gos'' \<and> crdt_algo_from_name (Some ''GOS'') = crdt_algo_from_name (Some ''gos'')"
proof -
  have h: "str_case_eq ''GOS'' ''gos''" by code_simp
  show ?thesis using h crdt_algo_name_roundtrip [of table_algo_none "''GOS''" "''gos''"] by simp
qed

end
