(* ===== verification/State.thy ===== *)
theory State
  imports Pk Utils
begin

text \<open>
  The state the code works on. \<open>cloudsync_context\<close> and \<open>table_ctx\<close> are the structs of
  src/src/cloudsync.c; \<open>database\<close> is what the SQL statements of the code read and write (the
  library's own tables, the clock table \<open><name>_cloudsync\<close> of every augmented table, the
  application's tables and the triggers).

  A table context is named by its slot in \<open>c_tables\<close>, as the code names it by a pointer: two
  callers that hold the same slot see the same fields. A prepared statement has no state of its
  own here: running it is the function that gives its effect.

  SQLite may refuse any call (busy, full, out of memory). \<open>faults\<close> is the list of the result codes
  of the next calls, in order; an empty list means that every further call succeeds. Every
  \<open>sqlite3_bind_*\<close>, \<open>sqlite3_step\<close>, \<open>sqlite3_prepare\<close> and \<open>sqlite3_exec\<close> takes one. A refused
  statement changes nothing. The heap gives what is asked for, except where an operation takes
  the answer of the allocator as an argument.

  Versions and sequence numbers are mathematical integers. \<open>ub\<close> is set where the C code would
  read outside a buffer, or go on with something that the state does not represent (a trigger written from a
  failed query); nothing is claimed of the states after that.
\<close>

section \<open>The context\<close>

record table_ctx =
  t_algo :: table_algo
  t_name :: string
  t_cols :: "string list"
  t_col_ids :: "int list"
  t_npks :: nat
  t_enabled :: bool
  t_pk_name :: "string list option"

abbreviation t_ncols :: "table_ctx \<Rightarrow> nat" where "t_ncols t \<equiv> length (t_cols t)"

text \<open>
  \<open>c_tables\<close> is the array \<open>tables\<close> with its \<open>tables_alloc\<close> slots. Three fields say whether the
  statements \<open>data_version_stmt\<close>, \<open>schema_version_stmt\<close> and \<open>getset_siteid_stmt\<close> are prepared, and
  \<open>c_db_version_stmt\<close> holds the clock tables that the text of \<open>db_version_stmt\<close> names.
\<close>

record cloudsync_context =
  c_site_id :: "byte list"
  c_insync :: bool
  c_debug :: bool
  c_merge_equal_values :: bool
  c_temp_bool :: bool
  c_data_version_stmt :: bool
  c_schema_version_stmt :: bool
  c_getset_siteid_stmt :: bool
  c_db_version_stmt :: "string list option"
  c_data_version :: int
  c_schema_version :: int
  c_schema_hash :: i64
  c_db_version :: int
  c_pending_db_version :: int
  c_seq :: int
  c_tables :: "table_ctx option list"
  c_tables_count :: nat

abbreviation (input) CLOUDSYNC_VALUE_NOTSET :: int where "CLOUDSYNC_VALUE_NOTSET \<equiv> -1"
abbreviation (input) CLOUDSYNC_MIN_DB_VERSION :: int where "CLOUDSYNC_MIN_DB_VERSION \<equiv> 0"
abbreviation (input) CLOUDSYNC_INIT_NTABLES :: nat where "CLOUDSYNC_INIT_NTABLES \<equiv> 128"
definition CLOUDSYNC_TOMBSTONE_VALUE :: string where "CLOUDSYNC_TOMBSTONE_VALUE = ''__[RIP]__''"
definition CLOUDSYNC_RLS_RESTRICTED_VALUE :: string where "CLOUDSYNC_RLS_RESTRICTED_VALUE = ''__[RLS]__''"

section \<open>The database\<close>

text \<open>A row of a clock table; its key is the encoded primary key and the column name.\<close>

record meta_row =
  m_col_version :: int
  m_db_version :: int
  m_site_id :: int
  m_seq :: int

type_synonym meta_key = "pkblob \<times> string"
type_synonym meta_table = "(meta_key \<times> meta_row) list"

text \<open>A column as \<open>pragma_table_info\<close> gives it; \<open>col_pk\<close> is 0 for a column outside the primary key.\<close>

record column =
  col_name :: string
  col_type :: string
  col_notnull :: bool
  col_dflt :: "sqlval option"
  col_pk :: nat

record user_table =
  u_sql :: "byte list"
  u_columns :: "column list"
  u_rows :: "(sqlval list \<times> (string \<times> sqlval) list) list"

record database =
  d_meta :: "(string \<times> meta_table) list"
  d_users :: "(string \<times> user_table) list"
  d_settings :: "(string \<times> string) list option"
  d_site_ids :: "(int \<times> byte list) list option"
  d_table_settings :: "((string \<times> string) \<times> (string \<times> string)) list option"
  d_schema_versions :: "(i64 \<times> int) list option"
  d_triggers :: "string list"
  d_pragma_data_version :: int
  d_pragma_schema_version :: int

record state = cloudsync_context +
  db :: database
  faults :: "int list"
  savepoints :: "(string \<times> database) list"
  ub :: bool

section \<open>Calls of SQLite\<close>

definition next_fault :: "state \<Rightarrow> int \<times> state" where
  "next_fault s = (case faults s of [] \<Rightarrow> (SQLITE_OK, s) | f # fs \<Rightarrow> (f, s\<lparr>faults := fs\<rparr>))"

text \<open>\<open>n\<close> calls in a row, each followed by \<open>if (rc != SQLITE_OK) goto cleanup\<close>.\<close>

fun binds :: "nat \<Rightarrow> state \<Rightarrow> int \<times> state" where
  "binds 0 s = (SQLITE_OK, s)"
| "binds (Suc n) s =
     (case next_fault s of (rc, s') \<Rightarrow> if rc \<noteq> SQLITE_OK then (rc, s') else binds n s')"

lemma next_fault_none [simp]: "faults s = [] \<Longrightarrow> next_fault s = (SQLITE_OK, s)"
  by (simp add: next_fault_def)

lemma binds_none [simp]: "faults s = [] \<Longrightarrow> binds n s = (SQLITE_OK, s)"
  by (induction n) simp_all

text \<open>A call only takes from \<open>faults\<close>: \<open>same s s'\<close> says that nothing else differs.\<close>

definition same :: "state \<Rightarrow> state \<Rightarrow> bool" where
  "same s s' \<longleftrightarrow> (\<exists>fs. s' = s\<lparr>faults := fs\<rparr>)"

lemma same_refl [simp]: "same s s"
  unfolding same_def by (rule exI [of _ "faults s"]) simp

lemma same_trans: "same s s' \<Longrightarrow> same s' s'' \<Longrightarrow> same s s''"
  by (auto simp: same_def)

lemma same_fields:
  assumes "same s s'"
  shows "c_insync s' = c_insync s" "c_tables s' = c_tables s" "c_tables_count s' = c_tables_count s"
    "c_db_version s' = c_db_version s" "c_pending_db_version s' = c_pending_db_version s"
    "c_seq s' = c_seq s" "c_data_version s' = c_data_version s"
    "c_schema_version s' = c_schema_version s" "c_merge_equal_values s' = c_merge_equal_values s"
    "c_db_version_stmt s' = c_db_version_stmt s"
    "c_data_version_stmt s' = c_data_version_stmt s" "c_schema_version_stmt s' = c_schema_version_stmt s"
    "c_getset_siteid_stmt s' = c_getset_siteid_stmt s" "c_temp_bool s' = c_temp_bool s"
    "c_site_id s' = c_site_id s" "c_schema_hash s' = c_schema_hash s" "c_debug s' = c_debug s"
    "db s' = db s" "savepoints s' = savepoints s" "ub s' = ub s"
  using assms by (auto simp: same_def)

lemma next_fault_same: "same s (snd (next_fault s))"
  by (cases "faults s") (simp_all add: next_fault_def, auto simp: same_def)

lemmas next_fault_fields [simp] = same_fields [OF next_fault_same]

section \<open>Sequencing\<close>

text \<open>\<open>if (rc != SQLITE_OK) goto cleanup\<close> between two steps.\<close>

definition and_then :: "int \<times> state \<Rightarrow> (state \<Rightarrow> int \<times> state) \<Rightarrow> int \<times> state" where
  "and_then r f = (case r of (rc, s) \<Rightarrow> if rc \<noteq> SQLITE_OK then (rc, s) else f s)"

lemma and_then_ok [simp]: "and_then (0, s) f = f s"
  by (simp add: and_then_def)

lemma and_then_error [simp]: "rc \<noteq> 0 \<Longrightarrow> and_then (rc, s) f = (rc, s)"
  by (simp add: and_then_def)

text \<open>
  A statement: \<open>sqlite3_step\<close> may be refused, otherwise \<open>eff\<close> gives the result code and the state
  after it. \<open>run\<close> turns \<open>SQLITE_DONE\<close> into \<open>SQLITE_OK\<close>, as every caller of a writing statement does.
\<close>

definition step :: "(state \<Rightarrow> int \<times> state) \<Rightarrow> state \<Rightarrow> int \<times> state" where
  "step eff s = (case next_fault s of (rc, s') \<Rightarrow> if rc \<noteq> SQLITE_OK then (rc, s') else eff s')"

definition done_ok :: "int \<times> state \<Rightarrow> int \<times> state" where
  "done_ok r = (if fst r = SQLITE_DONE then (SQLITE_OK, snd r) else r)"

lemma step_none [simp]: "faults s = [] \<Longrightarrow> step eff s = eff s"
  by (simp add: step_def)

lemma done_ok_simps [simp]:
  "done_ok (101, s) = (0, s)" "rc \<noteq> 101 \<Longrightarrow> done_ok (rc, s) = (rc, s)"
  by (simp_all add: done_ok_def)

lemma snd_done_ok [simp]: "snd (done_ok r) = snd r"
  by (simp add: done_ok_def)

text \<open>\<open>sqlite3_exec\<close> and \<open>sqlite3_prepare\<close> of a statement that may be wrong for the schema.\<close>

definition prepare :: "bool \<Rightarrow> state \<Rightarrow> int \<times> state" where
  "prepare legal s = step (\<lambda>s. (if legal then SQLITE_OK else SQLITE_ERROR, s)) s"

lemma prepare_none [simp]: "faults s = [] \<Longrightarrow> prepare legal s = (if legal then 0 else 1, s)"
  by (simp add: prepare_def)

section \<open>Facts that the engine keeps\<close>

text \<open>
  A fact about the state that survives the taking of a result code from \<open>faults\<close> survives every call that
  changes nothing else. \<open>keeps\<close> collects the rules that follow the shape of a definition, so that the proof that
  an operation keeps such a fact is one application of them.
\<close>

named_theorems keeps \<open>introduction rules for facts kept by an operation\<close>

locale frame =
  fixes P :: "state \<Rightarrow> bool"
  assumes next_fault_keeps [keeps]: "P s \<Longrightarrow> P (snd (next_fault s))"
begin

lemma case_prod_keeps [keeps]:
  "P (snd r) \<Longrightarrow> (\<And>a s'. P s' \<Longrightarrow> P (snd (f a s'))) \<Longrightarrow> P (snd (case_prod f r))"
  by (cases r) simp

lemma if_keeps [keeps]: "(c \<Longrightarrow> P (snd x)) \<Longrightarrow> (\<not> c \<Longrightarrow> P (snd y)) \<Longrightarrow> P (snd (if c then x else y))"
  by simp

lemma option_keeps [keeps]:
  "(x = None \<Longrightarrow> P (snd y)) \<Longrightarrow> (\<And>a. x = Some a \<Longrightarrow> P (snd (f a))) \<Longrightarrow> P (snd (case_option y f x))"
  by (cases x) simp_all

lemma let_keeps [keeps]: "(\<And>x. x = a \<Longrightarrow> P (snd (f x))) \<Longrightarrow> P (snd (Let a f))"
  by simp

lemma pair_keeps [keeps]: "P s \<Longrightarrow> P (snd (r, s))"
  by simp

lemma binds_keeps [keeps]: "P s \<Longrightarrow> P (snd (binds n s))"
proof (induction n arbitrary: s)
  case (Suc n)
  show ?case unfolding binds.simps by (intro keeps Suc)
qed simp

lemma and_then_keeps [keeps]:
  "P (snd r) \<Longrightarrow> (\<And>s. P s \<Longrightarrow> P (snd (f s))) \<Longrightarrow> P (snd (and_then r f))"
  by (cases r) (simp add: and_then_def)

lemma step_keeps [keeps]: "P s \<Longrightarrow> (\<And>s. P s \<Longrightarrow> P (snd (eff s))) \<Longrightarrow> P (snd (step eff s))"
  unfolding step_def by (intro keeps)

lemma done_ok_keeps [keeps]: "P (snd r) \<Longrightarrow> P (snd (done_ok r))"
  by simp

lemma prepare_keeps [keeps]: "P s \<Longrightarrow> P (snd (prepare legal s))"
  unfolding prepare_def by (intro keeps)

end

interpretation same_frame: frame "same s0" for s0
  by unfold_locales (auto simp: same_def next_fault_def split: list.split)

text \<open>Without a failure ahead there is none later.\<close>

interpretation no_faults: frame "\<lambda>s. faults s = []"
  by unfold_locales (simp add: next_fault_def)

end
