(* ===== verification/Settings.thy ===== *)
theory Settings
  imports State
begin

text \<open>
  The settings of src/src/dbutils.c: the key/value table \<open>cloudsync_settings\<close> (its key column is
  \<open>COLLATE NOCASE\<close>), the per-table settings \<open>cloudsync_table_settings\<close>, the list of known schema
  hashes, and the conversions between settings and integers (\<open>snprintf\<close> with \<open>%lld\<close>,
  \<open>strtol\<close> with base 0).
\<close>

section \<open>Integers as text\<close>

definition digit :: "nat \<Rightarrow> char" where
  "digit d = char_of (d + 48)"

function show_nat :: "nat \<Rightarrow> string" where
  "show_nat n = (if n < 10 then [digit n] else show_nat (n div 10) @ [digit (n mod 10)])"
  by auto
termination by (relation "measure id") auto

declare show_nat.simps [simp del]

text \<open>\<open>snprintf(buf, sizeof(buf), "%lld", n)\<close>; 256 bytes are enough for every 64-bit number.\<close>

definition show_int :: "int \<Rightarrow> string" where
  "show_int n = (if n < 0 then CHR ''-'' # show_nat (nat (- n)) else show_nat (nat n))"

definition digit_val :: "char \<Rightarrow> nat option" where
  "digit_val c = (let n = (of_char c :: nat) in
     if 48 \<le> n \<and> n \<le> 57 then Some (n - 48)
     else if 97 \<le> n \<and> n \<le> 122 then Some (n - 87)
     else if 65 \<le> n \<and> n \<le> 90 then Some (n - 55) else None)"

text \<open>The digits of a number in some base, as far as they go.\<close>

fun read_digits :: "nat \<Rightarrow> nat \<Rightarrow> string \<Rightarrow> nat" where
  "read_digits b acc [] = acc"
| "read_digits b acc (c # cs) =
     (case digit_val c of
        Some d \<Rightarrow> if d < b then read_digits b (acc * b + d) cs else acc
      | None \<Rightarrow> acc)"

definition is_blank :: "char \<Rightarrow> bool" where
  "is_blank c = (let n = (of_char c :: nat) in n = 32 \<or> (9 \<le> n \<and> n \<le> 13))"

text \<open>Base 0: a prefix \<open>0x\<close> means hexadecimal, a leading \<open>0\<close> octal, otherwise decimal.\<close>

definition strtol_magnitude :: "string \<Rightarrow> nat" where
  "strtol_magnitude cs =
     (case cs of
        c # x # h # rest \<Rightarrow>
          if c = CHR ''0'' \<and> (x = CHR ''x'' \<or> x = CHR ''X'') \<and> (case digit_val h of Some d \<Rightarrow> d < 16 | None \<Rightarrow> False)
          then read_digits 16 0 (h # rest)
          else if c = CHR ''0'' then read_digits 8 0 cs else read_digits 10 0 cs
      | c # _ \<Rightarrow> if c = CHR ''0'' then read_digits 8 0 cs else read_digits 10 0 cs
      | [] \<Rightarrow> 0)"

definition clamp_long :: "int \<Rightarrow> int" where
  "clamp_long n = max (- (2 ^ 63)) (min (2 ^ 63 - 1) n)"

definition strtol :: "string \<Rightarrow> int" where
  "strtol s =
     (let cs = dropWhile is_blank s
      in clamp_long
        (case cs of
           c # rest \<Rightarrow>
             if c = CHR ''-'' then - int (strtol_magnitude rest)
             else if c = CHR ''+'' then int (strtol_magnitude rest)
             else int (strtol_magnitude cs)
         | [] \<Rightarrow> 0))"

text \<open>The conversion \<open>(int)\<close> of a \<open>long\<close>: the low 32 bits.\<close>

definition c_int :: "int \<Rightarrow> int" where
  "c_int n = signed_take_bit 31 n"

lemma of_char_digit [simp]: "d < 10 \<Longrightarrow> (of_char (digit d) :: nat) = d + 48"
  by (simp add: digit_def)

lemma digit_val_digit [simp]: "d < 10 \<Longrightarrow> digit_val (digit d) = Some d"
  by (simp add: digit_val_def)

lemma read_digits_append_digit:
  assumes "\<forall>c \<in> set cs. \<exists>d < 10. c = digit d" "d < 10"
  shows "read_digits 10 acc (cs @ [digit d]) = read_digits 10 acc cs * 10 + d"
  using assms by (induction cs arbitrary: acc) auto

lemma show_nat_digits: "c \<in> set (show_nat n) \<Longrightarrow> \<exists>d < 10. c = digit d"
proof (induction n rule: show_nat.induct)
  case (1 n)
  then show ?case
    by (subst (asm) show_nat.simps) (auto split: if_splits intro: exI [of _ "n mod 10"])
qed

lemma read_show_nat: "read_digits 10 0 (show_nat n) = n"
proof (induction n rule: show_nat.induct)
  case (1 n)
  show ?case
  proof (cases "n < 10")
    case False
    then have "show_nat n = show_nat (n div 10) @ [digit (n mod 10)]" by (subst show_nat.simps) simp
    moreover have "\<forall>c \<in> set (show_nat (n div 10)). \<exists>d < 10. c = digit d" by (auto dest: show_nat_digits)
    ultimately show ?thesis using 1 [OF False] by (simp add: read_digits_append_digit)
  qed (subst show_nat.simps, simp)
qed

lemma show_nat_hd: "0 < n \<Longrightarrow> \<exists>d cs. show_nat n = digit d # cs \<and> 0 < d \<and> d < 10"
proof (induction n rule: show_nat.induct)
  case (1 n)
  show ?case
  proof (cases "n < 10")
    case True
    with 1 show ?thesis by (subst show_nat.simps) auto
  next
    case False
    then have "0 < n div 10" by simp
    with 1 False show ?thesis by (subst show_nat.simps) auto
  qed
qed

lemma of_char_literals [simp]:
  "(of_char (CHR ''0'') :: nat) = 48" "(of_char (CHR ''-'') :: nat) = 45" "(of_char (CHR ''+'') :: nat) = 43"
  by code_simp+

lemma digit_eq_iff: "d < 10 \<Longrightarrow> (digit d = c) = (of_char c = d + 48)"
  by (metis char_of_char digit_def of_char_digit)

lemma strtol_magnitude_show_nat: "strtol_magnitude (show_nat n) = n"
proof (cases "n = 0")
  case True
  have "show_nat 0 = [digit 0]" by (subst show_nat.simps) simp
  moreover have "digit 0 = CHR ''0''" by (simp add: digit_eq_iff)
  moreover have "digit_val (CHR ''0'') = Some 0" by (simp add: digit_val_def)
  ultimately show ?thesis using True by (simp add: strtol_magnitude_def)
next
  case False
  then obtain d cs where d: "show_nat n = digit d # cs" "0 < d" "d < 10"
    using show_nat_hd [of n] by auto
  then have "digit d \<noteq> CHR ''0''" by (simp add: digit_eq_iff)
  then have "strtol_magnitude (digit d # cs) = read_digits 10 0 (digit d # cs)"
    by (simp add: strtol_magnitude_def split: list.splits)
  then show ?thesis using read_show_nat [of n] d(1) by simp
qed

lemma show_nat_not_blank: "\<exists>d cs. show_nat n = digit d # cs \<and> d < 10"
proof (cases "n = 0")
  case True
  then show ?thesis by (subst show_nat.simps) auto
next
  case False
  then show ?thesis using show_nat_hd [of n] by auto
qed

text \<open>A number written with \<open>%lld\<close> reads back as itself.\<close>

lemma strtol_show_int: "strtol (show_int n) = clamp_long n"
proof -
  have blank: "\<not> is_blank (CHR ''-'')" "\<And>d. d < 10 \<Longrightarrow> \<not> is_blank (digit d)"
    by (simp_all add: is_blank_def Let_def)
  show ?thesis
  proof (cases "n < 0")
    case True
    then show ?thesis
      using blank by (simp add: strtol_def show_int_def Let_def strtol_magnitude_show_nat)
  next
    case False
    obtain d cs where d: "show_nat (nat n) = digit d # cs" "d < 10" using show_nat_not_blank by blast
    then have "digit d \<noteq> CHR ''-''" "digit d \<noteq> CHR ''+''" by (simp_all add: digit_eq_iff)
    with d blank False show ?thesis
      using strtol_magnitude_show_nat [of "nat n"] by (simp add: strtol_def show_int_def Let_def)
  qed
qed

lemma clamp_long_id [simp]: "- (2 ^ 63) \<le> n \<Longrightarrow> n < 2 ^ 63 \<Longrightarrow> clamp_long n = n"
  by (simp add: clamp_long_def)

lemma c_int_id [simp]: "- (2 ^ 31) \<le> n \<Longrightarrow> n < 2 ^ 31 \<Longrightarrow> c_int n = n"
  by (simp add: c_int_def signed_take_bit_int_eq_self)

section \<open>The contract of a settings table\<close>

text \<open>
  What the callers rely on: a value reads back under every spelling of its key, and writing or
  deleting one key leaves every other key alone.
\<close>

locale settings_store =
  fixes same_key :: "'k \<Rightarrow> 'k \<Rightarrow> bool"
    and get :: "'k \<Rightarrow> 's \<Rightarrow> 'v option"
    and put :: "'k \<Rightarrow> 'v \<Rightarrow> 's \<Rightarrow> 's"
    and del :: "'k \<Rightarrow> 's \<Rightarrow> 's"
  assumes get_put: "get k' (put k v s) = (if same_key k k' then Some v else get k' s)"
    and get_del: "get k' (del k s) = (if same_key k k' then None else get k' s)"
    and key_refl: "same_key k k"
begin

lemma get_put_same [simp]: "get k (put k v s) = Some v"
  by (simp add: get_put key_refl)

lemma get_del_same [simp]: "get k (del k s) = None"
  by (simp add: get_del key_refl)

lemma put_put_get: "get k (put k1 v (put k1 w s)) = get k (put k1 v s)"
  by (simp add: get_put)

text \<open>Writing a list of settings: the last one for a key counts.\<close>

lemma fold_put_other:
  "\<forall>(k, v) \<in> set kvs. \<not> same_key k k' \<Longrightarrow> get k' (fold (\<lambda>(k, v). put k v) kvs s) = get k' s"
  by (induction kvs arbitrary: s) (auto simp: get_put)

lemma fold_put_last:
  "get k (fold (\<lambda>(k, v). put k v) (kvs @ [(k, v)]) s) = Some v"
  by simp

end

section \<open>Tables with a key up to an equivalence\<close>

fun assoc_get :: "('k \<Rightarrow> 'k \<Rightarrow> bool) \<Rightarrow> 'k \<Rightarrow> ('k \<times> 'v) list \<Rightarrow> 'v option" where
  "assoc_get eqk k [] = None"
| "assoc_get eqk k ((k', v) # xs) = (if eqk k k' then Some v else assoc_get eqk k xs)"

definition assoc_del :: "('k \<Rightarrow> 'k \<Rightarrow> bool) \<Rightarrow> 'k \<Rightarrow> ('k \<times> 'v) list \<Rightarrow> ('k \<times> 'v) list" where
  "assoc_del eqk k xs = filter (\<lambda>(k', _). \<not> eqk k k') xs"

text \<open>\<open>REPLACE INTO\<close>: a row with the same key is deleted first.\<close>

definition assoc_put :: "('k \<Rightarrow> 'k \<Rightarrow> bool) \<Rightarrow> 'k \<Rightarrow> 'v \<Rightarrow> ('k \<times> 'v) list \<Rightarrow> ('k \<times> 'v) list" where
  "assoc_put eqk k v xs = (k, v) # assoc_del eqk k xs"

lemma assoc_get_del:
  assumes "equivp eqk"
  shows "assoc_get eqk k' (assoc_del eqk k xs) = (if eqk k k' then None else assoc_get eqk k' xs)"
proof (induction xs)
  case (Cons p xs)
  obtain a v where p: "p = (a, v)" by fastforce
  show ?case
  proof (cases "eqk k a")
    case True
    then have "eqk k' a = eqk k k'" using assms unfolding equivp_def by metis
    with True Cons.IH p show ?thesis by (simp add: assoc_del_def)
  next
    case False
    then have "eqk k k' \<Longrightarrow> \<not> eqk k' a" using assms unfolding equivp_def by metis
    with False Cons.IH p show ?thesis by (simp add: assoc_del_def)
  qed
qed (simp add: assoc_del_def)

lemma assoc_get_put:
  assumes "equivp eqk"
  shows "assoc_get eqk k' (assoc_put eqk k v xs) = (if eqk k k' then Some v else assoc_get eqk k' xs)"
proof -
  have "eqk k' k = eqk k k'" using assms unfolding equivp_def by metis
  then show ?thesis using assoc_get_del [OF assms, of k' k xs] by (simp add: assoc_put_def)
qed

text \<open>Keys of the two tables.\<close>

definition same_table_key :: "string \<times> string \<Rightarrow> string \<times> string \<Rightarrow> bool" where
  "same_table_key a b \<longleftrightarrow> str_case_eq (fst a) (fst b) \<and> snd a = snd b"

lemma equivp_str_case_eq: "equivp str_case_eq"
  by (intro equivpI reflpI sympI transpI) (simp_all add: str_case_eq_def)

lemma equivp_same_table_key: "equivp same_table_key"
  by (intro equivpI reflpI sympI transpI) (simp_all add: same_table_key_def str_case_eq_def)

interpretation settings: settings_store str_case_eq "assoc_get str_case_eq" "assoc_put str_case_eq" "assoc_del str_case_eq"
  by unfold_locales (simp_all add: assoc_get_put assoc_get_del equivp_str_case_eq)

interpretation table_settings: settings_store same_table_key "assoc_get same_table_key"
    "assoc_put same_table_key" "assoc_del same_table_key"
  by unfold_locales
    (simp_all add: assoc_get_put assoc_get_del equivp_same_table_key, simp add: same_table_key_def)

section \<open>Running one statement\<close>

text \<open>
  \<open>dbutils_exec\<close>: \<open>legal\<close> says whether the SQL text compiles, \<open>cnt\<close> is the number of bound values,
  \<open>stmt\<close> the effect of the statement with its first row (\<open>SQLITE_ROW\<close> and the columns, or
  \<open>SQLITE_DONE\<close>), \<open>expected_types\<close> the types the caller asks for; a caller that asks for none
  writes. The result lists one entry for each column read, \<open>None\<close> for NULL. A BLOB of
  length 0 reads as a NULL pointer.
\<close>

fun exec_columns :: "int list \<Rightarrow> sqlval list \<Rightarrow> int \<times> sqlval option list" where
  "exec_columns [] row = (SQLITE_OK, [])"
| "exec_columns (ty # tys) row =
     (let v = (case row of [] \<Rightarrow> VNull | v # _ \<Rightarrow> v)
      in if value_type v = 5 then (case exec_columns tys (tl row) of (rc, vs) \<Rightarrow> (rc, None # vs))
         else if value_type v \<noteq> ty then (SQLITE_ERROR, [])
         else (case exec_columns tys (tl row) of (rc, vs) \<Rightarrow> (rc, Some v # vs)))"

definition dbutils_exec ::
  "bool \<Rightarrow> nat \<Rightarrow> (state \<Rightarrow> (int \<times> sqlval list) \<times> state) \<Rightarrow> int list \<Rightarrow> state \<Rightarrow> (int \<times> sqlval option list) \<times> state" where
  "dbutils_exec legal cnt stmt expected_types s =
     (case prepare legal s of (rc, s1) \<Rightarrow>
        if rc \<noteq> SQLITE_OK then ((rc, []), s1)
        else case binds cnt s1 of (rc, s2) \<Rightarrow>
          if rc \<noteq> SQLITE_OK then ((rc, []), s2)
          else case next_fault s2 of (rc, s3) \<Rightarrow>
            if rc \<noteq> SQLITE_OK then ((rc, []), s3)
            else case stmt s3 of ((rc, row), s4) \<Rightarrow>
              if rc = SQLITE_DONE then ((SQLITE_OK, []), s4)
              else if rc \<noteq> SQLITE_ROW \<or> expected_types = [] then ((rc, []), s4)
              else (exec_columns expected_types row, s4))"

text \<open>A writing statement: \<open>eff\<close> is its effect on the database.\<close>

definition dbutils_write :: "bool \<Rightarrow> nat \<Rightarrow> (database \<Rightarrow> database) \<Rightarrow> state \<Rightarrow> int \<times> state" where
  "dbutils_write legal cnt eff s =
     (case dbutils_exec legal cnt (\<lambda>s. ((SQLITE_DONE, []), s\<lparr>db := eff (db s)\<rparr>)) [] s of
        ((rc, _), s') \<Rightarrow> (rc, s'))"

text \<open>Reading statements: \<open>query\<close> gives the first row, if there is one.\<close>

definition select :: "bool \<Rightarrow> (database \<Rightarrow> sqlval list option) \<Rightarrow> int list \<Rightarrow> state \<Rightarrow> (int \<times> sqlval option list) \<times> state" where
  "select legal query types s =
     dbutils_exec legal 0
       (\<lambda>s. ((case query (db s) of None \<Rightarrow> (SQLITE_DONE, []) | Some row \<Rightarrow> (SQLITE_ROW, row)), s)) types s"

definition first_result :: "sqlval option list \<Rightarrow> sqlval option" where
  "first_result vs = (case vs of Some v # _ \<Rightarrow> Some v | _ \<Rightarrow> None)"

definition dbutils_int_select :: "bool \<Rightarrow> (database \<Rightarrow> sqlval list option) \<Rightarrow> state \<Rightarrow> int \<times> state" where
  "dbutils_int_select legal query s =
     (case select legal query [1] s of ((rc, vs), s') \<Rightarrow>
        (if rc = SQLITE_OK then (case first_result vs of Some (VInteger n) \<Rightarrow> sint n | _ \<Rightarrow> 0) else -1, s'))"

definition dbutils_text_select :: "bool \<Rightarrow> (database \<Rightarrow> sqlval list option) \<Rightarrow> state \<Rightarrow> byte list option \<times> state" where
  "dbutils_text_select legal query s =
     (case select legal query [3] s of ((rc, vs), s') \<Rightarrow>
        (case first_result vs of Some (VText bs) \<Rightarrow> Some bs | _ \<Rightarrow> None, s'))"

definition dbutils_blob_select :: "bool \<Rightarrow> (database \<Rightarrow> sqlval list option) \<Rightarrow> state \<Rightarrow> (byte list option \<times> int) \<times> state" where
  "dbutils_blob_select legal query s =
     (case select legal query [4] s of ((rc, vs), s') \<Rightarrow>
        ((case first_result vs of Some (VBlob bs) \<Rightarrow> (if bs = [] then None else Some bs) | _ \<Rightarrow> None, rc), s'))"

definition dbutils_blob_int_int_select ::
  "bool \<Rightarrow> (database \<Rightarrow> sqlval list option) \<Rightarrow> state \<Rightarrow> (int \<times> byte list option \<times> int \<times> int) \<times> state" where
  "dbutils_blob_int_int_select legal query s =
     (case select legal query [4, 1, 1] s of ((rc, vs), s') \<Rightarrow>
        let intv = (\<lambda>i. if i < length vs then (case vs ! i of Some (VInteger n) \<Rightarrow> sint n | _ \<Rightarrow> 0) else 0)
        in ((rc, case first_result vs of Some (VBlob bs) \<Rightarrow> (if bs = [] then None else Some bs) | _ \<Rightarrow> None, intv 1, intv 2), s'))"

section \<open>cloudsync\_settings\<close>

abbreviation (input) KEY_LIBVERSION :: string where "KEY_LIBVERSION \<equiv> ''version''"
abbreviation (input) KEY_SCHEMAVERSION :: string where "KEY_SCHEMAVERSION \<equiv> ''schemaversion''"
abbreviation (input) KEY_CHECK_DBVERSION :: string where "KEY_CHECK_DBVERSION \<equiv> ''check_dbversion''"
abbreviation (input) KEY_CHECK_SEQ :: string where "KEY_CHECK_SEQ \<equiv> ''check_seq''"
abbreviation (input) KEY_SEND_DBVERSION :: string where "KEY_SEND_DBVERSION \<equiv> ''send_dbversion''"
abbreviation (input) KEY_SEND_SEQ :: string where "KEY_SEND_SEQ \<equiv> ''send_seq''"
abbreviation (input) KEY_DEBUG :: string where "KEY_DEBUG \<equiv> ''debug''"

text \<open>A setting as any reader sees it.\<close>

definition setting :: "string \<Rightarrow> database \<Rightarrow> string option" where
  "setting key d = (case d_settings d of None \<Rightarrow> None | Some t \<Rightarrow> assoc_get str_case_eq key t)"

text \<open>
  \<open>dbutils_settings_get_value\<close> copies the value into the caller's buffer, or into a new one when it
  does not fit (\<open>alloc\<close>: the allocator's answer). Without a value, and after an error, the
  caller's buffer is returned as it is.
\<close>

definition dbutils_settings_get_value ::
  "string \<Rightarrow> string option \<Rightarrow> nat \<Rightarrow> bool \<Rightarrow> state \<Rightarrow> string option \<times> state" where
  "dbutils_settings_get_value key buffer blen alloc s =
     (case prepare (d_settings (db s) \<noteq> None) s of (rc, s1) \<Rightarrow>
        if rc \<noteq> SQLITE_OK then (buffer, s1)
        else case binds 2 s1 of (rc, s2) \<Rightarrow>
          if rc \<noteq> SQLITE_OK then (buffer, s2)
          else case setting key (db s2) of
            None \<Rightarrow> (buffer, s2)
          | Some v \<Rightarrow>
            if length v + 1 > (if buffer = None then 0 else blen)
            then (if alloc then Some v else None, s2) else (Some v, s2))"

text \<open>A change of two keys is copied into the context; \<open>strtol(NULL)\<close> is undefined.\<close>

definition cloudsync_sync_key :: "string \<Rightarrow> string option \<Rightarrow> state \<Rightarrow> state" where
  "cloudsync_sync_key key v s =
     (if key = KEY_SCHEMAVERSION
      then (case v of None \<Rightarrow> s\<lparr>ub := True\<rparr> | Some x \<Rightarrow> s\<lparr>c_schema_version := c_int (strtol x)\<rparr>)
      else if key = KEY_DEBUG
      then s\<lparr>c_debug := (case v of Some (c # _) \<Rightarrow> c \<noteq> CHR ''0'' | _ \<Rightarrow> False)\<rparr>
      else s)"

definition replace_setting :: "string \<Rightarrow> string \<Rightarrow> database \<Rightarrow> database" where
  "replace_setting key v d = d\<lparr>d_settings := map_option (assoc_put str_case_eq key v) (d_settings d)\<rparr>"

definition delete_setting :: "string \<Rightarrow> database \<Rightarrow> database" where
  "delete_setting key d = d\<lparr>d_settings := map_option (assoc_del str_case_eq key) (d_settings d)\<rparr>"

definition dbutils_settings_set_key_value :: "string \<Rightarrow> string option \<Rightarrow> state \<Rightarrow> int \<times> state" where
  "dbutils_settings_set_key_value key v s =
     (case (case v of
              Some x \<Rightarrow> dbutils_write (d_settings (db s) \<noteq> None) 2 (replace_setting key x) s
            | None \<Rightarrow> dbutils_write (d_settings (db s) \<noteq> None) 1 (delete_setting key) s) of
        (rc, s') \<Rightarrow> (rc, if rc = SQLITE_OK then cloudsync_sync_key key v s' else s'))"

definition dbutils_settings_get_int_value :: "string \<Rightarrow> state \<Rightarrow> int \<times> state" where
  "dbutils_settings_get_int_value key s =
     (case dbutils_settings_get_value key (Some []) 256 True s of
        (None, s') \<Rightarrow> (-1, s') | (Some v, s') \<Rightarrow> (c_int (strtol v), s'))"

text \<open>\<open>cloudsync_set\<close>: a NULL key is ignored.\<close>

definition cloudsync_set :: "string option \<Rightarrow> string option \<Rightarrow> state \<Rightarrow> state" where
  "cloudsync_set key v s =
     (case key of None \<Rightarrow> s | Some k \<Rightarrow> snd (dbutils_settings_set_key_value k v s))"

section \<open>Library versions\<close>

definition binary_comparison :: "int \<Rightarrow> int \<Rightarrow> int" where
  "binary_comparison x y = (if x = y then 0 else if x > y then 1 else -1)"

text \<open>One \<open>%d\<close> of \<open>sscanf\<close>: blanks, a sign, at least one digit.\<close>

definition is_digit :: "char \<Rightarrow> bool" where
  "is_digit c = (case digit_val c of Some d \<Rightarrow> d < 10 | None \<Rightarrow> False)"

definition scan_d :: "string \<Rightarrow> (int \<times> string) option" where
  "scan_d s =
     (let cs = dropWhile is_blank s;
          sign = (if cs \<noteq> [] \<and> hd cs = CHR ''-'' then -1 else 1);
          ds = (case cs of c # r \<Rightarrow> if c = CHR ''-'' \<or> c = CHR ''+'' then r else cs | [] \<Rightarrow> [])
      in if takeWhile is_digit ds = [] then None
         else Some (sign * int (read_digits 10 0 (takeWhile is_digit ds)), dropWhile is_digit ds))"

text \<open>A number written with \<open>%lld\<close> is read back whole.\<close>

lemma is_digit_digit [simp]: "d < 10 \<Longrightarrow> is_digit (digit d)"
  by (simp add: is_digit_def)

lemma scan_d_show_nat: "scan_d (show_nat n) = Some (int n, [])"
proof -
  have dig: "\<forall>c \<in> set (show_nat n). is_digit c"
    by (auto dest!: show_nat_digits)
  obtain d cs where d: "show_nat n = digit d # cs" "d < 10" using show_nat_not_blank by blast
  then have ne: "digit d \<noteq> CHR ''-''" "digit d \<noteq> CHR ''+''" "\<not> is_blank (digit d)"
    by (simp_all add: digit_eq_iff is_blank_def)
  have "takeWhile is_digit cs = cs" "dropWhile is_digit cs = []"
    using dig d by (simp_all add: takeWhile_eq_all_conv)
  then show ?thesis
    using d ne read_show_nat [of n] by (simp add: scan_d_def Let_def
      del: takeWhile_eq_all_conv dropWhile_eq_Nil_conv)
qed

definition scan_dot :: "string \<Rightarrow> string option" where
  "scan_dot s = (case s of c # r \<Rightarrow> if c = CHR ''.'' then Some r else None | [] \<Rightarrow> None)"

definition scan_version :: "string \<Rightarrow> (int \<times> int \<times> int) option" where
  "scan_version s =
     Option.bind (scan_d s) (\<lambda>(a, s1). Option.bind (scan_dot s1) (\<lambda>s2.
     Option.bind (scan_d s2) (\<lambda>(b, s3). Option.bind (scan_dot s3) (\<lambda>s4.
     Option.bind (scan_d s4) (\<lambda>(c, _). Some (a, b, c))))))"

text \<open>\<open>junk\<close> is what the uninitialised local buffer holds, and \<open>libversion\<close> the macro
  \<open>CLOUDSYNC_VERSION\<close>.\<close>

definition dbutils_settings_check_version :: "string \<Rightarrow> string \<Rightarrow> state \<Rightarrow> int \<times> state" where
  "dbutils_settings_check_version libversion junk s =
     (case dbutils_settings_get_value KEY_LIBVERSION (Some junk) 256 True s of
        (None, s') \<Rightarrow> (-666, s')
      | (Some buffer, s') \<Rightarrow>
        (case (scan_version buffer, scan_version libversion) of
           (Some (major1, minor1, patch1), Some (major2, minor2, patch2)) \<Rightarrow>
             let res = binary_comparison major1 major2 in
             if res = 0 then
               (let res = binary_comparison minor1 minor2 in
                if res = 0 then (binary_comparison patch1 patch2, s') else (res, s'))
             else (res, s')
         | _ \<Rightarrow> (-666, s')))"

section \<open>cloudsync\_table\_settings\<close>

text \<open>
  The primary key of the table is (tbl\_name, key); a row also holds the column name and the value.
\<close>

definition table_setting :: "string \<Rightarrow> string \<Rightarrow> string \<Rightarrow> database \<Rightarrow> string option" where
  "table_setting tbl col key d =
     (case d_table_settings d of None \<Rightarrow> None
      | Some t \<Rightarrow> (case assoc_get same_table_key (tbl, key) t of
          None \<Rightarrow> None | Some (c, v) \<Rightarrow> if str_case_eq c col then Some v else None))"

definition dbutils_table_settings_get_value ::
  "string \<Rightarrow> string option \<Rightarrow> string \<Rightarrow> string option \<Rightarrow> nat \<Rightarrow> bool \<Rightarrow> state \<Rightarrow> string option \<times> state" where
  "dbutils_table_settings_get_value tbl col key buffer blen alloc s =
     (case prepare (d_table_settings (db s) \<noteq> None) s of (rc, s1) \<Rightarrow>
        if rc \<noteq> SQLITE_OK then (buffer, s1)
        else case binds 4 s1 of (rc, s2) \<Rightarrow>
          if rc \<noteq> SQLITE_OK then (buffer, s2)
          else case table_setting tbl (case col of None \<Rightarrow> ''*'' | Some c \<Rightarrow> c) key (db s2) of
            None \<Rightarrow> (buffer, s2)
          | Some v \<Rightarrow>
            if length v + 1 > (if buffer = None then 0 else blen)
            then (if alloc then Some v else None, s2) else (Some v, s2))"

definition map_table_settings ::
  "(((string \<times> string) \<times> (string \<times> string)) list \<Rightarrow> ((string \<times> string) \<times> (string \<times> string)) list) \<Rightarrow> database \<Rightarrow> database" where
  "map_table_settings f d = d\<lparr>d_table_settings := map_option f (d_table_settings d)\<rparr>"

definition dbutils_table_settings_set_key_value ::
  "string option \<Rightarrow> string option \<Rightarrow> string option \<Rightarrow> string option \<Rightarrow> state \<Rightarrow> int \<times> state" where
  "dbutils_table_settings_set_key_value tbl col key v s =
     (let legal = (d_table_settings (db s) \<noteq> None); c = (case col of None \<Rightarrow> ''*'' | Some c \<Rightarrow> c)
      in case tbl of None \<Rightarrow> (SQLITE_ERROR, s)
         | Some t \<Rightarrow>
           (case key of
              None \<Rightarrow> dbutils_write legal 1
                (map_table_settings (filter (\<lambda>((t', _), _). \<not> str_case_eq t t'))) s
            | Some k \<Rightarrow>
              (case v of
                 Some x \<Rightarrow> dbutils_write legal 4
                   (map_table_settings (assoc_put same_table_key (t, k) (c, x))) s
               | None \<Rightarrow> dbutils_write legal 3
                   (map_table_settings (filter (\<lambda>((t', k'), (c', _)).
                      \<not> (str_case_eq t t' \<and> k = k' \<and> str_case_eq c c')))) s)))"

definition cloudsync_set_column where
  "cloudsync_set_column tbl col key v s = snd (dbutils_table_settings_set_key_value tbl col key v s)"

definition cloudsync_set_table where
  "cloudsync_set_table tbl key v s = snd (dbutils_table_settings_set_key_value tbl (Some ''*'') key v s)"

definition dbutils_table_settings_count_tables :: "state \<Rightarrow> int \<times> state" where
  "dbutils_table_settings_count_tables s =
     dbutils_int_select (d_table_settings (db s) \<noteq> None)
       (\<lambda>d. Some [VInteger (word_of_nat (length (filter (\<lambda>((_, k), _). k = ''algo'') (the (d_table_settings d)))))]) s"

text \<open>\<open>junk\<close> is the uninitialised buffer of 512 bytes.\<close>

definition dbutils_table_settings_get_algo :: "string \<Rightarrow> string \<Rightarrow> state \<Rightarrow> table_algo \<times> state" where
  "dbutils_table_settings_get_algo junk tbl s =
     (case dbutils_table_settings_get_value tbl (Some ''*'') ''algo'' (Some junk) 512 True s of
        (None, s') \<Rightarrow> (table_algo_none, s') | (Some v, s') \<Rightarrow> (crdt_algo_from_name (Some v), s'))"

definition dbutils_is_star_table :: "string option \<Rightarrow> bool" where
  "dbutils_is_star_table tbl = (case tbl of Some t \<Rightarrow> t = ''*'' | None \<Rightarrow> False)"

section \<open>What the statements keep\<close>

context frame
begin

lemma case_result_keeps [keeps]:
  fixes r :: "int \<times> 'a list"
  shows "(\<And>a b. P (snd (f a b))) \<Longrightarrow> P (snd (case_prod f r))"
  by (cases r) simp

lemma dbutils_exec_keeps [keeps]:
  "P s \<Longrightarrow> (\<And>s. P s \<Longrightarrow> P (snd (stmt s))) \<Longrightarrow> P (snd (dbutils_exec legal n stmt types s))"
  unfolding dbutils_exec_def by (intro keeps)

lemma select_keeps [keeps]: "P s \<Longrightarrow> P (snd (select legal q types s))"
  unfolding select_def by (intro keeps)

lemma int_select_keeps [keeps]: "P s \<Longrightarrow> P (snd (dbutils_int_select legal q s))"
  unfolding dbutils_int_select_def by (intro keeps)

lemma text_select_keeps [keeps]: "P s \<Longrightarrow> P (snd (dbutils_text_select legal q s))"
  unfolding dbutils_text_select_def by (intro keeps)

lemma blob_select_keeps [keeps]: "P s \<Longrightarrow> P (snd (dbutils_blob_select legal q s))"
  unfolding dbutils_blob_select_def by (intro keeps)

lemma settings_get_value_keeps [keeps]: "P s \<Longrightarrow> P (snd (dbutils_settings_get_value k b n a s))"
  unfolding dbutils_settings_get_value_def by (intro keeps)

lemma settings_get_int_value_keeps [keeps]: "P s \<Longrightarrow> P (snd (dbutils_settings_get_int_value k s))"
  unfolding dbutils_settings_get_int_value_def by (intro keeps)

lemma table_settings_get_value_keeps [keeps]:
  "P s \<Longrightarrow> P (snd (dbutils_table_settings_get_value t c k b n a s))"
  unfolding dbutils_table_settings_get_value_def by (intro keeps)

lemma write_keeps [keeps]:
  "P s \<Longrightarrow> (\<And>s. P s \<Longrightarrow> P (s\<lparr>db := f (db s)\<rparr>)) \<Longrightarrow> P (snd (dbutils_write legal n f s))"
  unfolding dbutils_write_def by (intro keeps)

end

end
