(* ===== verification/Tables.thy ===== *)
theory Tables
  imports Settings
begin

text \<open>
  The in-memory registry of augmented tables (src/src/cloudsync.c: \<open>table_create\<close>,
  \<open>table_lookup\<close>, \<open>table_add_to_context\<close>, \<open>table_remove\<close>), the functions that switch a table on
  and off, and \<open>cloudsync_is_sync\<close>, which every trigger asks before it records a change. The
  invariant \<open>registry_ok\<close> says that no slot behind \<open>tables_count\<close> is in use, that names are stored
  in lower case and that no name occurs twice.
\<close>

section \<open>Slots\<close>

definition slot_name :: "string \<Rightarrow> table_ctx option \<Rightarrow> bool" where
  "slot_name name slot = (case slot of Some t \<Rightarrow> str_case_eq (t_name t) name | None \<Rightarrow> False)"

definition table_lookup :: "string \<Rightarrow> state \<Rightarrow> nat option" where
  "table_lookup name s = List.find (\<lambda>i. slot_name name (c_tables s ! i)) [0..<c_tables_count s]"

text \<open>The context a slot holds, and a write to it.\<close>

definition tbl :: "state \<Rightarrow> nat \<Rightarrow> table_ctx" where
  "tbl s i = the (c_tables s ! i)"

definition upd_tbl :: "nat \<Rightarrow> (table_ctx \<Rightarrow> table_ctx) \<Rightarrow> state \<Rightarrow> state" where
  "upd_tbl i f s = s\<lparr>c_tables := (c_tables s)[i := map_option f (c_tables s ! i)]\<rparr>"

definition table_column_lookup :: "table_ctx \<Rightarrow> string \<Rightarrow> nat option" where
  "table_column_lookup t name = List.find (\<lambda>i. str_case_eq (t_cols t ! i) name) [0..<t_ncols t]"

definition table_remove :: "string \<Rightarrow> state \<Rightarrow> int \<times> state" where
  "table_remove name s =
     (case table_lookup name s of
        Some i \<Rightarrow> (int i, s\<lparr>c_tables := (c_tables s)[i := None]\<rparr>) | None \<Rightarrow> (-1, s))"

definition table_remove_from_context :: "nat \<Rightarrow> state \<Rightarrow> bool \<times> state" where
  "table_remove_from_context i s =
     (case table_remove (t_name (tbl s i)) s of (r, s') \<Rightarrow> (r \<noteq> -1, s'))"

definition table_create :: "string \<Rightarrow> table_algo \<Rightarrow> table_ctx" where
  "table_create name algo =
     \<lparr>t_algo = algo, t_name = lowercase name, t_cols = [], t_col_ids = [], t_npks = 0,
      t_enabled = True, t_pk_name = None\<rparr>"

section \<open>The schema of a table\<close>

text \<open>\<open>pragma_table_info\<close>: the columns with their \<open>cid\<close>; no rows for a table that does not exist.\<close>

definition user_table_of :: "string \<Rightarrow> database \<Rightarrow> user_table option" where
  "user_table_of name d = assoc_get str_case_eq name (d_users d)"

definition meta_of :: "string \<Rightarrow> database \<Rightarrow> meta_table option" where
  "meta_of name d = assoc_get str_case_eq name (d_meta d)"

definition table_info :: "string \<Rightarrow> database \<Rightarrow> (nat \<times> column) list" where
  "table_info name d =
     (case user_table_of name d of None \<Rightarrow> [] | Some u \<Rightarrow> List.enumerate 0 (u_columns u))"

definition pk_columns :: "string \<Rightarrow> database \<Rightarrow> (nat \<times> column) list" where
  "pk_columns name d = filter (\<lambda>(_, c). 0 < col_pk c) (table_info name d)"

definition value_columns :: "string \<Rightarrow> database \<Rightarrow> (nat \<times> column) list" where
  "value_columns name d = filter (\<lambda>(_, c). col_pk c = 0) (table_info name d)"

definition count_row :: "'a list \<Rightarrow> sqlval list option" where
  "count_row xs = Some [VInteger (word_of_nat (length xs))]"

section \<open>Adding a table\<close>

text \<open>
  \<open>table_add_stmts\<close> compiles twelve statements on the clock table and the statements on the real
  table, whose texts come from queries (two calls each) that give NULL when there is no column to
  put in.
\<close>

definition sql_text :: "bool \<Rightarrow> state \<Rightarrow> int \<times> state" where
  "sql_text nonnull s =
     (case dbutils_text_select True (\<lambda>d. Some [if nonnull then VText [] else VNull]) s of
        (Some _, s') \<Rightarrow> (SQLITE_OK, s') | (None, s') \<Rightarrow> (SQLITE_NOMEM, s'))"

fun prepare_many :: "nat \<Rightarrow> bool \<Rightarrow> state \<Rightarrow> int \<times> state" where
  "prepare_many 0 legal s = (SQLITE_OK, s)"
| "prepare_many (Suc n) legal s = and_then (prepare legal s) (prepare_many n legal)"

definition table_add_stmts :: "table_ctx \<Rightarrow> nat \<Rightarrow> state \<Rightarrow> int \<times> state" where
  "table_add_stmts t ncols s =
     (let d = db s; has_meta = (meta_of (t_name t) d \<noteq> None); has_pk = (pk_columns (t_name t) d \<noteq> []);
          has_cols = (value_columns (t_name t) d \<noteq> [])
      in and_then (prepare_many 12 has_meta s) (\<lambda>s.
         and_then (if ncols > 0 then and_then (sql_text (has_cols \<and> has_pk) s) (prepare True)
                   else (SQLITE_OK, s)) (\<lambda>s.
         and_then (sql_text has_pk s) (\<lambda>s. and_then (prepare True s) (\<lambda>s.
         and_then (sql_text has_pk s) (prepare True))))))"

text \<open>The callback for one column: two texts and two statements; any error ends the query.\<close>

definition table_add_to_context_cb :: "table_ctx \<Rightarrow> nat \<times> column \<Rightarrow> state \<Rightarrow> (table_ctx option) \<times> state" where
  "table_add_to_context_cb t col s =
     (case and_then (sql_text True s) (\<lambda>s. and_then (prepare True s) (\<lambda>s.
           and_then (sql_text True s) (prepare True))) of
        (rc, s') \<Rightarrow>
          (if rc = SQLITE_OK
           then Some (t\<lparr>t_col_ids := t_col_ids t @ [int (fst col)],
                        t_cols := t_cols t @ [lowercase (col_name (snd col))]\<rparr>)
           else None, s'))"

fun add_columns :: "table_ctx \<Rightarrow> (nat \<times> column) list \<Rightarrow> state \<Rightarrow> (table_ctx option) \<times> state" where
  "add_columns t [] s = (Some t, s)"
| "add_columns t (c # cs) s =
     (case table_add_to_context_cb t c s of
        (Some t', s') \<Rightarrow> add_columns t' cs s' | (None, s') \<Rightarrow> (None, s'))"

definition grow_tables :: "state \<Rightarrow> state" where
  "grow_tables s =
     (if length (c_tables s) \<le> c_tables_count s + 1
      then s\<lparr>c_tables := c_tables s @ replicate CLOUDSYNC_INIT_NTABLES None\<rparr> else s)"

text \<open>The first free slot takes the table; \<open>tables_count\<close> moves when that slot was behind it.\<close>

definition place_table :: "table_ctx \<Rightarrow> state \<Rightarrow> state" where
  "place_table t s =
     (case List.find (\<lambda>i. c_tables s ! i = None) [0..<length (c_tables s)] of
        None \<Rightarrow> s
      | Some i \<Rightarrow> s\<lparr>c_tables := (c_tables s)[i := Some t],
                     c_tables_count := (if int i > int (c_tables_count s) - 1
                                        then c_tables_count s + 1 else c_tables_count s)\<rparr>)"

text \<open>An error of \<open>sqlite3_exec\<close> other than the abort of the callback is not looked at: the table is
  then registered without columns.\<close>

definition table_add_to_context :: "table_algo \<Rightarrow> string \<Rightarrow> state \<Rightarrow> bool \<times> state" where
  "table_add_to_context algo name s =
     (if table_lookup name s \<noteq> None then (True, s)
      else
       let s = grow_tables s; t = table_create name algo in
       case dbutils_int_select True (\<lambda>d. count_row (pk_columns name d)) s of (npks, s) \<Rightarrow>
       if npks = -1 \<or> npks = 0 then (False, s)
       else case dbutils_int_select True (\<lambda>d. count_row (value_columns name d)) s of (ncols, s) \<Rightarrow>
       if ncols = -1 then (False, s)
       else
        let t = t\<lparr>t_npks := nat npks\<rparr> in
        case table_add_stmts t (nat ncols) s of (rc, s) \<Rightarrow>
        if rc \<noteq> SQLITE_OK then (False, s)
        else if ncols > 0 then
          (case next_fault s of (rc, s) \<Rightarrow>
           if rc = 4 then (False, s)
           else if rc \<noteq> SQLITE_OK then (True, place_table t s)
           else (case add_columns t (value_columns name (db s)) s of
                   (None, s) \<Rightarrow> (False, s) | (Some t, s) \<Rightarrow> (True, place_table t s)))
        else (True, place_table t s))"

section \<open>Switching tables on and off\<close>

definition cloudsync_enable_disable :: "string \<Rightarrow> bool \<Rightarrow> state \<Rightarrow> state" where
  "cloudsync_enable_disable name v s =
     (case table_lookup name s of None \<Rightarrow> s | Some i \<Rightarrow> upd_tbl i (t_enabled_update (\<lambda>_. v)) s)"

text \<open>The callback sees each table of the schema; the value comes through \<open>temp_bool\<close>.\<close>

definition cloudsync_enable_disable_all :: "bool \<Rightarrow> state \<Rightarrow> state" where
  "cloudsync_enable_disable_all v s =
     (case next_fault (s\<lparr>c_temp_bool := v\<rparr>) of (rc, s) \<Rightarrow>
        if rc \<noteq> SQLITE_OK then s
        else fold (\<lambda>name s. cloudsync_enable_disable name (c_temp_bool s) s)
               (map fst (d_users (db s)) @ map (\<lambda>(n, _). n @ ''_cloudsync'') (d_meta (db s))) s)"

definition cloudsync_enable :: "string \<Rightarrow> state \<Rightarrow> state" where
  "cloudsync_enable name s =
     (if dbutils_is_star_table (Some name) then cloudsync_enable_disable_all True s
      else cloudsync_enable_disable name True s)"

definition cloudsync_disable :: "string \<Rightarrow> state \<Rightarrow> state" where
  "cloudsync_disable name s =
     (if dbutils_is_star_table (Some name) then cloudsync_enable_disable_all False s
      else cloudsync_enable_disable name False s)"

definition cloudsync_is_enabled :: "string \<Rightarrow> state \<Rightarrow> int" where
  "cloudsync_is_enabled name s =
     (case table_lookup name s of Some i \<Rightarrow> if t_enabled (tbl s i) then 1 else 0 | None \<Rightarrow> 0)"

definition cloudsync_is_sync :: "string \<Rightarrow> state \<Rightarrow> int" where
  "cloudsync_is_sync name s =
     (if c_insync s then 1
      else case table_lookup name s of Some i \<Rightarrow> if t_enabled (tbl s i) then 0 else 1 | None \<Rightarrow> 0)"

text \<open>\<open>cloudsync_terminate\<close> empties the slots below \<open>tables_count\<close> (which it leaves), drops the
  statements and marks the site id as not loaded.\<close>

definition cloudsync_terminate :: "state \<Rightarrow> state" where
  "cloudsync_terminate s =
     s\<lparr>c_tables := replicate (c_tables_count s) None @ drop (c_tables_count s) (c_tables s),
       c_data_version_stmt := False, c_schema_version_stmt := False, c_getset_siteid_stmt := False,
       c_db_version_stmt := None, c_site_id := (c_site_id s)[0 := 0]\<rparr>"

section \<open>The registry invariant\<close>

definition registry_ok :: "state \<Rightarrow> bool" where
  "registry_ok s \<longleftrightarrow>
     c_tables_count s \<le> length (c_tables s) \<and>
     (\<forall>i < length (c_tables s). c_tables_count s \<le> i \<longrightarrow> c_tables s ! i = None) \<and>
     (\<forall>i j t u. i < c_tables_count s \<longrightarrow> j < c_tables_count s \<longrightarrow> c_tables s ! i = Some t \<longrightarrow>
        c_tables s ! j = Some u \<longrightarrow> str_case_eq (t_name t) (t_name u) \<longrightarrow> i = j) \<and>
     (\<forall>i t. i < c_tables_count s \<longrightarrow> c_tables s ! i = Some t \<longrightarrow> lowercase (t_name t) = t_name t)"

text \<open>The registry is a function of the two fields; a step that keeps both keeps everything below.\<close>

lemma table_lookup_cong:
  "c_tables s' = c_tables s \<Longrightarrow> c_tables_count s' = c_tables_count s \<Longrightarrow> table_lookup n s' = table_lookup n s"
  by (simp add: table_lookup_def)

lemma registry_ok_cong:
  "c_tables s' = c_tables s \<Longrightarrow> c_tables_count s' = c_tables_count s \<Longrightarrow> registry_ok s' = registry_ok s"
  by (simp add: registry_ok_def)

lemma tbl_cong: "c_tables s' = c_tables s \<Longrightarrow> tbl s' i = tbl s i"
  by (simp add: tbl_def)

lemma table_lookup_SomeD:
  "table_lookup n s = Some i \<Longrightarrow> i < c_tables_count s \<and> slot_name n (c_tables s ! i)"
  by (auto simp: table_lookup_def find_Some_iff)

lemma table_lookup_slot:
  assumes "table_lookup n s = Some i"
  shows "i < c_tables_count s" "c_tables s ! i = Some (tbl s i)" "str_case_eq (t_name (tbl s i)) n"
  using table_lookup_SomeD [OF assms] by (auto simp: slot_name_def tbl_def split: option.splits)

lemma table_lookup_None_iff:
  "table_lookup n s = None \<longleftrightarrow> (\<forall>i < c_tables_count s. \<not> slot_name n (c_tables s ! i))"
  by (auto simp: table_lookup_def find_None_iff)

lemma table_lookup_iff:
  assumes "registry_ok s"
  shows "table_lookup n s = Some i \<longleftrightarrow> i < c_tables_count s \<and> slot_name n (c_tables s ! i)"
proof
  assume i: "i < c_tables_count s \<and> slot_name n (c_tables s ! i)"
  then obtain j where j: "table_lookup n s = Some j"
    by (cases "table_lookup n s") (auto simp: table_lookup_None_iff)
  from i obtain t where t: "c_tables s ! i = Some t" "str_case_eq (t_name t) n"
    by (auto simp: slot_name_def split: option.splits)
  note j' = table_lookup_slot [OF j]
  have "str_case_eq (t_name t) (t_name (tbl s j))"
    using t(2) j'(3) by (simp add: str_case_eq_def)
  then have "i = j" using assms i t(1) j' unfolding registry_ok_def by blast
  with j show "table_lookup n s = Some i" by simp
qed (rule table_lookup_SomeD)

lemma table_lookup_case:
  "str_case_eq n m \<Longrightarrow> table_lookup n s = table_lookup m s"
  by (auto simp: table_lookup_def slot_name_def str_case_eq_def intro!: arg_cong2 [of _ _ _ _ List.find]
      split: option.splits)

text \<open>Removing a table: its name is gone, every other name finds the same slot.\<close>

lemma registry_ok_table_remove:
  assumes "registry_ok s"
  shows "registry_ok (snd (table_remove n s))"
proof (cases "table_lookup n s")
  case (Some i)
  then have "i < c_tables_count s" by (rule table_lookup_slot)
  with assms show ?thesis
    by (simp add: table_remove_def Some registry_ok_def nth_list_update split: if_splits)
qed (simp add: table_remove_def assms)

lemma table_lookup_removed:
  assumes "registry_ok s"
  shows "table_lookup n (snd (table_remove n s)) = None"
proof (cases "table_lookup n s")
  case (Some i)
  have "j < c_tables_count s \<Longrightarrow> j \<noteq> i \<Longrightarrow> \<not> slot_name n (c_tables s ! j)" for j
    using Some table_lookup_iff [OF assms] by (metis option.inject)
  moreover have "i < length (c_tables s)"
    using table_lookup_slot(1) [OF Some] assms by (simp add: registry_ok_def)
  ultimately show ?thesis
    by (auto simp: table_remove_def Some table_lookup_None_iff nth_list_update slot_name_def)
qed (simp add: table_remove_def)

lemma table_lookup_remove_other:
  assumes "registry_ok s" "\<not> str_case_eq n m"
  shows "table_lookup m (snd (table_remove n s)) = table_lookup m s"
proof (cases "table_lookup n s")
  case (Some i)
  have i: "\<not> slot_name m (c_tables s ! i)" "i < length (c_tables s)"
    using table_lookup_slot [OF Some] assms
    by (auto simp: slot_name_def str_case_eq_def registry_ok_def)
  have "slot_name m ((c_tables s)[i := None] ! j) = slot_name m (c_tables s ! j)" for j
    using i by (cases "j = i") (auto simp: slot_name_def)
  moreover have "snd (table_remove n s) = s\<lparr>c_tables := (c_tables s)[i := None]\<rparr>"
    by (simp add: table_remove_def Some)
  ultimately show ?thesis by (simp add: table_lookup_def)
qed (simp add: table_remove_def)

text \<open>Placing a table: the name is found, the others keep their slots.\<close>

lemma grow_tables_fields [simp]:
  "c_tables_count (grow_tables s) = c_tables_count s" "db (grow_tables s) = db s"
  "faults (grow_tables s) = faults s" "c_insync (grow_tables s) = c_insync s"
  "c_seq (grow_tables s) = c_seq s"
  by (simp_all add: grow_tables_def)

lemma grow_tables_lookup [simp]:
  "registry_ok s \<Longrightarrow> table_lookup n (grow_tables s) = table_lookup n s"
  unfolding table_lookup_def
  by (rule find_cong) (auto simp: grow_tables_def nth_append registry_ok_def)

lemma registry_ok_grow: "registry_ok s \<Longrightarrow> registry_ok (grow_tables s)"
  by (auto simp: registry_ok_def grow_tables_def nth_append)

text \<open>After growing there is a free slot at \<open>tables_count\<close> at the latest.\<close>

lemma grow_tables_room:
  "c_tables_count s \<le> length (c_tables s) \<Longrightarrow> c_tables_count s + 1 < length (c_tables (grow_tables s))"
  by (simp add: grow_tables_def)

lemma place_table_slot:
  assumes "registry_ok s" "c_tables_count s < length (c_tables s)"
  obtains i where "i \<le> c_tables_count s" "i < length (c_tables s)" "c_tables s ! i = None"
    "place_table t s = s\<lparr>c_tables := (c_tables s)[i := Some t],
       c_tables_count := max (c_tables_count s) (Suc i)\<rparr>"
proof -
  let ?P = "\<lambda>i. c_tables s ! i = None"
  have free: "?P (c_tables_count s)" using assms by (simp add: registry_ok_def)
  then obtain i where i: "List.find ?P [0..<length (c_tables s)] = Some i"
    using assms(2) by (cases "List.find ?P [0..<length (c_tables s)]") (auto simp: find_None_iff)
  then have j: "i < length (c_tables s)" "?P i" "\<forall>j < i. \<not> ?P j"
    by (auto simp: find_Some_iff)
  then have le: "i \<le> c_tables_count s" using free by (meson not_le)
  have "(if int i > int (c_tables_count s) - 1 then c_tables_count s + 1 else c_tables_count s)
      = max (c_tables_count s) (Suc i)"
    using le by auto
  then show ?thesis using that [OF le j(1,2)] by (simp add: place_table_def i)
qed

lemma registry_ok_place:
  assumes ok: "registry_ok s" and room: "c_tables_count s < length (c_tables s)"
    and new: "table_lookup (t_name t) s = None" and low: "lowercase (t_name t) = t_name t"
  shows "registry_ok (place_table t s)"
proof -
  obtain i where i: "i \<le> c_tables_count s" "i < length (c_tables s)" "c_tables s ! i = None"
    and place: "place_table t s = s\<lparr>c_tables := (c_tables s)[i := Some t],
       c_tables_count := max (c_tables_count s) (Suc i)\<rparr>"
    using place_table_slot [OF ok room] .
  have other: "\<not> str_case_eq (t_name u) (t_name t)" if "j < c_tables_count s" "c_tables s ! j = Some u" for j u
    using new that by (auto simp: table_lookup_None_iff slot_name_def)
  then have other': "\<not> str_case_eq (t_name t) (t_name u)" if "j < c_tables_count s" "c_tables s ! j = Some u" for j u
    using that str_case_eq_sym by metis
  have below: "j < c_tables_count s" if "j < max (c_tables_count s) (Suc i)" "c_tables s ! j = Some u" for j u
    using that i by (cases "j = i") auto
  have parts: "c_tables_count s \<le> length (c_tables s)"
    "\<And>j. j < length (c_tables s) \<Longrightarrow> c_tables_count s \<le> j \<Longrightarrow> c_tables s ! j = None"
    "\<And>j k u v. \<lbrakk> j < c_tables_count s; k < c_tables_count s; c_tables s ! j = Some u; c_tables s ! k = Some v;
       str_case_eq (t_name u) (t_name v) \<rbrakk> \<Longrightarrow> j = k"
    "\<And>j u. j < c_tables_count s \<Longrightarrow> c_tables s ! j = Some u \<Longrightarrow> lowercase (t_name u) = t_name u"
    using ok unfolding registry_ok_def by blast+
  show ?thesis
    unfolding place registry_ok_def
  proof (intro conjI allI impI)
    fix j k u v
    let ?s = "s\<lparr>c_tables := (c_tables s)[i := Some t], c_tables_count := max (c_tables_count s) (Suc i)\<rparr>"
    assume h: "j < c_tables_count ?s" "k < c_tables_count ?s" "c_tables ?s ! j = Some u" "c_tables ?s ! k = Some v"
      "str_case_eq (t_name u) (t_name v)"
    have slot: "(x = i \<and> w = t) \<or> (x \<noteq> i \<and> x < c_tables_count s \<and> c_tables s ! x = Some w)"
      if "x < c_tables_count ?s" "c_tables ?s ! x = Some w" for x w
      using that i(2) below [of x w] by (cases "x = i") simp_all
    show "j = k" using slot [OF h(1,3)] slot [OF h(2,4)] h(5) other other' parts(3) by blast
  next
    fix j u
    assume "j < c_tables_count (s\<lparr>c_tables := (c_tables s)[i := Some t], c_tables_count := max (c_tables_count s) (Suc i)\<rparr>)"
      "c_tables (s\<lparr>c_tables := (c_tables s)[i := Some t], c_tables_count := max (c_tables_count s) (Suc i)\<rparr>) ! j = Some u"
    then show "lowercase (t_name u) = t_name u"
      using i below parts(4) [of j u] low by (cases "j = i") simp_all
  qed (use i parts in \<open>auto simp: nth_list_update split: if_splits\<close>)
qed

lemma table_lookup_placed:
  assumes ok: "registry_ok s" and room: "c_tables_count s < length (c_tables s)"
    and new: "table_lookup (t_name t) s = None" and low: "lowercase (t_name t) = t_name t"
  shows "str_case_eq (t_name t) n \<Longrightarrow> \<exists>i. table_lookup n (place_table t s) = Some i \<and> tbl (place_table t s) i = t"
    and "\<not> str_case_eq (t_name t) n \<Longrightarrow> table_lookup n (place_table t s) = table_lookup n s"
proof -
  obtain i where i: "i \<le> c_tables_count s" "i < length (c_tables s)" "c_tables s ! i = None"
    and place: "place_table t s = s\<lparr>c_tables := (c_tables s)[i := Some t],
       c_tables_count := max (c_tables_count s) (Suc i)\<rparr>"
    using place_table_slot [OF ok room] .
  note ok' = registry_ok_place [OF ok room new low]
  { assume "str_case_eq (t_name t) n"
    then have "table_lookup n (place_table t s) = Some i"
      using table_lookup_iff [OF ok'] i by (simp add: place slot_name_def)
    moreover have "tbl (place_table t s) i = t" using i by (simp add: place tbl_def)
    ultimately show "\<exists>i. table_lookup n (place_table t s) = Some i \<and> tbl (place_table t s) i = t" by blast }
  assume n: "\<not> str_case_eq (t_name t) n"
  have "table_lookup n (place_table t s) = Some j \<longleftrightarrow> table_lookup n s = Some j" for j
    unfolding table_lookup_iff [OF ok'] table_lookup_iff [OF ok]
    using i n by (cases "j = i") (auto simp: place slot_name_def)
  then show "table_lookup n (place_table t s) = table_lookup n s"
    by (metis not_None_eq)
qed

section \<open>Adding and switching keep the registry\<close>

context frame
begin

lemma sql_text_keeps [keeps]: "P s \<Longrightarrow> P (snd (sql_text b s))"
  unfolding sql_text_def by (intro keeps)

lemma prepare_many_keeps [keeps]: "P s \<Longrightarrow> P (snd (prepare_many n legal s))"
proof (induction n arbitrary: s)
  case (Suc n)
  then show ?case unfolding prepare_many.simps by (intro keeps)
qed simp

lemma table_add_stmts_keeps [keeps]: "P s \<Longrightarrow> P (snd (table_add_stmts t n s))"
  unfolding table_add_stmts_def by (intro keeps)

lemma table_add_to_context_cb_keeps [keeps]: "P s \<Longrightarrow> P (snd (table_add_to_context_cb t c s))"
  unfolding table_add_to_context_cb_def by (intro keeps)

lemma add_columns_keeps [keeps]: "P s \<Longrightarrow> P (snd (add_columns t cs s))"
proof (induction cs arbitrary: t s)
  case (Cons c cs)
  then show ?case unfolding add_columns.simps by (intro keeps)
qed simp

end

text \<open>The columns only change the column fields of the new context.\<close>

lemma table_add_to_context_cb_name:
  assumes "table_add_to_context_cb t c s = (Some t', s')"
  shows "t_name t' = t_name t \<and> t_algo t' = t_algo t \<and> t_npks t' = t_npks t"
proof -
  obtain rc s1 where "and_then (sql_text True s) (\<lambda>s. and_then (prepare True s) (\<lambda>s.
      and_then (sql_text True s) (prepare True))) = (rc, s1)" by fastforce
  with assms show ?thesis by (auto simp: table_add_to_context_cb_def split: if_splits)
qed

lemma add_columns_name:
  "add_columns t cs s = (Some t', s') \<Longrightarrow> t_name t' = t_name t \<and> t_algo t' = t_algo t \<and> t_npks t' = t_npks t"
proof (induction cs arbitrary: t s)
  case (Cons c cs)
  obtain ot s1 where c: "table_add_to_context_cb t c s = (ot, s1)" by fastforce
  with Cons.prems obtain t1 where t1: "ot = Some t1" "add_columns t1 cs s1 = (Some t', s')"
    by (cases ot) auto
  with Cons.IH [OF t1(2)] table_add_to_context_cb_name [of t c s t1 s1] c show ?case by simp
qed simp

text \<open>All that \<open>table_add_to_context\<close> does to the registry is to grow it and, when it succeeds for a
  new name, to place one context of that name.\<close>

lemma table_add_to_context_cases:
  assumes "table_add_to_context algo name s = (b, s')"
  obtains (known) "table_lookup name s \<noteq> None" "b" "s' = s"
    | (failed) "table_lookup name s = None" "\<not> b" "same (grow_tables s) s'"
    | (added) t s1 where "table_lookup name s = None" "b" "same (grow_tables s) s1"
        "s' = place_table t s1" "t_name t = lowercase name" "t_algo t = algo"
proof (cases "table_lookup name s = None")
  case False
  then have "(True, s) = (b, s')" using assms by (simp only: table_add_to_context_def simp_thms if_True)
  then show ?thesis using known [OF False] by simp
next
  case True
  let ?g = "grow_tables s"
  obtain npks s1 where s1: "dbutils_int_select True (\<lambda>d. count_row (pk_columns name d)) ?g = (npks, s1)"
    by fastforce
  obtain ncols s2 where s2: "dbutils_int_select True (\<lambda>d. count_row (value_columns name d)) s1 = (ncols, s2)"
    by fastforce
  define t where "t = table_create name algo\<lparr>t_npks := nat npks\<rparr>"
  obtain rc s3 where s3: "table_add_stmts t (nat ncols) s2 = (rc, s3)" by fastforce
  obtain rc' s4 where s4: "next_fault s3 = (rc', s4)" by fastforce
  obtain ot s5 where s5: "add_columns t (value_columns name (db s4)) s4 = (ot, s5)" by fastforce
  have g1: "same ?g s1" using same_frame.int_select_keeps [OF same_refl, of ?g] s1 by (metis snd_conv)
  have g2: "same ?g s2" using same_frame.int_select_keeps [OF g1] s2 by (metis snd_conv)
  have g3: "same ?g s3" using same_frame.table_add_stmts_keeps [OF g2] s3 by (metis snd_conv)
  have g4: "same ?g s4" using same_frame.next_fault_keeps [OF g3] s4 by (metis snd_conv)
  have g5: "same ?g s5" using same_frame.add_columns_keeps [OF g4] s5 by (metis snd_conv)
  have t: "t_name t = lowercase name" "t_algo t = algo" by (simp_all add: t_def table_create_def)
  have ot: "t_name t' = lowercase name" "t_algo t' = algo" if "ot = Some t'" for t'
    using add_columns_name [of t _ s4 t' s5] s5 that t by auto
  have res: "(if npks = -1 \<or> npks = 0 then (False, s1) else if ncols = -1 then (False, s2)
      else if rc \<noteq> 0 then (False, s3) else if ncols > 0 then
        if rc' = 4 then (False, s4) else if rc' \<noteq> 0 then (True, place_table t s4)
        else (case ot of None \<Rightarrow> (False, s5) | Some t \<Rightarrow> (True, place_table t s5))
      else (True, place_table t s3)) = (b, s')"
    using assms by (simp only: table_add_to_context_def Let_def True simp_thms if_False if_True s1 s2
        prod.case t_def [symmetric] s3 s4 s5)
  show ?thesis
  proof (cases "(npks = -1 \<or> npks = 0) \<or> ncols = -1 \<or> rc \<noteq> 0 \<or> (ncols > 0 \<and> (rc' = 4 \<or> (rc' = 0 \<and> ot = None)))")
    case True
    then have "\<not> b \<and> (s' = s1 \<or> s' = s2 \<or> s' = s3 \<or> s' = s4 \<or> s' = s5)"
      using res by (simp split: if_splits)
    with g1 g2 g3 g4 g5 show ?thesis using failed [OF \<open>table_lookup name s = None\<close>] by blast
  next
    case False
    show ?thesis
    proof (cases "ncols > 0")
      case pos: True
      show ?thesis
      proof (cases "rc' = 0")
        case True
        with False pos obtain t' where "ot = Some t'" by auto
        with True pos False res ot g5 show ?thesis
          using added [OF \<open>table_lookup name s = None\<close>, of s5 t'] by simp
      next
        case rc: False
        with pos False res t g4 show ?thesis
          using added [OF \<open>table_lookup name s = None\<close>, of s4 t] by simp
      qed
    next
      case neg: False
      with False res t g3 show ?thesis
        using added [OF \<open>table_lookup name s = None\<close>, of s3 t] by simp
    qed
  qed
qed

lemma table_add_registry:
  assumes ok: "registry_ok s" and add: "table_add_to_context algo name s = (b, s')"
  shows "registry_ok s'" "b \<Longrightarrow> \<exists>i. table_lookup name s' = Some i"
    "\<not> str_case_eq name other \<Longrightarrow> table_lookup other s' = table_lookup other s"
proof -
  have grown: "registry_ok s1 \<and> c_tables_count s1 < length (c_tables s1) \<and> table_lookup n s1 = table_lookup n s"
    if "same (grow_tables s) s1" for s1 n
    using same_fields [OF that] registry_ok_grow [OF ok] grow_tables_room [of s] grow_tables_lookup [OF ok, of n]
      ok registry_ok_cong [of s1 "grow_tables s"] table_lookup_cong [of s1 "grow_tables s" n]
    by (auto simp: registry_ok_def [of s])
  show "registry_ok s'" "b \<Longrightarrow> \<exists>i. table_lookup name s' = Some i"
    "\<not> str_case_eq name other \<Longrightarrow> table_lookup other s' = table_lookup other s"
    using add
  proof (atomize (full), cases rule: table_add_to_context_cases)
    case (added t s1)
    have new: "table_lookup (t_name t) s1 = None"
      using grown [OF added(3), of name] added(1,5) table_lookup_case [of "lowercase name" name s1] by simp
    have low: "lowercase (t_name t) = t_name t" by (simp add: added(5))
    have eq: "str_case_eq (t_name t) n = str_case_eq name n" for n by (simp add: added(5))
    note g = grown [OF added(3)]
    show "registry_ok s' \<and> (b \<longrightarrow> (\<exists>i. table_lookup name s' = Some i)) \<and>
        (\<not> str_case_eq name other \<longrightarrow> table_lookup other s' = table_lookup other s)"
      using registry_ok_place [OF _ _ new low] table_lookup_placed [OF _ _ new low] g eq
      unfolding added(4) by (metis str_case_eq_refl)
  qed (use ok grown in auto)
qed

text \<open>The flag \<open>enabled\<close> is no part of the invariant.\<close>

lemma slot_name_upd_tbl:
  assumes "\<And>t. t_name (f t) = t_name t"
  shows "slot_name n (c_tables (upd_tbl i f s) ! j) = slot_name n (c_tables s ! j)"
  using assms by (cases "i < length (c_tables s)")
    (auto simp: upd_tbl_def slot_name_def nth_list_update list_update_beyond split: option.splits)

lemma table_lookup_upd_tbl:
  "(\<And>t. t_name (f t) = t_name t) \<Longrightarrow> table_lookup n (upd_tbl i f s) = table_lookup n s"
  by (simp add: table_lookup_def slot_name_upd_tbl) (simp add: upd_tbl_def)

end
