(* ===== verification/Clock.thy ===== *)
theory Clock
  imports Tables
begin

text \<open>
  The database version and the sequence number (src/src/cloudsync.c, "STMT Utils" and "Database
  Version", the commit and rollback hooks and the SQL functions \<open>cloudsync_db_version\<close>,
  \<open>cloudsync_db_version_next\<close>, \<open>cloudsync_seq\<close>). \<open>c_db_version\<close> caches the greatest version
  recorded in the clock tables; \<open>c_pending_db_version\<close> is the version of the running transaction.
\<close>

section \<open>The version recorded in the database\<close>

definition meta_rows :: "string \<Rightarrow> database \<Rightarrow> meta_row list" where
  "meta_rows name d = (case meta_of name d of None \<Rightarrow> [] | Some t \<Rightarrow> map snd t)"

definition versions :: "string list \<Rightarrow> database \<Rightarrow> int list" where
  "versions names d = concat (map (\<lambda>n. map m_db_version (meta_rows n d)) names)"

fun list_max :: "int list \<Rightarrow> int option" where
  "list_max [] = None"
| "list_max (x # xs) = (case list_max xs of None \<Rightarrow> Some x | Some m \<Rightarrow> Some (max x m))"

text \<open>\<open>sqlite3_column_int64\<close> of a TEXT value: the number at its start.\<close>

definition text_int64 :: "string \<Rightarrow> int" where
  "text_int64 v = (case scan_d v of Some (n, _) \<Rightarrow> clamp_long n | None \<Rightarrow> 0)"

text \<open>
  The query of \<open>db_version_build_query\<close>, \<open>SELECT max(version) FROM (... UNION SELECT value FROM
  cloudsync_settings WHERE key = 'pre_alter_dbversion')\<close>. The column \<open>value\<close> is TEXT, and \<open>max()\<close>
  orders every TEXT after every INTEGER: when the setting exists it is the result.
\<close>

definition db_version_value :: "string list \<Rightarrow> database \<Rightarrow> int" where
  "db_version_value names d =
     (case setting ''pre_alter_dbversion'' d of
        Some v \<Rightarrow> text_int64 v
      | None \<Rightarrow> (case list_max (versions names d) of None \<Rightarrow> 0 | Some m \<Rightarrow> m))"

definition db_version_build_query :: "database \<Rightarrow> string list" where
  "db_version_build_query d = map fst (d_meta d)"

definition db_version_query_legal :: "string list \<Rightarrow> database \<Rightarrow> bool" where
  "db_version_query_legal names d \<longleftrightarrow>
     names \<noteq> [] \<and> d_settings d \<noteq> None \<and> (\<forall>n \<in> set names. meta_of n d \<noteq> None)"

section \<open>Statements of the context\<close>

datatype ctx_stmt = data_version_stmt | schema_version_stmt | db_version_stmt

datatype stmt_value = STMT_VALUE_ERROR | STMT_VALUE_UNCHANGED | STMT_VALUE_CHANGED

text \<open>A statement that was never prepared is a NULL pointer, which \<open>sqlite3_step\<close> refuses.\<close>

definition prepared :: "ctx_stmt \<Rightarrow> state \<Rightarrow> bool" where
  "prepared st s =
     (case st of data_version_stmt \<Rightarrow> c_data_version_stmt s
      | schema_version_stmt \<Rightarrow> c_schema_version_stmt s
      | db_version_stmt \<Rightarrow>
          (case c_db_version_stmt s of None \<Rightarrow> False | Some ns \<Rightarrow> db_version_query_legal ns (db s)))"

definition stmt_execute :: "ctx_stmt \<Rightarrow> state \<Rightarrow> stmt_value \<times> state" where
  "stmt_execute st s =
     (case next_fault s of (rc, s) \<Rightarrow>
        if rc \<noteq> SQLITE_OK \<or> \<not> prepared st s then (STMT_VALUE_ERROR, s)
        else (case st of
          data_version_stmt \<Rightarrow>
            (let version = d_pragma_data_version (db s) in
             if version \<noteq> c_data_version s then (STMT_VALUE_CHANGED, s\<lparr>c_data_version := version\<rparr>)
             else (STMT_VALUE_UNCHANGED, s))
        | schema_version_stmt \<Rightarrow>
            (let version = d_pragma_schema_version (db s) in
             if version > c_schema_version s then (STMT_VALUE_CHANGED, s\<lparr>c_schema_version := version\<rparr>)
             else (STMT_VALUE_UNCHANGED, s))
        | db_version_stmt \<Rightarrow>
            (STMT_VALUE_CHANGED, s\<lparr>c_db_version := db_version_value (the (c_db_version_stmt s)) (db s)\<rparr>)))"

text \<open>\<open>stmt_count\<close>: one bind, one step. \<open>row\<close> is what the step finds: the first column of a row
  (\<open>Inr (Some n)\<close>), no row (\<open>Inr None\<close>) or an error.\<close>

definition stmt_count :: "(int + int option) \<Rightarrow> state \<Rightarrow> int \<times> state" where
  "stmt_count row s =
     (case binds 2 s of (rc, s) \<Rightarrow>
        (if rc \<noteq> SQLITE_OK then -1
         else (case row of Inl _ \<Rightarrow> -1 | Inr None \<Rightarrow> 0 | Inr (Some n) \<Rightarrow> n), s))"

definition db_version_rebuild_stmt :: "state \<Rightarrow> int \<times> state" where
  "db_version_rebuild_stmt s =
     (case dbutils_table_settings_count_tables (s\<lparr>c_db_version_stmt := None\<rparr>) of (cnt, s) \<Rightarrow>
      if cnt = 0 then (SQLITE_OK, s)
      else if cnt = -1 then (SQLITE_ERROR, s)
      else case dbutils_text_select True (\<lambda>d. Some [VText []]) s of (sql, s) \<Rightarrow>
      if sql = None then (SQLITE_NOMEM, s)
      else
       let names = db_version_build_query (db s) in
       case prepare (db_version_query_legal names (db s)) s of (rc, s) \<Rightarrow>
       (rc, if rc = SQLITE_OK then s\<lparr>c_db_version_stmt := Some names\<rparr> else s))"

definition stmts_add_tocontext :: "state \<Rightarrow> int \<times> state" where
  "stmts_add_tocontext s =
     and_then (if c_data_version_stmt s then (SQLITE_OK, s)
               else case prepare True s of (rc, s) \<Rightarrow> (rc, s\<lparr>c_data_version_stmt := (rc = SQLITE_OK)\<rparr>)) (\<lambda>s.
     and_then (if c_schema_version_stmt s then (SQLITE_OK, s)
               else case prepare True s of (rc, s) \<Rightarrow> (rc, s\<lparr>c_schema_version_stmt := (rc = SQLITE_OK)\<rparr>)) (\<lambda>s.
     and_then (if c_getset_siteid_stmt s then (SQLITE_OK, s)
               else case prepare (d_site_ids (db s) \<noteq> None) s of (rc, s) \<Rightarrow>
                 (rc, s\<lparr>c_getset_siteid_stmt := (rc = SQLITE_OK)\<rparr>))
       db_version_rebuild_stmt))"

section \<open>The next version\<close>

definition db_version_rerun :: "state \<Rightarrow> int \<times> state" where
  "db_version_rerun s =
     (case stmt_execute schema_version_stmt s of (schema_changed, s) \<Rightarrow>
      if schema_changed = STMT_VALUE_ERROR then (-1, s)
      else case (if schema_changed = STMT_VALUE_CHANGED then db_version_rebuild_stmt s else (SQLITE_OK, s)) of (rc, s) \<Rightarrow>
      if rc \<noteq> SQLITE_OK then (-1, s)
      else case stmt_execute db_version_stmt s of (rc, s) \<Rightarrow>
      (if rc = STMT_VALUE_ERROR then -1 else 0, s))"

definition db_version_check_uptodate :: "state \<Rightarrow> int \<times> state" where
  "db_version_check_uptodate s =
     (case stmt_execute data_version_stmt s of (rc, s) \<Rightarrow>
      if rc = STMT_VALUE_ERROR then (-1, s)
      else if c_db_version s \<noteq> CLOUDSYNC_VALUE_NOTSET \<and> rc = STMT_VALUE_UNCHANGED then (0, s)
      else db_version_rerun s)"

definition db_version_next :: "int \<Rightarrow> state \<Rightarrow> int \<times> state" where
  "db_version_next merging_version s =
     (case db_version_check_uptodate s of (rc, s) \<Rightarrow>
      if rc \<noteq> SQLITE_OK then (-1, s)
      else
       let result = c_db_version s + 1;
           result = (if result < c_pending_db_version s then c_pending_db_version s else result);
           result = (if merging_version \<noteq> CLOUDSYNC_VALUE_NOTSET \<and> result < merging_version
                     then merging_version else result)
       in (result, s\<lparr>c_pending_db_version := result\<rparr>))"

definition BUMP_SEQ :: "state \<Rightarrow> int \<times> state" where
  "BUMP_SEQ s = (c_seq s, s\<lparr>c_seq := c_seq s + 1\<rparr>)"

definition cloudsync_commit_hook :: "state \<Rightarrow> state" where
  "cloudsync_commit_hook s =
     s\<lparr>c_db_version := c_pending_db_version s, c_pending_db_version := CLOUDSYNC_VALUE_NOTSET, c_seq := 0\<rparr>"

definition cloudsync_rollback_hook :: "state \<Rightarrow> state" where
  "cloudsync_rollback_hook s = s\<lparr>c_pending_db_version := CLOUDSYNC_VALUE_NOTSET, c_seq := 0\<rparr>"

section \<open>The SQL functions\<close>

text \<open>What a SQL function leaves as its result; an error carries its code.\<close>

datatype sql_result = ResNone | ResValue sqlval | ResInt int | ResError int

definition cloudsync_db_version :: "state \<Rightarrow> sql_result \<times> state" where
  "cloudsync_db_version s =
     (case db_version_check_uptodate s of (rc, s) \<Rightarrow>
        (if rc \<noteq> SQLITE_OK then ResError SQLITE_ERROR else ResInt (c_db_version s), s))"

definition cloudsync_db_version_next :: "int option \<Rightarrow> state \<Rightarrow> sql_result \<times> state" where
  "cloudsync_db_version_next arg s =
     (case db_version_next (case arg of Some v \<Rightarrow> v | None \<Rightarrow> CLOUDSYNC_VALUE_NOTSET) s of (r, s) \<Rightarrow>
        (if r = -1 then ResError SQLITE_ERROR else ResInt r, s))"

definition cloudsync_seq :: "state \<Rightarrow> sql_result \<times> state" where
  "cloudsync_seq s = (case BUMP_SEQ s of (n, s) \<Rightarrow> (ResInt n, s))"

definition cloudsync_siteid :: "state \<Rightarrow> sql_result" where
  "cloudsync_siteid s = ResValue (VBlob (c_site_id s))"

text \<open>\<open>cloudsync_context_create\<close>: all fields are zero, also \<open>pending_db_version\<close>.\<close>

definition cloudsync_context_create :: "database \<Rightarrow> int list \<Rightarrow> state" where
  "cloudsync_context_create d fs =
     \<lparr>c_site_id = replicate 16 0, c_insync = False, c_debug = False, c_merge_equal_values = False,
      c_temp_bool = False, c_data_version_stmt = False, c_schema_version_stmt = False,
      c_getset_siteid_stmt = False, c_db_version_stmt = None, c_data_version = 0, c_schema_version = 0,
      c_schema_hash = 0, c_db_version = 0, c_pending_db_version = 0, c_seq = 0,
      c_tables = replicate CLOUDSYNC_INIT_NTABLES None, c_tables_count = 0,
      db = d, faults = fs, savepoints = [], ub = False\<rparr>"

section \<open>What reading the clock keeps\<close>

text \<open>The clock functions write the cached versions and \<open>db_version_stmt\<close>; a fact about the other
  fields survives them.\<close>

locale clock_frame = frame +
  assumes keep_clock:
    "P s \<Longrightarrow> P (s\<lparr>c_data_version := v\<rparr>)" "P s \<Longrightarrow> P (s\<lparr>c_schema_version := v\<rparr>)"
    "P s \<Longrightarrow> P (s\<lparr>c_db_version := v\<rparr>)" "P s \<Longrightarrow> P (s\<lparr>c_db_version_stmt := st\<rparr>)"
begin

lemma stmt_execute_keeps [keeps]: "P s \<Longrightarrow> P (snd (stmt_execute st s))"
  unfolding stmt_execute_def by (cases st) (simp_all only: ctx_stmt.case, (intro keeps keep_clock; assumption)+)

lemma db_version_rebuild_stmt_keeps [keeps]: "P s \<Longrightarrow> P (snd (db_version_rebuild_stmt s))"
  unfolding db_version_rebuild_stmt_def dbutils_table_settings_count_tables_def
  by (intro keeps) (simp_all add: keep_clock)

lemma db_version_rerun_keeps [keeps]: "P s \<Longrightarrow> P (snd (db_version_rerun s))"
  unfolding db_version_rerun_def by (intro keeps)

lemma db_version_check_uptodate_keeps [keeps]: "P s \<Longrightarrow> P (snd (db_version_check_uptodate s))"
  unfolding db_version_check_uptodate_def by (intro keeps)

end

locale pending_frame = clock_frame +
  assumes keep_pending: "P s \<Longrightarrow> P (s\<lparr>c_pending_db_version := v\<rparr>)"
begin

lemma db_version_next_keeps [keeps]: "P s \<Longrightarrow> P (snd (db_version_next m s))"
  unfolding db_version_next_def by (intro keeps keep_pending)

end

text \<open>The fields outside the clock.\<close>

definition outside_clock where
  "outside_clock s = (db s, c_seq s, c_tables s, c_tables_count s, c_insync s, c_merge_equal_values s,
     c_site_id s, c_getset_siteid_stmt s, c_data_version_stmt s, savepoints s, ub s)"

interpretation reading: clock_frame "\<lambda>s. outside_clock s = x \<and> c_pending_db_version s = p" for x p
  by unfold_locales (simp_all add: outside_clock_def)

interpretation stamping: pending_frame "\<lambda>s. outside_clock s = x" for x
  by unfold_locales (simp_all add: outside_clock_def)

lemma check_uptodate_fields:
  assumes "db_version_check_uptodate s = (rc, s')"
  shows "db s' = db s" "c_pending_db_version s' = c_pending_db_version s" "c_seq s' = c_seq s"
    "outside_clock s' = outside_clock s"
  using reading.db_version_check_uptodate_keeps [of s "outside_clock s" "c_pending_db_version s"] assms
  by (simp_all add: outside_clock_def)

lemma db_version_next_fields:
  assumes "db_version_next m s = (r, s')"
  shows "db s' = db s" "c_seq s' = c_seq s" "c_tables s' = c_tables s" "c_tables_count s' = c_tables_count s"
    "c_insync s' = c_insync s" "c_merge_equal_values s' = c_merge_equal_values s" "ub s' = ub s"
    "outside_clock s' = outside_clock s" "c_getset_siteid_stmt s' = c_getset_siteid_stmt s"
  using stamping.db_version_next_keeps [of s "outside_clock s" m] assms
  by (simp_all add: outside_clock_def)

section \<open>What the clock functions return\<close>

text \<open>The cached version is there and no other connection has committed since it was read.\<close>

definition synced :: "state \<Rightarrow> bool" where
  "synced s \<longleftrightarrow> c_db_version s \<noteq> CLOUDSYNC_VALUE_NOTSET \<and> c_data_version s = d_pragma_data_version (db s)"

text \<open>A successful \<open>db_version_rerun\<close> has just read the database.\<close>

lemma stmt_execute_db_version:
  assumes "stmt_execute db_version_stmt s = (v, s')" "v \<noteq> STMT_VALUE_ERROR"
  obtains ns where "c_db_version_stmt s' = Some ns" "db_version_query_legal ns (db s')"
    "c_db_version s' = db_version_value ns (db s')" "c_data_version s' = c_data_version s"
proof -
  obtain rc s1 where f: "next_fault s = (rc, s1)" by fastforce
  then have "same s s1" using same_frame.next_fault_keeps [OF same_refl, of s] by simp
  moreover from assms f have "rc = 0" "prepared db_version_stmt s1"
    "s' = s1\<lparr>c_db_version := db_version_value (the (c_db_version_stmt s1)) (db s1)\<rparr>"
    by (auto simp: stmt_execute_def split: if_splits)
  ultimately show ?thesis
    using that same_fields [of s s1] by (auto simp: prepared_def split: option.splits)
qed

lemma stmt_execute_schema_version:
  assumes "stmt_execute schema_version_stmt s = (v, s')"
  shows "c_data_version s' = c_data_version s"
proof -
  obtain rc s1 where f: "next_fault s = (rc, s1)" by fastforce
  then have "same s s1" using same_frame.next_fault_keeps [OF same_refl, of s] by simp
  then have "c_data_version s1 = c_data_version s" by (rule same_fields)
  with assms f show ?thesis by (auto simp: stmt_execute_def Let_def split: if_splits)
qed

lemma stmt_execute_data_version:
  assumes "stmt_execute data_version_stmt s = (v, s')" "v \<noteq> STMT_VALUE_ERROR"
  shows "c_data_version s' = d_pragma_data_version (db s)" "c_db_version s' = c_db_version s"
    "v = STMT_VALUE_UNCHANGED \<longleftrightarrow> c_data_version s = d_pragma_data_version (db s)"
    "c_db_version_stmt s' = c_db_version_stmt s"
proof -
  obtain rc s1 where f: "next_fault s = (rc, s1)" by fastforce
  then have "same s s1" using same_frame.next_fault_keeps [OF same_refl, of s] by simp
  then have "c_data_version s1 = c_data_version s" "db s1 = db s" "c_db_version s1 = c_db_version s"
    "c_db_version_stmt s1 = c_db_version_stmt s"
    by (rule same_fields)+
  with assms f show "c_data_version s' = d_pragma_data_version (db s)" "c_db_version s' = c_db_version s"
    "v = STMT_VALUE_UNCHANGED \<longleftrightarrow> c_data_version s = d_pragma_data_version (db s)"
    "c_db_version_stmt s' = c_db_version_stmt s"
    by (auto simp: stmt_execute_def Let_def split: if_splits)
qed

interpretation data_version_kept: frame "\<lambda>s. c_data_version s = v" for v
  by unfold_locales simp

lemma rebuild_data_version:
  "db_version_rebuild_stmt s = (rc, s') \<Longrightarrow> c_data_version s' = c_data_version s"
proof -
  have "c_data_version (snd (db_version_rebuild_stmt s)) = c_data_version s"
    unfolding db_version_rebuild_stmt_def dbutils_table_settings_count_tables_def
    by (intro keeps) simp_all
  then show "db_version_rebuild_stmt s = (rc, s') \<Longrightarrow> c_data_version s' = c_data_version s" by simp
qed

lemma check_uptodate_result:
  assumes "db_version_check_uptodate s = (0, s')"
  shows "c_data_version s' = d_pragma_data_version (db s)"
    and "synced s \<Longrightarrow> c_db_version s' = c_db_version s"
    and "\<not> synced s \<Longrightarrow> \<exists>ns. c_db_version_stmt s' = Some ns \<and> c_db_version s' = db_version_value ns (db s)"
proof -
  obtain v s1 where v: "stmt_execute data_version_stmt s = (v, s1)" by fastforce
  have nv: "v \<noteq> STMT_VALUE_ERROR" using assms v by (auto simp: db_version_check_uptodate_def)
  note d = stmt_execute_data_version [OF v nv]
  have db1: "db s1 = db s" using v reading.stmt_execute_keeps [of s "outside_clock s" _ data_version_stmt]
    by (simp add: outside_clock_def)
  have sync: "synced s \<longleftrightarrow> c_db_version s1 \<noteq> -1 \<and> v = STMT_VALUE_UNCHANGED"
    using d by (simp add: synced_def)
  have rest: "c_data_version s' = d_pragma_data_version (db s) \<and>
      (\<exists>ns. c_db_version_stmt s' = Some ns \<and> c_db_version s' = db_version_value ns (db s))" if "\<not> synced s"
  proof -
    have rr: "db_version_rerun s1 = (0, s')"
      using assms v nv that sync by (simp add: db_version_check_uptodate_def split: if_splits)
    obtain w s2 where w: "stmt_execute schema_version_stmt s1 = (w, s2)" by fastforce
    obtain rc s3 where r: "(if w = STMT_VALUE_CHANGED then db_version_rebuild_stmt s2 else (SQLITE_OK, s2)) = (rc, s3)"
      by fastforce
    obtain x s4 where x: "stmt_execute db_version_stmt s3 = (x, s4)" by fastforce
    have s4: "s4 = s'" "x \<noteq> STMT_VALUE_ERROR"
      using rr by (auto simp: db_version_rerun_def w r x split: if_splits)
    obtain ns where ns: "c_db_version_stmt s4 = Some ns" "db_version_query_legal ns (db s4)"
      "c_db_version s4 = db_version_value ns (db s4)" "c_data_version s4 = c_data_version s3"
      using stmt_execute_db_version [OF x s4(2)] .
    have "c_data_version s3 = c_data_version s2"
      using r rebuild_data_version [of s2 rc s3] by (auto split: if_splits)
    moreover have "c_data_version s2 = c_data_version s1" by (rule stmt_execute_schema_version [OF w])
    moreover have "db s' = db s" using check_uptodate_fields(1) [OF assms] .
    ultimately show ?thesis using ns d s4 by auto
  qed
  have same: "s' = s1" if "synced s"
    using assms v nv that sync by (simp add: db_version_check_uptodate_def)
  show "c_data_version s' = d_pragma_data_version (db s)"
    using rest same d(1) by (cases "synced s") simp_all
  show "synced s \<Longrightarrow> c_db_version s' = c_db_version s" using same d(2) by simp
  show "\<not> synced s \<Longrightarrow> \<exists>ns. c_db_version_stmt s' = Some ns \<and> c_db_version s' = db_version_value ns (db s)"
    using rest by blast
qed

text \<open>The value handed out, from the state in which the cache is up to date.\<close>

lemma db_version_next_value:
  assumes "db_version_next m s = (r, s')" "r \<noteq> -1"
  obtains s1 where "db_version_check_uptodate s = (0, s1)" "s' = s1\<lparr>c_pending_db_version := r\<rparr>"
    "r = (let b = max (c_db_version s1 + 1) (c_pending_db_version s) in if m = -1 then b else max b m)"
proof -
  obtain rc s1 where c: "db_version_check_uptodate s = (rc, s1)" by fastforce
  with assms have "rc = 0" by (auto simp: db_version_next_def split: if_splits)
  with c assms check_uptodate_fields(2) [OF c] show ?thesis
    by (intro that [of s1]) (auto simp: db_version_next_def Let_def max_def split: if_splits)
qed

section \<open>Transactions\<close>

text \<open>The versions recorded in a database, and a write to one clock table.\<close>

definition recorded :: "database \<Rightarrow> int set" where
  "recorded d = {m_db_version r | n t k r. (n, t) \<in> set (d_meta d) \<and> (k, r) \<in> set t}"

definition map_meta :: "string \<Rightarrow> (meta_table \<Rightarrow> meta_table) \<Rightarrow> database \<Rightarrow> database" where
  "map_meta name f d =
     d\<lparr>d_meta := map (\<lambda>(n, t). (n, if str_case_eq n name then f t else t)) (d_meta d)\<rparr>"

definition meta_names_ok :: "database \<Rightarrow> bool" where
  "meta_names_ok d \<longleftrightarrow> distinct (map (\<lambda>(n, _). lowercase n) (d_meta d))"

lemma map_meta_fields [simp]:
  "map fst (d_meta (map_meta n f d)) = map fst (d_meta d)"
  "d_settings (map_meta n f d) = d_settings d" "d_users (map_meta n f d) = d_users d"
  "d_pragma_data_version (map_meta n f d) = d_pragma_data_version d"
  "d_pragma_schema_version (map_meta n f d) = d_pragma_schema_version d"
  "d_table_settings (map_meta n f d) = d_table_settings d" "d_site_ids (map_meta n f d) = d_site_ids d"
  "d_triggers (map_meta n f d) = d_triggers d" "d_schema_versions (map_meta n f d) = d_schema_versions d"
  by (simp_all add: map_meta_def comp_def split_def)

lemma setting_map_meta [simp]: "setting k (map_meta n f d) = setting k d"
  by (simp add: setting_def)

lemma meta_names_ok_map_fst:
  "map fst (d_meta d') = map fst (d_meta d) \<Longrightarrow> meta_names_ok d' = meta_names_ok d"
proof -
  have "map (\<lambda>(n, _). lowercase n) xs = map lowercase (map fst xs)" for xs :: "(string \<times> meta_table) list"
    by (simp add: split_def comp_def)
  then show "map fst (d_meta d') = map fst (d_meta d) \<Longrightarrow> meta_names_ok d' = meta_names_ok d"
    by (simp only: meta_names_ok_def)
qed

lemma meta_of_map_meta:
  "meta_of name (map_meta n f d) = (if str_case_eq name n then map_option f (meta_of name d) else meta_of name d)"
proof -
  have "assoc_get str_case_eq name (map (\<lambda>(m, t). (m, if str_case_eq m n then f t else t)) xs) =
      (if str_case_eq name n then map_option f (assoc_get str_case_eq name xs)
       else assoc_get str_case_eq name xs)" for xs
    by (induction xs) (auto simp: str_case_eq_def [abs_def])
  then show ?thesis by (simp add: meta_of_def map_meta_def)
qed

lemma meta_of_in:
  "meta_of n d = Some t \<Longrightarrow> \<exists>m. (m, t) \<in> set (d_meta d) \<and> str_case_eq n m"
proof -
  have "assoc_get str_case_eq n xs = Some t \<Longrightarrow> \<exists>m. (m, t) \<in> set xs \<and> str_case_eq n m" for xs
    by (induction xs) (auto split: if_splits)
  then show "meta_of n d = Some t \<Longrightarrow> \<exists>m. (m, t) \<in> set (d_meta d) \<and> str_case_eq n m"
    by (simp add: meta_of_def)
qed

lemma in_meta_of:
  assumes "meta_names_ok d" "(n, t) \<in> set (d_meta d)"
  shows "meta_of n d = Some t"
proof -
  have "distinct (map (\<lambda>(n, _). lowercase n) xs) \<Longrightarrow> (n, t) \<in> set xs \<Longrightarrow> assoc_get str_case_eq n xs = Some t"
    for xs :: "(string \<times> meta_table) list"
    by (induction xs) (force simp: str_case_eq_def)+
  with assms show ?thesis by (simp add: meta_names_ok_def meta_of_def)
qed

lemma recordedI: "(n, t) \<in> set (d_meta d) \<Longrightarrow> (k, r) \<in> set t \<Longrightarrow> m_db_version r \<in> recorded d"
  unfolding recorded_def by blast

lemma recordedE:
  assumes "v \<in> recorded d"
  obtains n t k r where "v = m_db_version r" "(n, t) \<in> set (d_meta d)" "(k, r) \<in> set t"
  using assms unfolding recorded_def by blast

lemma recorded_map_meta:
  assumes "\<And>t k r. (k, r) \<in> set (f t) \<Longrightarrow> (\<exists>k'. (k', r) \<in> set t) \<or> m_db_version r \<in> V"
  shows "recorded (map_meta n f d) \<subseteq> recorded d \<union> V"
proof
  fix v assume "v \<in> recorded (map_meta n f d)"
  then obtain r m t k where v: "v = m_db_version r" "(m, t) \<in> set (d_meta d)"
    "(k, r) \<in> set (if str_case_eq m n then f t else t)"
    by (auto simp: recorded_def map_meta_def)
  show "v \<in> recorded d \<union> V"
  proof (cases "str_case_eq m n")
    case True
    with v(3) have "(k, r) \<in> set (f t)" by simp
    from assms [OF this] v(1,2) show ?thesis using recordedI by blast
  next
    case False
    with v show ?thesis using recordedI by auto
  qed
qed

lemma in_update: "(k', r) \<in> set (AList.update k v xs) \<Longrightarrow> (k', r) \<in> set xs \<or> r = v"
  by (induction xs) (auto split: if_splits)

section \<open>The version order\<close>

text \<open>A query that covers all clock tables returns an upper bound of what is recorded.\<close>

lemma list_max_ge: "x \<in> set xs \<Longrightarrow> \<exists>m. list_max xs = Some m \<and> x \<le> m"
  by (induction xs) (auto split: option.splits)

lemma list_max_in: "list_max xs = Some m \<Longrightarrow> m \<in> set xs"
  by (induction xs arbitrary: m) (auto split: option.splits simp: max_def)

lemma versions_recorded: "v \<in> set (versions ns d) \<Longrightarrow> v \<in> recorded d"
proof -
  assume "v \<in> set (versions ns d)"
  then obtain n where "v \<in> set (map m_db_version (meta_rows n d))" by (auto simp: versions_def)
  then obtain t where t: "meta_of n d = Some t" "v \<in> m_db_version ` snd ` set t"
    by (cases "meta_of n d") (auto simp: meta_rows_def)
  then obtain m where "(m, t) \<in> set (d_meta d)" using meta_of_in by blast
  with t(2) show "v \<in> recorded d" by (auto intro: recordedI)
qed

lemma recorded_versions:
  assumes "meta_names_ok d" "set (map fst (d_meta d)) \<subseteq> set ns"
  shows "recorded d \<subseteq> set (versions ns d)"
proof
  fix v assume "v \<in> recorded d"
  then obtain r n t k where r: "v = m_db_version r" "(n, t) \<in> set (d_meta d)" "(k, r) \<in> set t"
    by (auto simp: recorded_def)
  then have "n \<in> set ns" using assms(2) by force
  with r in_meta_of [OF assms(1) r(2)] show "v \<in> set (versions ns d)"
    by (force simp: versions_def meta_rows_def)
qed

lemma db_version_value_bound:
  assumes "meta_names_ok d" "set (map fst (d_meta d)) \<subseteq> set ns" "setting ''pre_alter_dbversion'' d = None"
    and nonneg: "\<forall>v \<in> recorded d. 0 \<le> v"
  shows "v \<in> recorded d \<Longrightarrow> v \<le> db_version_value ns d" "0 \<le> db_version_value ns d"
proof -
  have "list_max (versions ns d) = Some m \<Longrightarrow> 0 \<le> m" for m
    using nonneg list_max_in versions_recorded by blast
  then show "0 \<le> db_version_value ns d"
    using assms(3) by (simp add: db_version_value_def split: option.split)
  assume "v \<in> recorded d"
  with recorded_versions [OF assms(1,2)] have "v \<in> set (versions ns d)" by blast
  from list_max_ge [OF this] assms(3) show "v \<le> db_version_value ns d"
    by (auto simp: db_version_value_def)
qed

text \<open>
  The steps of one connection: \<open>s\<close> is its state and \<open>d0\<close> the committed database. A write takes a
  version first, and rows are dropped only after the clock was read; the case of a read that fails
  half-way is \<open>clock_read_error_hides_change\<close>. Another connection commits while this one has no version
  pending, and SQLite then shows a new value of \<open>PRAGMA data_version\<close>.
\<close>

inductive clock_step :: "state \<times> database \<Rightarrow> state \<times> database \<Rightarrow> bool" where
  stamp: "db_version_next m s = (r, s') \<Longrightarrow> r \<noteq> -1 \<Longrightarrow> m_db_version row = r \<Longrightarrow>
    clock_step (s, d0) (s'\<lparr>db := map_meta n (AList.update k row) (db s')\<rparr>, d0)"
| read: "db_version_check_uptodate s = (0, s') \<Longrightarrow> clock_step (s, d0) (s', d0)"
| drop: "synced s \<Longrightarrow> clock_step (s, d0) (s\<lparr>db := map_meta n (filter keep) (db s)\<rparr>, d0)"
| commit: "clock_step (s, d0) (cloudsync_commit_hook s, db s)"
| rollback: "clock_step (s, d0) (cloudsync_rollback_hook (s\<lparr>db := d0\<rparr>), d0)"
| foreign: "c_pending_db_version s = CLOUDSYNC_VALUE_NOTSET \<Longrightarrow> db s = d0 \<Longrightarrow>
    map fst (d_meta d) = map fst (d_meta d0) \<Longrightarrow> d_settings d = d_settings d0 \<Longrightarrow>
    d_table_settings d = d_table_settings d0 \<Longrightarrow> \<forall>v \<in> recorded d. 0 \<le> v \<Longrightarrow>
    d_pragma_data_version d \<noteq> c_data_version s \<Longrightarrow>
    clock_step (s, d0) (s\<lparr>db := d\<rparr>, d)"

inductive_cases clock_stepE: "clock_step (s, d0) (s', d0')"

text \<open>What is the same in the running transaction and in the committed database.\<close>

definition shape where
  "shape d = (map fst (d_meta d), d_settings d, d_table_settings d, d_pragma_data_version d)"

definition clock_inv :: "state \<times> database \<Rightarrow> bool" where
  "clock_inv = (\<lambda>(s, d0).
     shape (db s) = shape d0 \<and> meta_names_ok d0 \<and> setting ''pre_alter_dbversion'' d0 = None \<and>
     (\<forall>ns. c_db_version_stmt s = Some ns \<longrightarrow> set (map fst (d_meta d0)) \<subseteq> set ns) \<and>
     (\<forall>v \<in> recorded d0. 0 \<le> v) \<and>
     (synced s \<longrightarrow> 0 \<le> c_db_version s \<and> (\<forall>v \<in> recorded d0. v \<le> c_db_version s)) \<and>
     (\<not> synced s \<longrightarrow> recorded d0 \<subseteq> recorded (db s)) \<and>
     (\<forall>v \<in> recorded (db s). v \<in> recorded d0 \<or> (0 \<le> v \<and> v \<le> c_pending_db_version s)) \<and>
     (c_pending_db_version s = CLOUDSYNC_VALUE_NOTSET \<or>
        (synced s \<and> c_db_version s < c_pending_db_version s)))"

lemma clock_invD:
  assumes "clock_inv (s, d0)"
  shows "shape (db s) = shape d0" "meta_names_ok d0" "setting ''pre_alter_dbversion'' d0 = None"
    "\<And>ns. c_db_version_stmt s = Some ns \<Longrightarrow> set (map fst (d_meta d0)) \<subseteq> set ns"
    "\<forall>v \<in> recorded d0. 0 \<le> v"
    "synced s \<Longrightarrow> 0 \<le> c_db_version s \<and> (\<forall>v \<in> recorded d0. v \<le> c_db_version s)"
    "\<not> synced s \<Longrightarrow> recorded d0 \<subseteq> recorded (db s)"
    "\<forall>v \<in> recorded (db s). v \<in> recorded d0 \<or> (0 \<le> v \<and> v \<le> c_pending_db_version s)"
    "c_pending_db_version s = -1 \<or> (synced s \<and> c_db_version s < c_pending_db_version s)"
  using assms unfolding clock_inv_def prod.case by blast+

text \<open>Reading the clock inside the invariant.\<close>

lemma rebuild_covers:
  assumes "db_version_rebuild_stmt s = (rc, s')" "c_db_version_stmt s' = Some ns"
  shows "ns = map fst (d_meta (db s))"
proof -
  obtain cnt s1 where c: "dbutils_table_settings_count_tables (s\<lparr>c_db_version_stmt := None\<rparr>) = (cnt, s1)"
    by fastforce
  have s1: "same (s\<lparr>c_db_version_stmt := None\<rparr>) s1"
    using c same_frame.int_select_keeps [OF same_refl] unfolding dbutils_table_settings_count_tables_def
    by (metis snd_conv)
  obtain sql s2 where t: "dbutils_text_select True (\<lambda>d. Some [VText []]) s1 = (sql, s2)" by fastforce
  have s2: "same (s\<lparr>c_db_version_stmt := None\<rparr>) s2"
    using t same_frame.text_select_keeps [OF s1] by (metis snd_conv)
  obtain r s3 where p: "prepare (db_version_query_legal (db_version_build_query (db s2)) (db s2)) s2 = (r, s3)"
    by fastforce
  have s3: "same (s\<lparr>c_db_version_stmt := None\<rparr>) s3"
    using p same_frame.prepare_keeps [OF s2] by (metis snd_conv)
  have res: "s' = s1 \<or> s' = s2 \<or> s' = (if r = 0 then s3\<lparr>c_db_version_stmt := Some (db_version_build_query (db s2))\<rparr> else s3)"
    using assms(1) by (auto simp: db_version_rebuild_stmt_def c t p Let_def split: if_splits)
  have none: "c_db_version_stmt s1 = None" "c_db_version_stmt s2 = None" "c_db_version_stmt s3 = None"
    "db s2 = db s"
    using same_fields [OF s1] same_fields [OF s2] same_fields [OF s3] by simp_all
  with res assms(2) show ?thesis by (auto simp: db_version_build_query_def split: if_splits)
qed

lemma check_uptodate_covers:
  assumes "db_version_check_uptodate s = (rc, s')" "c_db_version_stmt s' = Some ns"
  shows "c_db_version_stmt s = Some ns \<or> ns = map fst (d_meta (db s))"
proof -
  have ex: "c_db_version_stmt s2 = c_db_version_stmt s1" "db s2 = db s1"
    if "stmt_execute st s1 = (v, s2)" for st v s1 s2
  proof -
    have "c_db_version_stmt (snd (stmt_execute st s1)) = c_db_version_stmt s1 \<and> db (snd (stmt_execute st s1)) = db s1"
      using same_fields [OF same_frame.next_fault_keeps [OF same_refl, of s1]]
      by (cases st) (simp_all add: stmt_execute_def Let_def split_beta)
    with that show "c_db_version_stmt s2 = c_db_version_stmt s1" "db s2 = db s1" by simp_all
  qed
  obtain v s1 where v: "stmt_execute data_version_stmt s = (v, s1)" by fastforce
  obtain w s2 where w: "stmt_execute schema_version_stmt s1 = (w, s2)" by fastforce
  obtain rc3 s3 where r: "(if w = STMT_VALUE_CHANGED then db_version_rebuild_stmt s2 else (SQLITE_OK, s2)) = (rc3, s3)"
    by fastforce
  obtain x s4 where x: "stmt_execute db_version_stmt s3 = (x, s4)" by fastforce
  have "s' = s1 \<or> s' = s2 \<or> s' = s3 \<or> s' = s4"
    using assms(1) by (auto simp: db_version_check_uptodate_def db_version_rerun_def v w r x split: if_splits)
  moreover have "c_db_version_stmt s3 = Some ns \<Longrightarrow> c_db_version_stmt s = Some ns \<or> ns = map fst (d_meta (db s))"
    using r rebuild_covers [of s2 rc3 s3 ns] ex [OF v] ex [OF w] by (auto split: if_splits)
  ultimately show ?thesis using assms(2) ex [OF v] ex [OF w] ex [OF x] by auto
qed

lemma clock_inv_read:
  assumes inv: "clock_inv (s, d0)" and c: "db_version_check_uptodate s = (0, s')"
  shows "clock_inv (s', d0)" "synced s'" "\<forall>v \<in> recorded d0. v \<le> c_db_version s'" "0 \<le> c_db_version s'"
proof -
  note f = check_uptodate_fields [OF c] and r = check_uptodate_result [OF c]
  note shape = clock_invD(1,2,3) [OF inv] and cover = clock_invD(4) [OF inv] and nonneg = clock_invD(5) [OF inv]
    and sync = clock_invD(6) [OF inv] and sup = clock_invD(7) [OF inv] and now = clock_invD(8) [OF inv]
    and pend = clock_invD(9) [OF inv]
  have names: "map fst (d_meta (db s)) = map fst (d_meta d0)" "setting ''pre_alter_dbversion'' (db s) = None"
    using shape by (simp_all add: shape_def setting_def)
  have cover': "\<And>ns. c_db_version_stmt s' = Some ns \<Longrightarrow> set (map fst (d_meta d0)) \<subseteq> set ns"
    using check_uptodate_covers [OF c] cover names(1) by (metis order_refl)
  have bound: "0 \<le> c_db_version s' \<and> (\<forall>v \<in> recorded d0. v \<le> c_db_version s')"
  proof (cases "synced s")
    case True
    then show ?thesis using sync r(2) by simp
  next
    case False
    then obtain ns where ns: "c_db_version_stmt s' = Some ns" "c_db_version s' = db_version_value ns (db s)"
      using r(3) by blast
    have "meta_names_ok (db s)" using shape(2) meta_names_ok_map_fst [OF names(1)] by simp
    moreover have "\<forall>v \<in> recorded (db s). 0 \<le> v" using now nonneg by blast
    moreover have "set (map fst (d_meta (db s))) \<subseteq> set ns" using cover' [OF ns(1)] names(1) by simp
    ultimately show ?thesis
      using db_version_value_bound [of "db s" ns] names(2) sup [OF False] ns(2) by auto
  qed
  then show "\<forall>v \<in> recorded d0. v \<le> c_db_version s'" "0 \<le> c_db_version s'" by simp_all
  show "synced s'" using bound r(1) f(1) by (simp add: synced_def)
  then show "clock_inv (s', d0)"
    unfolding clock_inv_def prod.case
    using shape cover' nonneg bound now pend f r(2) by (auto simp del: set_map)
qed

lemma clock_inv_step:
  assumes "clock_step (s, d0) (s', d0')" "clock_inv (s, d0)"
  shows "clock_inv (s', d0')"
  using assms(1)
proof (cases rule: clock_step.cases)
  case (stamp m r s1 row n k)
  obtain s2 where s2: "db_version_check_uptodate s = (0, s2)" "s1 = s2\<lparr>c_pending_db_version := r\<rparr>"
    and r: "r = (let b = max (c_db_version s2 + 1) (c_pending_db_version s) in if m = -1 then b else max b m)"
    using db_version_next_value [OF stamp(3,4)] .
  note i = clock_inv_read [OF assms(2) s2(1)]
  have lt: "c_db_version s2 < r" "c_pending_db_version s \<le> r" using r by (auto simp: Let_def)
  have p2: "c_pending_db_version s2 = c_pending_db_version s" using check_uptodate_fields [OF s2(1)] by simp
  let ?d = "map_meta n (AList.update k row) (db s2)"
  have rec: "recorded ?d \<subseteq> recorded (db s2) \<union> {r}"
    by (rule recorded_map_meta) (use stamp(5) in \<open>auto dest!: in_update\<close>)
  have "v \<in> recorded d0 \<or> (0 \<le> v \<and> v \<le> r)" if "v \<in> recorded ?d" for v
  proof -
    from that rec have "v \<in> recorded (db s2) \<or> v = r" by blast
    moreover have "v \<in> recorded (db s2) \<Longrightarrow> v \<in> recorded d0 \<or> (0 \<le> v \<and> v \<le> c_pending_db_version s2)"
      using i(1) unfolding clock_inv_def prod.case by blast
    ultimately show ?thesis using lt p2 i(4) by auto
  qed
  then show ?thesis
    using i lt unfolding clock_inv_def prod.case stamp(1,2) s2(2)
    by (simp add: synced_def shape_def del: set_map)
next
  case (drop n keep)
  have "recorded (map_meta n (filter keep) (db s)) \<subseteq> recorded (db s) \<union> {}"
    by (rule recorded_map_meta) auto
  with drop assms(2) show ?thesis
    unfolding clock_inv_def prod.case by (simp add: synced_def shape_def subset_iff del: set_map)
next
  case commit
  note i = clock_invD [OF assms(2)]
  have names: "map fst (d_meta (db s)) = map fst (d_meta d0)" "setting ''pre_alter_dbversion'' (db s) = None"
    using i(1,3) by (simp_all add: shape_def setting_def)
  have "meta_names_ok (db s)" using i(2) meta_names_ok_map_fst [OF names(1)] by simp
  moreover have nonneg: "\<forall>v \<in> recorded (db s). 0 \<le> v" using i(5,8) by blast
  moreover have "0 \<le> c_pending_db_version s \<and> (\<forall>v \<in> recorded (db s). v \<le> c_pending_db_version s)"
    if "c_pending_db_version s \<noteq> -1"
    using that i(6,8,9) by (meson dual_order.trans less_imp_le)
  ultimately show ?thesis using i(4) names unfolding clock_inv_def prod.case commit
    by (simp add: synced_def cloudsync_commit_hook_def)
next
  case rollback
  note i = clock_invD [OF assms(2)]
  show ?thesis using i unfolding clock_inv_def prod.case rollback
    by (simp add: synced_def cloudsync_rollback_hook_def shape_def)
next
  case foreign
  note i = clock_invD [OF assms(2)]
  have "meta_names_ok d0'" using i(2) meta_names_ok_map_fst [OF foreign(4)] by simp
  moreover have "setting ''pre_alter_dbversion'' d0' = None" using i(3) foreign(5) by (simp add: setting_def)
  ultimately show ?thesis using i(4) foreign(2-) unfolding clock_inv_def prod.case foreign(1)
    by (simp add: synced_def)
qed (use assms(2) clock_inv_read in auto)

section \<open>The contract of the clock\<close>

text \<open>What the writers of the clock tables rely on: a version handed out is greater than the version
  of the database, not below the one of the running transaction and not below the version that is
  being merged, and it becomes the version of the transaction.\<close>

locale version_clock =
  fixes next_version :: "int \<Rightarrow> 's \<Rightarrow> int \<times> 's"
    and cur :: "'s \<Rightarrow> int"
    and pending :: "'s \<Rightarrow> int"
  assumes handed_out: "next_version m s = (r, s') \<Longrightarrow> r \<noteq> -1 \<Longrightarrow>
      cur s' < r \<and> pending s \<le> r \<and> (m \<noteq> -1 \<longrightarrow> m \<le> r) \<and> pending s' = r"
begin

fun nexts :: "int list \<Rightarrow> 's \<Rightarrow> int list \<times> 's" where
  "nexts [] s = ([], s)"
| "nexts (m # ms) s = (case next_version m s of (r, s') \<Rightarrow> case nexts ms s' of (rs, s'') \<Rightarrow> (r # rs, s''))"

text \<open>The versions of one transaction never decrease.\<close>

lemma nexts_sorted:
  "nexts ms s = (rs, s') \<Longrightarrow> -1 \<notin> set rs \<Longrightarrow> sorted rs \<and> (\<forall>r \<in> set rs. pending s \<le> r)"
proof (induction ms arbitrary: s rs)
  case (Cons m ms)
  obtain r s1 where r: "next_version m s = (r, s1)" by fastforce
  obtain rs1 s2 where rs: "nexts ms s1 = (rs1, s2)" by fastforce
  have eq: "rs = r # rs1" "s' = s2" using Cons.prems r rs by simp_all
  have h: "pending s \<le> r" "pending s1 = r" using handed_out [OF r] Cons.prems(2) eq by auto
  have "sorted rs1 \<and> (\<forall>x \<in> set rs1. r \<le> x)"
    using Cons.IH [of s1 rs1] rs eq h(2) Cons.prems(2) by auto
  with eq h(1) show ?case by auto
qed simp

end

interpretation db_clock: version_clock db_version_next c_db_version c_pending_db_version
proof
  fix m s r s' assume "db_version_next m s = (r, s')" "r \<noteq> -1"
  then obtain s1 where "s' = s1\<lparr>c_pending_db_version := r\<rparr>"
    "r = (let b = max (c_db_version s1 + 1) (c_pending_db_version s) in if m = -1 then b else max b m)"
    by (rule db_version_next_value)
  then show "c_db_version s' < r \<and> c_pending_db_version s \<le> r \<and> (m \<noteq> -1 \<longrightarrow> m \<le> r) \<and> c_pending_db_version s' = r"
    by (auto simp: Let_def)
qed

section \<open>Properties\<close>

text \<open>A state in which everything is prepared and one table exists, for the witnesses.\<close>

definition demo_meta :: meta_table where
  "demo_meta = [(([1], ''c''), \<lparr>m_col_version = 1, m_db_version = 7, m_site_id = 0, m_seq = 0\<rparr>)]"

definition demo_db :: database where
  "demo_db = \<lparr>d_meta = [(''t'', demo_meta)], d_users = [], d_settings = Some [],
     d_site_ids = Some [(0, [1])], d_table_settings = Some [((''t'', ''algo''), (''*'', ''cls''))],
     d_schema_versions = Some [], d_triggers = [], d_pragma_data_version = 2, d_pragma_schema_version = 3\<rparr>"

definition demo_state :: state where
  "demo_state = (cloudsync_context_create demo_db [])
     \<lparr>c_data_version_stmt := True, c_schema_version_stmt := True, c_getset_siteid_stmt := True,
      c_pending_db_version := -1\<rparr>"

lemma demo_clock_inv: "clock_inv (demo_state, demo_db)"
  by (simp add: clock_inv_def demo_state_def demo_db_def cloudsync_context_create_def shape_def
      meta_names_ok_def setting_def recorded_def demo_meta_def synced_def)

lemmas clock_defs = db_version_next_def db_version_check_uptodate_def db_version_rerun_def
  stmt_execute_def prepared_def db_version_rebuild_stmt_def dbutils_table_settings_count_tables_def
  dbutils_int_select_def dbutils_text_select_def select_def dbutils_exec_def



lemma check_uptodate_prepared:
  assumes "db_version_check_uptodate s = (0, s')"
  shows "c_data_version_stmt s'" "c_data_version_stmt s"
proof -
  obtain rc s1 where f: "next_fault s = (rc, s1)" by fastforce
  have s1: "same s s1" using f same_frame.next_fault_keeps [OF same_refl, of s] by simp
  have "prepared data_version_stmt s1"
    using assms f by (auto simp: db_version_check_uptodate_def stmt_execute_def split: if_splits)
  then show "c_data_version_stmt s" using same_fields [OF s1] by (simp add: prepared_def)
  then show "c_data_version_stmt s'" using check_uptodate_fields(4) [OF assms] by (simp add: outside_clock_def)
qed

text \<open>Within a transaction the version stays the same: asking again gives the same version, whatever
  was written in between, as long as no change with a greater version is merged.\<close>

theorem db_version_next_stable:
  assumes "db_version_next m s = (r, s')" "r \<noteq> -1" "c_db_version s' \<noteq> -1"
    and "d_pragma_data_version d = d_pragma_data_version (db s')" "m' \<le> r"
  shows "db_version_next m' (s'\<lparr>db := d, faults := []\<rparr>) = (r, s'\<lparr>db := d, faults := []\<rparr>)"
proof -
  obtain s1 where c: "db_version_check_uptodate s = (0, s1)" "s' = s1\<lparr>c_pending_db_version := r\<rparr>"
    and r: "r = (let b = max (c_db_version s1 + 1) (c_pending_db_version s) in if m = -1 then b else max b m)"
    using db_version_next_value [OF assms(1,2)] .
  have "c_data_version s1 = d_pragma_data_version (db s1)"
    using check_uptodate_result(1) [OF c(1)] check_uptodate_fields(1) [OF c(1)] by simp
  moreover have "c_data_version_stmt s1" by (rule check_uptodate_prepared [OF c(1)])
  moreover have "c_db_version s1 < r" using r by (auto simp: Let_def)
  moreover define t where "t = s'\<lparr>db := d, faults := []\<rparr>"
  ultimately have t: "c_data_version t = d_pragma_data_version (db t)" "c_data_version_stmt t"
    "c_db_version t < r" "c_pending_db_version t = r" "c_db_version t \<noteq> -1" "faults t = []"
    using c(2) assms(3,4) by simp_all
  have "t\<lparr>c_pending_db_version := r\<rparr> = t" using t(4) by (cases t) simp
  with t assms(5) show ?thesis unfolding t_def [symmetric]
    by (simp add: db_version_next_def db_version_check_uptodate_def stmt_execute_def prepared_def Let_def)
qed

theorem db_version_next_stable_witness:
  "\<exists>s'. db_version_next (-1) demo_state = (8, s') \<and>
     db_version_next 5 (s'\<lparr>db := db s'\<lparr>d_meta := []\<rparr>, faults := []\<rparr>) =
       (8, s'\<lparr>db := db s'\<lparr>d_meta := []\<rparr>, faults := []\<rparr>)"
proof -
  have "fst (db_version_next (-1) demo_state) = 8" "c_db_version (snd (db_version_next (-1) demo_state)) = 7"
    by code_simp+
  then obtain s' where n: "db_version_next (-1) demo_state = (8, s')" "c_db_version s' = 7"
    by (cases "db_version_next (-1) demo_state") simp
  show ?thesis using n db_version_next_stable [OF n(1), of "db s'\<lparr>d_meta := []\<rparr>" 5] by auto
qed

text \<open>A new context starts with pending version 0, not with "not set": a commit before its first
  write makes 0 the cached version, and the next write takes version 1 whatever is in the database.\<close>

theorem fresh_context_commit_resets_clock:
  assumes "c_pending_db_version s = c_pending_db_version (cloudsync_context_create d fs)"
    and "c_data_version s = d_pragma_data_version (db s)" "c_data_version_stmt s" "faults s = []"
  shows "fst (db_version_next CLOUDSYNC_VALUE_NOTSET (cloudsync_commit_hook s)) = 1"
  using assms
  by (simp add: cloudsync_context_create_def cloudsync_commit_hook_def db_version_next_def
      db_version_check_uptodate_def stmt_execute_def prepared_def)

theorem fresh_context_commit_resets_clock_witness:
  "\<exists>s. cloudsync_db_version (demo_state\<lparr>c_pending_db_version := 0\<rparr>) = (ResInt 7, s) \<and>
     fst (db_version_next (-1) (cloudsync_commit_hook s)) = 1"
proof -
  let ?s = "snd (cloudsync_db_version (demo_state\<lparr>c_pending_db_version := 0\<rparr>))"
  have h: "fst (cloudsync_db_version (demo_state\<lparr>c_pending_db_version := 0\<rparr>)) = ResInt 7"
    "c_pending_db_version ?s = 0" "c_data_version ?s = d_pragma_data_version (db ?s)"
    "c_data_version_stmt ?s = True" "faults ?s = []"
    by code_simp+
  have "fst (db_version_next (-1) (cloudsync_commit_hook ?s)) = 1"
    by (rule fresh_context_commit_resets_clock [of _ demo_db "[]"])
      (use h in \<open>simp_all add: cloudsync_context_create_def\<close>)
  with h(1) show ?thesis by (metis prod.collapse)
qed

text \<open>The new value of \<open>PRAGMA data_version\<close> is stored before the version is read: when that read
  fails, the next call believes that nothing has changed and works with the old version.\<close>

theorem clock_read_error_hides_change:
  assumes "faults s = [SQLITE_OK, e]" "e \<noteq> SQLITE_OK" "c_data_version_stmt s"
    and "c_data_version s \<noteq> d_pragma_data_version (db s)" "c_db_version s \<noteq> CLOUDSYNC_VALUE_NOTSET"
  shows "\<exists>s1 s2. db_version_check_uptodate s = (-1, s1) \<and> db_version_check_uptodate s1 = (0, s2) \<and>
    c_db_version s2 = c_db_version s"
  using assms
  by (simp add: db_version_check_uptodate_def stmt_execute_def next_fault_def prepared_def db_version_rerun_def)

theorem clock_read_error_hides_change_witness:
  "\<exists>s1 s2. db_version_check_uptodate (demo_state\<lparr>faults := [0, 5]\<rparr>) = (-1, s1) \<and>
     db_version_check_uptodate s1 = (0, s2) \<and> c_db_version s2 = 0"
  using clock_read_error_hides_change [of "demo_state\<lparr>faults := [0, 5]\<rparr>" 5]
  by (simp add: demo_state_def demo_db_def cloudsync_context_create_def)

text \<open>Once \<open>cloudsync_commit_alter\<close> has written the setting \<open>pre_alter_dbversion\<close>, its TEXT value is
  the result of the clock query, however great the versions in the clock tables have become.\<close>

theorem alter_freezes_clock:
  assumes "setting ''pre_alter_dbversion'' (db s) = Some (show_int n)" "0 \<le> n" "n < 2 ^ 63"
    and "\<not> synced s" "db_version_check_uptodate s = (0, s')"
  shows "c_db_version s' = n"
proof -
  have "text_int64 (show_int n) = n"
    using assms(2,3) scan_d_show_nat [of "nat n"] by (simp add: text_int64_def show_int_def)
  with check_uptodate_result(3) [OF assms(5,4)] assms(1) show ?thesis
    by (auto simp: db_version_value_def)
qed

theorem alter_freezes_clock_witness:
  "\<exists>s'. db_version_check_uptodate (demo_state\<lparr>db := replace_setting ''pre_alter_dbversion'' ''5'' demo_db\<rparr>) = (0, s') \<and>
     c_db_version s' = 5 \<and> 7 \<in> recorded (db s')"
proof -
  let ?s = "demo_state\<lparr>db := replace_setting ''pre_alter_dbversion'' ''5'' demo_db\<rparr>"
  have "fst (db_version_check_uptodate ?s) = 0" by code_simp
  then obtain s' where c: "db_version_check_uptodate ?s = (0, s')" by (metis prod.collapse)
  have "show_int 5 = ''5''" by code_simp
  moreover have "setting ''pre_alter_dbversion'' (db ?s) = Some ''5''" by code_simp
  moreover have "\<not> synced ?s" by (simp add: synced_def demo_state_def replace_setting_def demo_db_def cloudsync_context_create_def)
  ultimately have "c_db_version s' = 5" using alter_freezes_clock [of ?s 5 s'] c by simp
  moreover have "db s' = replace_setting ''pre_alter_dbversion'' ''5'' demo_db"
    using check_uptodate_fields(1) [OF c] by simp
  then have "7 \<in> recorded (db s')"
    by (simp add: recorded_def replace_setting_def demo_db_def demo_meta_def)
  ultimately show ?thesis using c by blast
qed

end
