(* ===== verification/Meta.thy ===== *)
theory Meta
  imports Clock
begin

text \<open>
  The prepared statements on a clock table \<open><name>_cloudsync\<close> (\<open>table_add_stmts\<close>,
  src/src/cloudsync.c): each is the function of the table that its SQL text denotes. The key (pk,
  col\_name) is the primary key of the table, so \<open>INSERT OR REPLACE\<close> and \<open>ON CONFLICT\<close> are updates of an
  association list. A row under the column name \<open>CLOUDSYNC_TOMBSTONE_VALUE\<close> is the sentinel of its
  primary key, and its version is the causal length of the row: odd when the row is alive, even when
  it is deleted.
\<close>

abbreviation (input) RIP :: string where "RIP \<equiv> CLOUDSYNC_TOMBSTONE_VALUE"

section \<open>Statements\<close>

text \<open>\<open>SELECT EXISTS(SELECT 1 FROM ... WHERE pk = ? LIMIT 1)\<close>\<close>

definition meta_pkexists :: "pkblob \<Rightarrow> meta_table \<Rightarrow> bool" where
  "meta_pkexists pk t \<longleftrightarrow> (\<exists>(k, _) \<in> set t. fst k = pk)"

text \<open>\<open>CASE col_version % 2 WHEN 0 THEN col_version + 1 ELSE col_version + 2 END\<close>\<close>

definition sentinel_bump :: "int \<Rightarrow> int" where
  "sentinel_bump v = (if v mod 2 = 0 then v + 1 else v + 2)"

text \<open>\<open>UPDATE ... WHERE k\<close> on the rows with one key.\<close>

definition update_row :: "meta_key \<Rightarrow> (meta_row \<Rightarrow> meta_row) \<Rightarrow> meta_table \<Rightarrow> meta_table" where
  "update_row key f t = map (\<lambda>(k, r). (k, if k = key then f r else r)) t"

definition meta_sentinel_update :: "int \<Rightarrow> int \<Rightarrow> pkblob \<Rightarrow> meta_table \<Rightarrow> meta_table" where
  "meta_sentinel_update dbv sq pk t =
     update_row (pk, RIP)
       (\<lambda>r. r\<lparr>m_col_version := sentinel_bump (m_col_version r), m_db_version := dbv, m_seq := sq, m_site_id := 0\<rparr>) t"

definition upsert :: "meta_key \<Rightarrow> meta_row \<Rightarrow> (meta_row \<Rightarrow> meta_row) \<Rightarrow> meta_table \<Rightarrow> meta_table" where
  "upsert key new upd t =
     (case map_of t key of None \<Rightarrow> AList.update key new t | Some r \<Rightarrow> AList.update key (upd r) t)"

definition meta_sentinel_insert :: "pkblob \<Rightarrow> int \<Rightarrow> int \<Rightarrow> meta_table \<Rightarrow> meta_table" where
  "meta_sentinel_insert pk dbv sq t =
     upsert (pk, RIP) \<lparr>m_col_version = 1, m_db_version = dbv, m_site_id = 0, m_seq = sq\<rparr>
       (\<lambda>r. r\<lparr>m_col_version := sentinel_bump (m_col_version r), m_db_version := dbv, m_seq := sq, m_site_id := 0\<rparr>) t"

definition meta_row_insert_update :: "pkblob \<Rightarrow> string \<Rightarrow> int \<Rightarrow> int \<Rightarrow> int \<Rightarrow> meta_table \<Rightarrow> meta_table" where
  "meta_row_insert_update pk col cv dbv sq t =
     upsert (pk, col) \<lparr>m_col_version = cv, m_db_version = dbv, m_site_id = 0, m_seq = sq\<rparr>
       (\<lambda>r. r\<lparr>m_col_version := m_col_version r + 1, m_db_version := dbv, m_seq := sq, m_site_id := 0\<rparr>) t"

text \<open>\<open>DELETE ... WHERE pk=? AND col_name!='__[RIP]__'\<close>; \<open>meta_merge_delete_drop\<close> has the same text.\<close>

definition meta_row_drop :: "pkblob \<Rightarrow> meta_table \<Rightarrow> meta_table" where
  "meta_row_drop pk t = filter (\<lambda>(k, _). \<not> (fst k = pk \<and> snd k \<noteq> RIP)) t"

text \<open>
  \<open>UPDATE OR REPLACE ... SET pk=?, db_version=?, col_version=1, seq=cloudsync_seq(), site_id=0 WHERE
  (pk=? AND col_name!='__[RIP]__')\<close>. \<open>sq i\<close> is the value of \<open>cloudsync_seq()\<close> for the i-th row
  that moves; a row that is in the way is replaced.
\<close>

definition moves :: "pkblob \<Rightarrow> meta_key \<Rightarrow> bool" where
  "moves oldpk k \<longleftrightarrow> fst k = oldpk \<and> snd k \<noteq> RIP"

definition meta_update_move :: "pkblob \<Rightarrow> int \<Rightarrow> (nat \<Rightarrow> int) \<Rightarrow> pkblob \<Rightarrow> meta_table \<Rightarrow> meta_table" where
  "meta_update_move pk dbv sq oldpk t =
     (let moving = filter (\<lambda>(k, _). moves oldpk k) t;
          target = map (\<lambda>(k, _). (pk, snd k)) moving
      in filter (\<lambda>(k, _). \<not> moves oldpk k \<and> k \<notin> set target) t @
         map (\<lambda>(i, k). (k, \<lparr>m_col_version = 1, m_db_version = dbv, m_site_id = 0, m_seq = sq i\<rparr>))
           (List.enumerate 0 target))"

text \<open>The causal length, \<open>NULL\<close> (read as 0) when the key is unknown.\<close>

definition meta_local_cl :: "pkblob \<Rightarrow> meta_table \<Rightarrow> int" where
  "meta_local_cl pk t =
     (case map_of t (pk, RIP) of Some r \<Rightarrow> m_col_version r
      | None \<Rightarrow> if meta_pkexists pk t then 1 else 0)"

definition meta_winner_clock :: "pkblob \<Rightarrow> string \<Rightarrow> int \<Rightarrow> int \<Rightarrow> int \<Rightarrow> int \<Rightarrow> meta_table \<Rightarrow> meta_table" where
  "meta_winner_clock pk col cv dbv sq ord t =
     AList.update (pk, col) \<lparr>m_col_version = cv, m_db_version = dbv, m_site_id = ord, m_seq = sq\<rparr> t"

definition meta_zero_clock :: "int \<Rightarrow> pkblob \<Rightarrow> meta_table \<Rightarrow> meta_table" where
  "meta_zero_clock dbv pk t =
     map (\<lambda>(k, r). (k, if moves pk k then r\<lparr>m_col_version := 0, m_db_version := dbv\<rparr> else r)) t"

definition meta_col_version :: "pkblob \<Rightarrow> string \<Rightarrow> meta_table \<Rightarrow> int option" where
  "meta_col_version pk col t = map_option m_col_version (map_of t (pk, col))"

definition meta_site_id :: "pkblob \<Rightarrow> string \<Rightarrow> meta_table \<Rightarrow> int option" where
  "meta_site_id pk col t = map_option m_site_id (map_of t (pk, col))"

section \<open>Their effect on one key\<close>

lemma map_of_update_row:
  "map_of (update_row key f t) k = (if k = key then map_option f (map_of t k) else map_of t k)"
  by (induction t) (auto simp: update_row_def)

lemma map_of_upsert:
  "map_of (upsert key new upd t) k =
     (if k = key then Some (case map_of t key of None \<Rightarrow> new | Some r \<Rightarrow> upd r) else map_of t k)"
  by (simp add: upsert_def update_conv' split: option.split)

lemma map_of_row_drop:
  "map_of (meta_row_drop pk t) k = (if moves pk k then None else map_of t k)"
  by (induction t) (auto simp: meta_row_drop_def moves_def)

lemma map_of_zero_clock:
  "map_of (meta_zero_clock dbv pk t) k =
     (if moves pk k then map_option (\<lambda>r. r\<lparr>m_col_version := 0, m_db_version := dbv\<rparr>) (map_of t k) else map_of t k)"
  by (induction t) (auto simp: meta_zero_clock_def)

lemma map_of_winner_clock:
  "map_of (meta_winner_clock pk col cv dbv sq ord t) k =
     (if k = (pk, col) then Some \<lparr>m_col_version = cv, m_db_version = dbv, m_site_id = ord, m_seq = sq\<rparr>
      else map_of t k)"
  by (simp add: meta_winner_clock_def update_conv')

lemma meta_pkexists_iff: "meta_pkexists pk t \<longleftrightarrow> (\<exists>col. map_of t (pk, col) \<noteq> None)"
proof -
  have "meta_pkexists pk t \<longleftrightarrow> (\<exists>col. (pk, col) \<in> fst ` set t)"
    by (force simp: meta_pkexists_def)
  then show ?thesis by (simp add: map_of_eq_None_iff)
qed

lemmas map_of_stmts = map_of_update_row map_of_upsert map_of_row_drop map_of_zero_clock map_of_winner_clock

text \<open>The primary key of the clock table stays a key.\<close>

definition keys_ok :: "meta_table \<Rightarrow> bool" where
  "keys_ok t \<longleftrightarrow> distinct (map fst t)"

lemma keys_ok_stmts:
  assumes "keys_ok t"
  shows "keys_ok (update_row key f t)" "keys_ok (upsert key new upd t)" "keys_ok (meta_row_drop pk t)"
    "keys_ok (meta_zero_clock dbv pk t)" "keys_ok (meta_winner_clock pk col cv dbv' sq ord t)"
  using assms
  by (auto simp: keys_ok_def update_row_def upsert_def meta_row_drop_def meta_zero_clock_def
      meta_winner_clock_def distinct_keys_filter distinct_keys_map_val distinct_update
      simp del: map_map split: option.split)

end
