(* ===== verification/Local.thy ===== *)
theory Local
  imports Meta
begin

text \<open>
  Recording local changes (src/src/cloudsync.c, "Local" and the SQL functions \<open>cloudsync_insert\<close>,
  \<open>cloudsync_update\<close>, \<open>cloudsync_delete\<close> that the triggers call). Every operation takes the slot of
  the table context. \<open>meta_stmt\<close> runs one statement on the clock table of that slot; it fails when
  the clock table does not exist.
\<close>

section \<open>Writing one clock row\<close>

definition meta_table_of :: "state \<Rightarrow> nat \<Rightarrow> meta_table option" where
  "meta_table_of s ti = meta_of (t_name (tbl s ti)) (db s)"

definition meta_stmt :: "nat \<Rightarrow> (meta_table \<Rightarrow> meta_table) \<Rightarrow> state \<Rightarrow> int \<times> state" where
  "meta_stmt ti f s =
     step (\<lambda>s. if meta_table_of s ti = None then (SQLITE_ERROR, s)
               else (SQLITE_DONE, s\<lparr>db := map_meta (t_name (tbl s ti)) f (db s)\<rparr>)) s"

definition local_update_sentinel :: "nat \<Rightarrow> pkblob \<Rightarrow> int \<Rightarrow> int \<Rightarrow> state \<Rightarrow> int \<times> state" where
  "local_update_sentinel ti pk db_version sq s =
     and_then (binds 3 s) (\<lambda>s. done_ok (meta_stmt ti (meta_sentinel_update db_version sq pk) s))"

definition local_mark_insert_sentinel_meta :: "nat \<Rightarrow> pkblob \<Rightarrow> int \<Rightarrow> int \<Rightarrow> state \<Rightarrow> int \<times> state" where
  "local_mark_insert_sentinel_meta ti pk db_version sq s =
     and_then (binds 5 s) (\<lambda>s. done_ok (meta_stmt ti (meta_sentinel_insert pk db_version sq) s))"

definition local_mark_insert_or_update_meta_impl ::
  "nat \<Rightarrow> pkblob \<Rightarrow> string option \<Rightarrow> int \<Rightarrow> int \<Rightarrow> int \<Rightarrow> state \<Rightarrow> int \<times> state" where
  "local_mark_insert_or_update_meta_impl ti pk col col_version db_version sq s =
     and_then (binds 7 s) (\<lambda>s. done_ok (meta_stmt ti
       (meta_row_insert_update pk (case col of Some c \<Rightarrow> c | None \<Rightarrow> RIP) col_version db_version sq) s))"

definition local_mark_insert_or_update_meta :: "nat \<Rightarrow> pkblob \<Rightarrow> string \<Rightarrow> int \<Rightarrow> int \<Rightarrow> state \<Rightarrow> int \<times> state" where
  "local_mark_insert_or_update_meta ti pk col db_version sq s =
     local_mark_insert_or_update_meta_impl ti pk (Some col) 1 db_version sq s"

definition local_mark_delete_meta :: "nat \<Rightarrow> pkblob \<Rightarrow> int \<Rightarrow> int \<Rightarrow> state \<Rightarrow> int \<times> state" where
  "local_mark_delete_meta ti pk db_version sq s =
     local_mark_insert_or_update_meta_impl ti pk None 2 db_version sq s"

definition local_drop_meta :: "nat \<Rightarrow> pkblob \<Rightarrow> state \<Rightarrow> int \<times> state" where
  "local_drop_meta ti pk s = and_then (binds 1 s) (\<lambda>s. done_ok (meta_stmt ti (meta_row_drop pk) s))"

text \<open>
  \<open>dbutils_register_function\<close> registers every SQL function, \<open>cloudsync_seq\<close> included, with
  \<open>SQLITE_DETERMINISTIC\<close>. SQLite calls a deterministic function with constant arguments once for a
  statement, at the first row (\<open>sqlite3ExprCodeRunJustOnce\<close>), any other function once for each row.
\<close>

definition DEFAULT_FLAGS_deterministic :: bool where
  "DEFAULT_FLAGS_deterministic = True"

definition function_calls :: "bool \<Rightarrow> nat \<Rightarrow> nat" where
  "function_calls deterministic rows = (if deterministic then min 1 rows else rows)"

definition row_value :: "bool \<Rightarrow> int \<Rightarrow> nat \<Rightarrow> int" where
  "row_value deterministic v0 i = (if deterministic then v0 else v0 + int i)"

definition moving_rows :: "pkblob \<Rightarrow> meta_table \<Rightarrow> nat" where
  "moving_rows oldpk t = length (filter (\<lambda>(k, _). moves oldpk k) t)"

definition update_move_stmt :: "bool \<Rightarrow> nat \<Rightarrow> pkblob \<Rightarrow> int \<Rightarrow> pkblob \<Rightarrow> state \<Rightarrow> int \<times> state" where
  "update_move_stmt deterministic ti pk db_version oldpk s =
     step (\<lambda>s. case meta_table_of s ti of None \<Rightarrow> (SQLITE_ERROR, s)
               | Some t \<Rightarrow>
                 (SQLITE_DONE,
                  s\<lparr>c_seq := c_seq s + int (function_calls deterministic (moving_rows oldpk t)),
                    db := map_meta (t_name (tbl s ti))
                      (meta_update_move pk db_version (row_value deterministic (c_seq s)) oldpk) (db s)\<rparr>)) s"

text \<open>\<open>pk\<close> is the new key and \<open>pk2\<close> the old one.\<close>

definition local_update_move_meta :: "nat \<Rightarrow> pkblob \<Rightarrow> pkblob \<Rightarrow> int \<Rightarrow> state \<Rightarrow> int \<times> state" where
  "local_update_move_meta ti pk pk2 db_version s =
     and_then (binds 3 s) (\<lambda>s. done_ok (update_move_stmt DEFAULT_FLAGS_deterministic ti pk db_version pk2 s))"

section \<open>The functions of the triggers\<close>

text \<open>The buffer on the stack has 1024 bytes; a longer key is allocated.\<close>

definition encode_key :: "sqlval list \<Rightarrow> pkblob option" where
  "encode_key vs = map_option fst (pk_encode_prikey (\<lambda>_. True) vs (Some 1024))"

definition bump :: "(int \<Rightarrow> state \<Rightarrow> int \<times> state) \<Rightarrow> state \<Rightarrow> int \<times> state" where
  "bump f s = (case BUMP_SEQ s of (sq, s) \<Rightarrow> f sq s)"

fun insert_columns :: "nat \<Rightarrow> pkblob \<Rightarrow> int \<Rightarrow> string list \<Rightarrow> state \<Rightarrow> int \<times> state" where
  "insert_columns ti pk dbv [] s = (SQLITE_OK, s)"
| "insert_columns ti pk dbv (col # cols) s =
     and_then (bump (local_mark_insert_or_update_meta ti pk col dbv) s) (insert_columns ti pk dbv cols)"

definition result_of_rc :: "int \<times> state \<Rightarrow> sql_result \<times> state" where
  "result_of_rc r = (if fst r \<noteq> SQLITE_OK then ResError SQLITE_ERROR else ResNone, snd r)"

text \<open>The value of \<open>db_version_next\<close> is used as it is, also \<open>-1\<close> after an error; an error of
  \<open>stmt_count\<close> (\<open>-1\<close>) counts as "the key exists".\<close>

definition cloudsync_insert :: "string \<Rightarrow> sqlval list \<Rightarrow> state \<Rightarrow> sql_result \<times> state" where
  "cloudsync_insert table_name args s =
     (case table_lookup table_name s of None \<Rightarrow> (ResError SQLITE_ERROR, s)
      | Some ti \<Rightarrow>
        (case encode_key (take (t_npks (tbl s ti)) args) of None \<Rightarrow> (ResError SQLITE_ERROR, s)
         | Some pk \<Rightarrow>
           (case db_version_next CLOUDSYNC_VALUE_NOTSET s of (dbv, s) \<Rightarrow>
            case stmt_count (case meta_table_of s ti of None \<Rightarrow> Inl SQLITE_ERROR
                             | Some t \<Rightarrow> Inr (Some (if meta_pkexists pk t then 1 else 0))) s of (cnt, s) \<Rightarrow>
            result_of_rc
              (and_then
                (if t_ncols (tbl s ti) = 0 then bump (local_mark_insert_sentinel_meta ti pk dbv) s
                 else if cnt \<noteq> 0 then bump (local_update_sentinel ti pk dbv) s
                 else (SQLITE_OK, s))
                (insert_columns ti pk dbv (t_cols (tbl s ti)))))))"

text \<open>The pairs (NEW.value, OLD.value) start behind the two lists of key values.\<close>

fun update_columns :: "nat \<Rightarrow> pkblob \<Rightarrow> int \<Rightarrow> string list \<Rightarrow> sqlval list \<Rightarrow> state \<Rightarrow> int \<times> state" where
  "update_columns ti pk dbv (col # cols) (new # old # vs) s =
     and_then (if dbutils_value_compare (Some new) (Some old) \<noteq> 0
               then bump (local_mark_insert_or_update_meta ti pk col dbv) s else (SQLITE_OK, s))
       (update_columns ti pk dbv cols vs)"
| "update_columns ti pk dbv _ _ s = (SQLITE_OK, s)"

definition key_changed :: "sqlval list \<Rightarrow> sqlval list \<Rightarrow> bool" where
  "key_changed news olds = list_ex (\<lambda>(n, o'). dbutils_value_compare (Some n) (Some o') \<noteq> 0) (zip news olds)"

definition cloudsync_update :: "string \<Rightarrow> sqlval list \<Rightarrow> state \<Rightarrow> sql_result \<times> state" where
  "cloudsync_update table_name args s =
     (case table_lookup table_name s of None \<Rightarrow> (ResError SQLITE_ERROR, s)
      | Some ti \<Rightarrow>
        (case db_version_next CLOUDSYNC_VALUE_NOTSET s of (dbv, s) \<Rightarrow>
         let npks = t_npks (tbl s ti); news = take npks args; olds = take npks (drop npks args) in
         (case encode_key news of None \<Rightarrow> (ResError SQLITE_ERROR, s)
          | Some pk \<Rightarrow>
            (case (if key_changed news olds then map_option Some (encode_key olds) else Some None) of
               None \<Rightarrow> (ResError SQLITE_ERROR, s)
             | Some oldpk \<Rightarrow>
               result_of_rc
                 (and_then
                   (case oldpk of None \<Rightarrow> (SQLITE_OK, s)
                    | Some pk2 \<Rightarrow>
                      and_then (bump (local_mark_delete_meta ti pk2 dbv) s) (\<lambda>s.
                      and_then (local_update_move_meta ti pk pk2 dbv s)
                        (bump (local_mark_insert_sentinel_meta ti pk dbv))))
                   (update_columns ti pk dbv (t_cols (tbl s ti)) (drop (2 * npks) args)))))))"

definition cloudsync_delete :: "string \<Rightarrow> sqlval list \<Rightarrow> state \<Rightarrow> sql_result \<times> state" where
  "cloudsync_delete table_name args s =
     (case table_lookup table_name s of None \<Rightarrow> (ResError SQLITE_ERROR, s)
      | Some ti \<Rightarrow>
        (case db_version_next CLOUDSYNC_VALUE_NOTSET s of (dbv, s) \<Rightarrow>
         (case encode_key (take (t_npks (tbl s ti)) args) of None \<Rightarrow> (ResError SQLITE_ERROR, s)
          | Some pk \<Rightarrow>
            result_of_rc (and_then (bump (local_mark_delete_meta ti pk dbv) s) (local_drop_meta ti pk)))))"

section \<open>Effects without faults\<close>

text \<open>\<open>writes ti g n s s'\<close>: the clock table of the slot changed by \<open>g\<close>, \<open>n\<close> sequence numbers were
  taken and nothing else happened.\<close>

definition writes :: "nat \<Rightarrow> (meta_table \<Rightarrow> meta_table) \<Rightarrow> int \<Rightarrow> state \<Rightarrow> state \<Rightarrow> bool" where
  "writes ti g n s s' \<longleftrightarrow>
     s' = s\<lparr>c_seq := c_seq s + n, db := map_meta (t_name (tbl s ti)) g (db s)\<rparr>"

lemma map_meta_comp: "map_meta n h (map_meta n g d) = map_meta n (h \<circ> g) d"
  by (simp add: map_meta_def comp_def split_def cong: if_cong)

lemma map_meta_id [simp]: "map_meta n (\<lambda>t. t) d = d"
proof -
  have "map (\<lambda>(m, t). (m, if str_case_eq m n then t else t)) xs = xs" for xs :: "(string \<times> meta_table) list"
    by (induction xs) auto
  then show ?thesis by (simp add: map_meta_def)
qed

lemma writes_none: "writes ti (\<lambda>t. t) 0 s s"
  by (simp add: writes_def)

lemma writes_trans:
  "writes ti g n s s1 \<Longrightarrow> writes ti h m s1 s2 \<Longrightarrow> writes ti (h \<circ> g) (n + m) s s2"
  by (simp add: writes_def tbl_def map_meta_comp)

lemma writes_fields:
  assumes "writes ti g n s s'"
  shows "faults s' = faults s" "c_tables s' = c_tables s" "tbl s' i = tbl s i" "c_seq s' = c_seq s + n"
    "meta_table_of s' ti = map_option g (meta_table_of s ti)" "c_insync s' = c_insync s"
    "c_tables_count s' = c_tables_count s" "c_pending_db_version s' = c_pending_db_version s"
    "d_users (db s') = d_users (db s)"
  using assms by (simp_all add: writes_def tbl_def meta_table_of_def meta_of_map_meta)

lemma meta_stmt_ok:
  "faults s = [] \<Longrightarrow> meta_table_of s ti \<noteq> None \<Longrightarrow> \<exists>s'. meta_stmt ti g s = (101, s') \<and> writes ti g 0 s s'"
  by (simp add: meta_stmt_def writes_def)

text \<open>Each local statement writes its function of the table.\<close>

lemma local_stmts_ok:
  assumes "faults s = []" "meta_table_of s ti \<noteq> None"
  shows "\<exists>s'. local_update_sentinel ti pk dbv sq s = (0, s') \<and> writes ti (meta_sentinel_update dbv sq pk) 0 s s'"
    "\<exists>s'. local_mark_insert_sentinel_meta ti pk dbv sq s = (0, s') \<and> writes ti (meta_sentinel_insert pk dbv sq) 0 s s'"
    "\<exists>s'. local_mark_insert_or_update_meta ti pk col dbv sq s = (0, s') \<and>
       writes ti (meta_row_insert_update pk col 1 dbv sq) 0 s s'"
    "\<exists>s'. local_mark_delete_meta ti pk dbv sq s = (0, s') \<and> writes ti (meta_row_insert_update pk RIP 2 dbv sq) 0 s s'"
    "\<exists>s'. local_drop_meta ti pk s = (0, s') \<and> writes ti (meta_row_drop pk) 0 s s'"
  using meta_stmt_ok [OF assms]
  by (auto simp: local_update_sentinel_def local_mark_insert_sentinel_meta_def local_drop_meta_def
      local_mark_insert_or_update_meta_def local_mark_delete_meta_def
      local_mark_insert_or_update_meta_impl_def assms) (metis done_ok_simps(1))+

lemma bump_ok:
  assumes "\<And>sq s. faults s = [] \<Longrightarrow> meta_table_of s ti \<noteq> None \<Longrightarrow> \<exists>s'. f sq s = (0, s') \<and> writes ti (g sq) 0 s s'"
    and "faults s = []" "meta_table_of s ti \<noteq> None"
  shows "\<exists>s'. bump f s = (0, s') \<and> writes ti (g (c_seq s)) 1 s s'"
proof -
  let ?s = "s\<lparr>c_seq := c_seq s + 1\<rparr>"
  have "meta_table_of ?s ti \<noteq> None" using assms(3) by (simp add: meta_table_of_def tbl_def)
  then obtain s' where "f (c_seq s) ?s = (0, s')" "writes ti (g (c_seq s)) 0 ?s s'"
    using assms(1) [of ?s "c_seq s"] assms(2) by auto
  moreover have "writes ti (\<lambda>t. t) 1 s ?s" by (simp add: writes_def)
  ultimately show ?thesis using writes_trans [of ti "\<lambda>t. t" 1 s ?s "g (c_seq s)" 0 s']
    by (simp add: bump_def BUMP_SEQ_def comp_def)
qed

text \<open>The columns of an inserted row, one statement each, in order.\<close>

fun insert_cols_meta :: "pkblob \<Rightarrow> int \<Rightarrow> int \<Rightarrow> string list \<Rightarrow> meta_table \<Rightarrow> meta_table" where
  "insert_cols_meta pk dbv sq [] t = t"
| "insert_cols_meta pk dbv sq (c # cs) t =
     insert_cols_meta pk dbv (sq + 1) cs (meta_row_insert_update pk c 1 dbv sq t)"

lemma insert_columns_ok:
  "faults s = [] \<Longrightarrow> meta_table_of s ti \<noteq> None \<Longrightarrow>
   \<exists>s'. insert_columns ti pk dbv cols s = (0, s') \<and>
     writes ti (insert_cols_meta pk dbv (c_seq s) cols) (int (length cols)) s s'"
proof (induction cols arbitrary: s)
  case Nil
  then show ?case using writes_none by simp
next
  case (Cons c cols)
  obtain s1 where s1: "bump (local_mark_insert_or_update_meta ti pk c dbv) s = (0, s1)"
    "writes ti (meta_row_insert_update pk c 1 dbv (c_seq s)) 1 s s1"
    using bump_ok [of ti "local_mark_insert_or_update_meta ti pk c dbv", OF local_stmts_ok(3) Cons.prems] by blast
  note f = writes_fields [OF s1(2)]
  obtain s2 where "insert_columns ti pk dbv cols s1 = (0, s2)"
    "writes ti (insert_cols_meta pk dbv (c_seq s1) cols) (int (length cols)) s1 s2"
    using Cons.IH [of s1] Cons.prems f by auto
  moreover from this have "writes ti (insert_cols_meta pk dbv (c_seq s1) cols \<circ> meta_row_insert_update pk c 1 dbv (c_seq s))
      (1 + int (length cols)) s s2"
    using writes_trans s1(2) by blast
  moreover have "insert_cols_meta pk dbv (c_seq s1) cols \<circ> meta_row_insert_update pk c 1 dbv (c_seq s)
      = insert_cols_meta pk dbv (c_seq s) (c # cols)"
    using f(4) by (simp add: fun_eq_iff)
  ultimately show ?case using s1(1) by (simp del: insert_cols_meta.simps add: add.commute)
qed

text \<open>What the columns of an inserted row leave in the clock table.\<close>

lemma map_of_row_insert_update:
  "map_of (meta_row_insert_update pk col cv dbv sq t) k =
     (if k = (pk, col)
      then Some (case map_of t (pk, col) of
          None \<Rightarrow> \<lparr>m_col_version = cv, m_db_version = dbv, m_site_id = 0, m_seq = sq\<rparr>
        | Some r \<Rightarrow> r\<lparr>m_col_version := m_col_version r + 1, m_db_version := dbv, m_seq := sq, m_site_id := 0\<rparr>)
      else map_of t k)"
  by (simp add: meta_row_insert_update_def map_of_upsert)

lemma map_of_insert_cols_other:
  "fst k \<noteq> pk \<or> snd k \<notin> set cols \<Longrightarrow> map_of (insert_cols_meta pk dbv sq cols t) k = map_of t k"
  by (induction cols arbitrary: sq t) (auto simp: map_of_row_insert_update)

lemma map_of_insert_cols:
  assumes "distinct cols" "i < length cols"
  shows "map_of (insert_cols_meta pk dbv sq cols t) (pk, cols ! i) =
    map_of (meta_row_insert_update pk (cols ! i) 1 dbv (sq + int i) t) (pk, cols ! i)"
  using assms
proof (induction cols arbitrary: sq t i)
  case (Cons c cols)
  show ?case
  proof (cases i)
    case 0
    with Cons.prems show ?thesis by (simp add: map_of_insert_cols_other)
  next
    case (Suc j)
    with Cons.prems have "cols ! j \<noteq> c" by auto
    with Suc Cons show ?thesis by (simp add: map_of_row_insert_update split: option.split)
  qed
qed simp

lemma insert_cols_pkexists:
  "meta_pkexists p (insert_cols_meta pk dbv sq cols t) \<longleftrightarrow> meta_pkexists p t \<or> (p = pk \<and> cols \<noteq> [])"
  by (induction cols arbitrary: sq t)
    (auto simp: meta_pkexists_iff map_of_row_insert_update split: if_splits)

text \<open>The causal length after each kind of write.\<close>

lemma local_cl_insert_cols:
  assumes "RIP \<notin> set cols"
  shows "meta_local_cl pk (insert_cols_meta pk dbv sq cols t) =
    (if meta_pkexists pk t \<or> cols = [] then meta_local_cl pk t else 1)"
proof -
  have "map_of (insert_cols_meta pk dbv sq cols t) (pk, RIP) = map_of t (pk, RIP)"
    using assms by (intro map_of_insert_cols_other) simp
  moreover have "map_of t (pk, RIP) = Some r \<Longrightarrow> meta_pkexists pk t" for r
    by (auto simp: meta_pkexists_iff)
  ultimately show ?thesis
    by (auto simp: meta_local_cl_def insert_cols_pkexists split: option.splits)
qed

lemma local_cl_other:
  "(\<And>col. map_of t' (pk, col) = map_of t (pk, col)) \<Longrightarrow> meta_local_cl pk t' = meta_local_cl pk t"
  by (simp add: meta_local_cl_def meta_pkexists_iff)

lemma local_cl_sentinel:
  "map_of t (pk, RIP) = Some r \<Longrightarrow> meta_local_cl pk t = m_col_version r"
  by (simp add: meta_local_cl_def)

lemma sentinel_bump_odd: "sentinel_bump v mod 2 = 1"
  unfolding sentinel_bump_def by presburger

text \<open>\<open>cloudsync_insert\<close> in a state without faults, after its version \<open>dbv\<close> was handed out.\<close>

definition insert_meta :: "pkblob \<Rightarrow> int \<Rightarrow> int \<Rightarrow> string list \<Rightarrow> meta_table \<Rightarrow> meta_table" where
  "insert_meta pk dbv sq cols t =
     (if cols = [] then meta_sentinel_insert pk dbv sq t
      else if meta_pkexists pk t then insert_cols_meta pk dbv (sq + 1) cols (meta_sentinel_update dbv sq pk t)
      else insert_cols_meta pk dbv sq cols t)"

lemma cloudsync_insert_ok:
  assumes ti: "table_lookup name s = Some ti" and pk: "encode_key (take (t_npks (tbl s ti)) args) = Some pk"
    and nxt: "db_version_next (-1) s = (dbv, s1)" and ready: "faults s1 = []" "meta_table_of s ti = Some t"
  obtains s' g n where "cloudsync_insert name args s = (ResNone, s')" "writes ti g n s1 s'"
    "g t = insert_meta pk dbv (c_seq s) (t_cols (tbl s ti)) t"
proof -
  let ?cols = "t_cols (tbl s ti)"
  note f = db_version_next_fields [OF nxt]
  have tbl1: "tbl s1 i = tbl s i" for i by (rule tbl_cong [OF f(3)])
  have t1: "meta_table_of s1 ti = Some t" using ready(2) f(1) tbl1 by (simp add: meta_table_of_def)
  define cnt :: int where "cnt = (if meta_pkexists pk t then 1 else 0)"
  have cnt: "stmt_count (case meta_table_of s1 ti of None \<Rightarrow> Inl SQLITE_ERROR
      | Some t \<Rightarrow> Inr (Some (if meta_pkexists pk t then 1 else 0))) s1 = (cnt, s1)"
    using ready(1) t1 by (simp add: stmt_count_def cnt_def)
  let ?first = "if t_ncols (tbl s ti) = 0 then bump (local_mark_insert_sentinel_meta ti pk dbv) s1
      else if cnt \<noteq> 0 then bump (local_update_sentinel ti pk dbv) s1 else (SQLITE_OK, s1)"
  have run: "cloudsync_insert name args s = result_of_rc (and_then ?first (insert_columns ti pk dbv ?cols))"
    by (simp add: cloudsync_insert_def ti pk nxt cnt tbl1)
  define g where "g = (if ?cols = [] then meta_sentinel_insert pk dbv (c_seq s)
      else if meta_pkexists pk t then meta_sentinel_update dbv (c_seq s) pk else (\<lambda>t. t))"
  define m :: int where "m = (if ?cols = [] \<or> meta_pkexists pk t then 1 else 0)"
  obtain s2 where s2: "?first = (0, s2)" "writes ti g m s1 s2"
    using bump_ok [of ti "local_mark_insert_sentinel_meta ti pk dbv" "meta_sentinel_insert pk dbv" s1, OF local_stmts_ok(2)]
      bump_ok [of ti "local_update_sentinel ti pk dbv" "\<lambda>sq. meta_sentinel_update dbv sq pk" s1, OF local_stmts_ok(1)]
      ready(1) t1 f(2) writes_none [of ti s1]
    by (cases "?cols = []"; cases "meta_pkexists pk t") (auto simp: g_def m_def cnt_def)
  note w = writes_fields [OF s2(2)]
  obtain s3 where s3: "insert_columns ti pk dbv ?cols s2 = (0, s3)"
    "writes ti (insert_cols_meta pk dbv (c_seq s2) ?cols) (int (length ?cols)) s2 s3"
    using insert_columns_ok [of s2 ti pk dbv ?cols] ready(1) t1 w(1,5) by auto
  have "(insert_cols_meta pk dbv (c_seq s2) ?cols \<circ> g) t = insert_meta pk dbv (c_seq s) ?cols t"
    using f(2) w(4) by (simp add: insert_meta_def g_def m_def)
  moreover have "cloudsync_insert name args s = (ResNone, s3)"
    unfolding run s2(1) by (simp add: s3(1) result_of_rc_def)
  ultimately show ?thesis using that writes_trans [OF s2(2) s3(2)] by blast
qed

text \<open>The causal length after an insert: odd, and the next odd number after a delete.\<close>

lemma map_of_sentinel_insert:
  "map_of (meta_sentinel_insert pk dbv sq t) k =
     (if k = (pk, RIP)
      then Some (case map_of t (pk, RIP) of
          None \<Rightarrow> \<lparr>m_col_version = 1, m_db_version = dbv, m_site_id = 0, m_seq = sq\<rparr>
        | Some r \<Rightarrow> r\<lparr>m_col_version := sentinel_bump (m_col_version r), m_db_version := dbv, m_seq := sq, m_site_id := 0\<rparr>)
      else map_of t k)"
  by (simp add: meta_sentinel_insert_def map_of_upsert)

lemma map_of_sentinel_update:
  "map_of (meta_sentinel_update dbv sq pk t) k =
     (if k = (pk, RIP)
      then map_option (\<lambda>r. r\<lparr>m_col_version := sentinel_bump (m_col_version r), m_db_version := dbv, m_seq := sq, m_site_id := 0\<rparr>)
             (map_of t (pk, RIP))
      else map_of t k)"
  by (simp add: meta_sentinel_update_def map_of_update_row)

lemma sentinel_update_pkexists [simp]:
  "meta_pkexists p (meta_sentinel_update dbv sq pk t) = meta_pkexists p t"
proof -
  have "(map_of (meta_sentinel_update dbv sq pk t) (p, c) = None) = (map_of t (p, c) = None)" for c
    by (auto simp: map_of_sentinel_update)
  then show ?thesis by (simp only: meta_pkexists_iff)
qed

lemma sentinel_update_cl:
  "meta_local_cl pk (meta_sentinel_update dbv sq pk t) =
     (if map_of t (pk, RIP) = None then meta_local_cl pk t else sentinel_bump (meta_local_cl pk t))"
  by (auto simp: meta_local_cl_def map_of_sentinel_update split: option.splits)

definition insert_cl :: "int \<Rightarrow> int \<Rightarrow> bool" where
  "insert_cl old new \<longleftrightarrow> new mod 2 = 1 \<and> old \<le> new \<and> (old mod 2 = 0 \<longrightarrow> new = old + 1)"

lemma insert_cl_bump: "insert_cl v (sentinel_bump v)"
  by (simp add: insert_cl_def sentinel_bump_odd) (simp add: sentinel_bump_def)

lemma insert_meta_cl:
  assumes "RIP \<notin> set cols"
  shows "insert_cl (meta_local_cl pk t) (meta_local_cl pk (insert_meta pk dbv sq cols t))"
proof (cases "map_of t (pk, RIP)")
  case None
  then have cl: "meta_local_cl pk t = (if meta_pkexists pk t then 1 else 0)" by (simp add: meta_local_cl_def)
  have "meta_local_cl pk (insert_meta pk dbv sq cols t) = 1"
  proof (cases "cols = []")
    case True
    then show ?thesis using None
      by (simp add: insert_meta_def meta_local_cl_def map_of_sentinel_insert)
  next
    case False
    then show ?thesis using None cl assms
      by (simp add: insert_meta_def local_cl_insert_cols sentinel_update_cl)
  qed
  with cl show ?thesis by (simp add: insert_cl_def)
next
  case (Some r)
  then have ex: "meta_pkexists pk t" by (auto simp: meta_pkexists_iff)
  have "meta_local_cl pk (insert_meta pk dbv sq cols t) = sentinel_bump (meta_local_cl pk t)"
  proof (cases "cols = []")
    case True
    then show ?thesis using Some
      by (simp add: insert_meta_def meta_local_cl_def map_of_sentinel_insert)
  next
    case False
    then show ?thesis using Some ex assms
      by (simp add: insert_meta_def local_cl_insert_cols sentinel_update_cl)
  qed
  then show ?thesis by (simp add: insert_cl_bump)
qed

lemma insert_meta_other:
  "fst k \<noteq> pk \<Longrightarrow> map_of (insert_meta pk dbv sq cols t) k = map_of t k"
  by (cases k) (auto simp: insert_meta_def map_of_insert_cols_other map_of_sentinel_insert map_of_sentinel_update)

lemma insert_meta_column:
  assumes "distinct cols" "RIP \<notin> set cols" "i < length cols"
  shows "\<exists>r. map_of (insert_meta pk dbv sq cols t) (pk, cols ! i) = Some r \<and> m_db_version r = dbv \<and> m_site_id r = 0 \<and>
    m_col_version r = (case map_of t (pk, cols ! i) of None \<Rightarrow> 1 | Some r0 \<Rightarrow> m_col_version r0 + 1)"
proof -
  have ne: "cols \<noteq> []" using assms(3) by auto
  have "cols ! i \<in> set cols" using assms(3) by simp
  then have ne2: "cols ! i \<noteq> RIP" using assms(2) by metis
  have "map_of (meta_sentinel_update dbv sq pk t) (pk, cols ! i) = map_of t (pk, cols ! i)"
    using ne2 by (simp add: map_of_sentinel_update)
  then show ?thesis using ne map_of_insert_cols [OF assms(1,3)]
    by (simp add: insert_meta_def map_of_row_insert_update split: option.split)
qed

section \<open>Delete and update\<close>

definition delete_meta :: "pkblob \<Rightarrow> int \<Rightarrow> int \<Rightarrow> meta_table \<Rightarrow> meta_table" where
  "delete_meta pk dbv sq t = meta_row_drop pk (meta_row_insert_update pk RIP 2 dbv sq t)"

lemma cloudsync_delete_ok:
  assumes ti: "table_lookup name s = Some ti" and pk: "encode_key (take (t_npks (tbl s ti)) args) = Some pk"
    and nxt: "db_version_next (-1) s = (dbv, s1)" and ready: "faults s1 = []" "meta_table_of s ti = Some t"
  obtains s' where "cloudsync_delete name args s = (ResNone, s')" "writes ti (delete_meta pk dbv (c_seq s)) 1 s1 s'"
proof -
  note f = db_version_next_fields [OF nxt]
  have tbl1: "tbl s1 i = tbl s i" for i by (rule tbl_cong [OF f(3)])
  have t1: "meta_table_of s1 ti = Some t" using ready(2) f(1) tbl1 by (simp add: meta_table_of_def)
  obtain s2 where s2: "bump (local_mark_delete_meta ti pk dbv) s1 = (0, s2)"
    "writes ti (meta_row_insert_update pk RIP 2 dbv (c_seq s)) 1 s1 s2"
    using bump_ok [of ti "local_mark_delete_meta ti pk dbv" "\<lambda>sq. meta_row_insert_update pk RIP 2 dbv sq" s1,
        OF local_stmts_ok(4)] ready(1) t1 f(2) by auto
  note w = writes_fields [OF s2(2)]
  obtain s3 where s3: "local_drop_meta ti pk s2 = (0, s3)" "writes ti (meta_row_drop pk) 0 s2 s3"
    using local_stmts_ok(5) [of s2 ti pk] ready(1) t1 w(1,5) by auto
  have "cloudsync_delete name args s = (ResNone, s3)"
    by (simp add: cloudsync_delete_def ti pk nxt tbl1 s2(1) s3(1) result_of_rc_def)
  moreover have "meta_row_drop pk \<circ> meta_row_insert_update pk RIP 2 dbv (c_seq s) = delete_meta pk dbv (c_seq s)"
    by (simp add: fun_eq_iff delete_meta_def)
  ultimately show ?thesis using that writes_trans [OF s2(2) s3(2)] by simp
qed

lemma map_of_delete_meta:
  "map_of (delete_meta pk dbv sq t) k =
     (if fst k = pk then (if snd k = RIP then map_of (meta_row_insert_update pk RIP 2 dbv sq t) (pk, RIP) else None)
      else map_of t k)"
  by (cases k) (auto simp: delete_meta_def map_of_row_drop moves_def map_of_row_insert_update)

text \<open>A delete of a live row gives the next even causal length.\<close>

lemma delete_meta_cl:
  assumes "meta_local_cl pk t mod 2 = 1"
  shows "meta_local_cl pk (delete_meta pk dbv sq t) = meta_local_cl pk t + 1"
  using assms
  by (auto simp: meta_local_cl_def map_of_delete_meta map_of_row_insert_update split: option.splits if_splits)

section \<open>Moving a row to another key\<close>

lemma map_of_moved_rows:
  assumes "distinct ks" "j < length ks"
  shows "map_of (map (\<lambda>(i, k). (k, g i)) (List.enumerate n ks)) (ks ! j) = Some (g (n + j))"
  using assms
proof (induction ks arbitrary: n j)
  case (Cons k ks)
  then show ?case by (cases j) auto
qed simp

lemma map_of_moved_none:
  "k \<notin> set ks \<Longrightarrow> map_of (map (\<lambda>(i, k). (k, g i)) (List.enumerate n ks)) k = None"
  by (auto simp: map_of_eq_None_iff in_set_enumerate_eq)

definition move_targets :: "pkblob \<Rightarrow> pkblob \<Rightarrow> meta_table \<Rightarrow> meta_key list" where
  "move_targets pk oldpk t = map (\<lambda>(k, _). (pk, snd k)) (filter (\<lambda>(k, _). moves oldpk k) t)"

lemma distinct_move_targets:
  assumes "keys_ok t"
  shows "distinct (move_targets pk oldpk t)"
proof -
  have "inj_on snd (set (map fst (filter (\<lambda>(k, _). moves oldpk k) t)))"
    by (auto simp: inj_on_def moves_def)
  then have "distinct (map snd (map fst (filter (\<lambda>(k, _). moves oldpk k) t)))"
    using assms distinct_keys_filter [of t "\<lambda>(k, _). moves oldpk k"] unfolding keys_ok_def
    by (subst distinct_map) blast
  then have "distinct (map (Pair pk) (map snd (map fst (filter (\<lambda>(k, _). moves oldpk k) t))))"
    by (subst distinct_map) (auto simp: inj_on_def)
  then show ?thesis by (simp add: move_targets_def comp_def split_def)
qed

lemma move_targets_set:
  "k \<in> set (move_targets pk oldpk t) \<longleftrightarrow> fst k = pk \<and> snd k \<noteq> RIP \<and> map_of t (oldpk, snd k) \<noteq> None"
proof -
  have "map_of t (oldpk, snd k) \<noteq> None \<longleftrightarrow> (oldpk, snd k) \<in> fst ` set t" by (simp add: map_of_eq_None_iff)
  then show ?thesis by (cases k) (force simp: move_targets_def moves_def)
qed

text \<open>The effect on each key: the columns of the old key are at the new key with version 1, each at its
  place in the order of the rows; sentinels stay.\<close>

lemma map_of_update_move:
  assumes "keys_ok t" "pk \<noteq> oldpk"
  shows "j < length (move_targets pk oldpk t) \<Longrightarrow>
      map_of (meta_update_move pk dbv sq oldpk t) (move_targets pk oldpk t ! j) =
        Some \<lparr>m_col_version = 1, m_db_version = dbv, m_site_id = 0, m_seq = sq j\<rparr>"
    and "moves oldpk k \<Longrightarrow> map_of (meta_update_move pk dbv sq oldpk t) k = None"
    and "k \<notin> set (move_targets pk oldpk t) \<Longrightarrow> \<not> moves oldpk k \<Longrightarrow>
      map_of (meta_update_move pk dbv sq oldpk t) k = map_of t k"
proof -
  let ?T = "move_targets pk oldpk t"
  let ?rest = "filter (\<lambda>(k, _). \<not> moves oldpk k \<and> k \<notin> set ?T) t"
  let ?new = "map (\<lambda>(i, k). (k, \<lparr>m_col_version = 1, m_db_version = dbv, m_site_id = 0, m_seq = sq i\<rparr>)) (List.enumerate 0 ?T)"
  have eq: "meta_update_move pk dbv sq oldpk t = ?rest @ ?new"
    by (simp add: meta_update_move_def move_targets_def Let_def)
  have rest: "map_of ?rest k = (if \<not> moves oldpk k \<and> k \<notin> set ?T then map_of t k else None)" for k
    by (rule map_of_filter_key)
  have new: "map_of ?new k = None" if "k \<notin> set ?T" for k using that by (rule map_of_moved_none)
  show "map_of (meta_update_move pk dbv sq oldpk t) (?T ! j) =
        Some \<lparr>m_col_version = 1, m_db_version = dbv, m_site_id = 0, m_seq = sq j\<rparr>" if "j < length ?T"
  proof -
    have "map_of ?rest (?T ! j) = None" using that by (simp add: rest)
    moreover have "map_of ?new (?T ! j) = Some \<lparr>m_col_version = 1, m_db_version = dbv, m_site_id = 0, m_seq = sq j\<rparr>"
      using map_of_moved_rows [OF distinct_move_targets [OF assms(1)] that,
          where g = "\<lambda>i. \<lparr>m_col_version = 1, m_db_version = dbv, m_site_id = 0, m_seq = sq i\<rparr>" and n = 0]
      by simp
    ultimately show ?thesis unfolding eq map_of_append by (simp only: map_add_def option.case)
  qed
  show "map_of (meta_update_move pk dbv sq oldpk t) k = None" if "moves oldpk k"
  proof -
    have "k \<notin> set ?T" using that assms(2) by (auto simp: move_targets_set moves_def)
    with that show ?thesis unfolding eq map_of_append using rest new by (simp add: map_add_def)
  qed
  show "map_of (meta_update_move pk dbv sq oldpk t) k = map_of t k" if "k \<notin> set ?T" "\<not> moves oldpk k"
  proof -
    have "map_of ?rest k = map_of t k" using that by (simp add: rest)
    then show ?thesis unfolding eq map_of_append using new [OF that(1)]
      by (simp only: map_add_def split: option.split) simp
  qed
qed

section \<open>cloudsync\_update\<close>

lemma update_move_ok:
  assumes "faults s = []" "meta_table_of s ti = Some t"
  shows "\<exists>s' n. local_update_move_meta ti pk oldpk dbv s = (0, s') \<and>
    writes ti (meta_update_move pk dbv (row_value DEFAULT_FLAGS_deterministic (c_seq s)) oldpk) n s s'"
  using assms by (auto simp: local_update_move_meta_def update_move_stmt_def writes_def)

fun update_cols_meta :: "pkblob \<Rightarrow> int \<Rightarrow> int \<Rightarrow> string list \<Rightarrow> sqlval list \<Rightarrow> meta_table \<Rightarrow> meta_table" where
  "update_cols_meta pk dbv sq (c # cs) (new # old # vs) t =
     (if dbutils_value_compare (Some new) (Some old) \<noteq> 0
      then update_cols_meta pk dbv (sq + 1) cs vs (meta_row_insert_update pk c 1 dbv sq t)
      else update_cols_meta pk dbv sq cs vs t)"
| "update_cols_meta pk dbv sq _ _ t = t"

lemma update_cols_meta_none:
  "update_cols_meta pk dbv sq [] vs = (\<lambda>t. t)" "update_cols_meta pk dbv sq cs [] = (\<lambda>t. t)"
  "update_cols_meta pk dbv sq cs [v] = (\<lambda>t. t)"
  by (cases cs; simp add: fun_eq_iff)+

lemma update_columns_ok:
  "faults s = [] \<Longrightarrow> meta_table_of s ti \<noteq> None \<Longrightarrow>
   \<exists>s' n. update_columns ti pk dbv cols vs s = (0, s') \<and>
     writes ti (update_cols_meta pk dbv (c_seq s) cols vs) n s s'"
proof (induction ti pk dbv cols vs s rule: update_columns.induct)
  case (1 ti pk dbv c cols new old vs s)
  show ?case
  proof (cases "dbutils_value_compare (Some new) (Some old) = 0")
    case True
    with 1 show ?thesis by simp
  next
    case False
    obtain s1 where s1: "bump (local_mark_insert_or_update_meta ti pk c dbv) s = (0, s1)"
      "writes ti (meta_row_insert_update pk c 1 dbv (c_seq s)) 1 s s1"
      using bump_ok [of ti "local_mark_insert_or_update_meta ti pk c dbv", OF local_stmts_ok(3) 1(2,3)] by blast
    note f = writes_fields [OF s1(2)]
    obtain s2 n where s2: "update_columns ti pk dbv cols vs s1 = (0, s2)"
      "writes ti (update_cols_meta pk dbv (c_seq s1) cols vs) n s1 s2"
      using 1(1) [of s1] 1(2,3) f by auto
    have "update_cols_meta pk dbv (c_seq s1) cols vs \<circ> meta_row_insert_update pk c 1 dbv (c_seq s)
        = update_cols_meta pk dbv (c_seq s) (c # cols) (new # old # vs)"
      using f(4) False by (simp add: fun_eq_iff)
    then have "writes ti (update_cols_meta pk dbv (c_seq s) (c # cols) (new # old # vs)) (1 + n) s s2"
      using writes_trans [OF s1(2) s2(2)] by simp
    moreover have "update_columns ti pk dbv (c # cols) (new # old # vs) s = (0, s2)"
      using s1(1) s2(1) False by simp
    ultimately show ?thesis by blast
  qed
qed (simp_all add: update_cols_meta_none, (rule exI, rule writes_none)+)

lemma update_cols_meta_other:
  "fst k \<noteq> pk \<or> snd k \<notin> set cols \<Longrightarrow> map_of (update_cols_meta pk dbv sq cols vs t) k = map_of t k"
  by (induction pk dbv sq cols vs t rule: update_cols_meta.induct) (auto simp: map_of_row_insert_update)

text \<open>A row of this transaction stays one.\<close>

definition own_row :: "int \<Rightarrow> meta_row option \<Rightarrow> bool" where
  "own_row dbv r \<longleftrightarrow> (case r of None \<Rightarrow> False | Some r \<Rightarrow> m_db_version r = dbv \<and> m_site_id r = 0)"

lemma update_cols_meta_own:
  "own_row dbv (map_of t k) \<Longrightarrow> own_row dbv (map_of (update_cols_meta pk dbv sq cols vs t) k)"
  by (induction pk dbv sq cols vs t rule: update_cols_meta.induct)
    (auto simp: map_of_row_insert_update own_row_def split: option.splits)

lemma row_insert_update_pkexists:
  "meta_pkexists p (meta_row_insert_update pk c cv dbv sq t) \<longleftrightarrow> p = pk \<or> meta_pkexists p t"
proof -
  have "(map_of (meta_row_insert_update pk c cv dbv sq t) (p, d) \<noteq> None) =
      ((p = pk \<and> d = c) \<or> map_of t (p, d) \<noteq> None)" for d
    by (auto simp: map_of_row_insert_update)
  then show ?thesis unfolding meta_pkexists_iff by auto
qed

lemma update_cols_meta_pkexists:
  "meta_pkexists p t \<Longrightarrow> meta_pkexists p (update_cols_meta pk dbv sq cols vs t)"
  by (induction pk dbv sq cols vs t rule: update_cols_meta.induct)
    (auto simp: row_insert_update_pkexists)

text \<open>The clock table after a key change, before the value columns are looked at.\<close>

definition rekey_meta :: "pkblob \<Rightarrow> pkblob \<Rightarrow> int \<Rightarrow> int \<Rightarrow> int \<Rightarrow> meta_table \<Rightarrow> meta_table" where
  "rekey_meta pk oldpk dbv sq sq' t =
     meta_sentinel_insert pk dbv sq'
       (meta_update_move pk dbv (row_value DEFAULT_FLAGS_deterministic (sq + 1)) oldpk
         (meta_row_insert_update oldpk RIP 2 dbv sq t))"

lemma cloudsync_update_key_ok:
  assumes ti: "table_lookup name s = Some ti" and nxt: "db_version_next (-1) s = (dbv, s1)"
    and news: "news = take (t_npks (tbl s ti)) args" and olds: "olds = take (t_npks (tbl s ti)) (drop (t_npks (tbl s ti)) args)"
    and keys: "encode_key news = Some pk" "encode_key olds = Some oldpk" "key_changed news olds"
    and ready: "faults s1 = []" "meta_table_of s ti = Some t"
  obtains s' g n sq' sq'' where "cloudsync_update name args s = (ResNone, s')" "writes ti g n s1 s'"
    "g t = update_cols_meta pk dbv sq'' (t_cols (tbl s ti)) (drop (2 * t_npks (tbl s ti)) args)
      (rekey_meta pk oldpk dbv (c_seq s) sq' t)"
proof -
  note f = db_version_next_fields [OF nxt]
  have tbl1: "tbl s1 i = tbl s i" for i by (rule tbl_cong [OF f(3)])
  have t1: "meta_table_of s1 ti = Some t" using ready(2) f(1) tbl1 by (simp add: meta_table_of_def)
  obtain s2 where s2: "bump (local_mark_delete_meta ti oldpk dbv) s1 = (0, s2)"
    "writes ti (meta_row_insert_update oldpk RIP 2 dbv (c_seq s)) 1 s1 s2"
    using bump_ok [of ti "local_mark_delete_meta ti oldpk dbv" "\<lambda>sq. meta_row_insert_update oldpk RIP 2 dbv sq" s1,
        OF local_stmts_ok(4)] ready(1) t1 f(2) by auto
  note w2 = writes_fields [OF s2(2)]
  obtain t2 where t2: "meta_table_of s2 ti = Some t2" using w2(5) t1 by simp
  obtain s3 n3 where s3: "local_update_move_meta ti pk oldpk dbv s2 = (0, s3)"
    "writes ti (meta_update_move pk dbv (row_value DEFAULT_FLAGS_deterministic (c_seq s + 1)) oldpk) n3 s2 s3"
    using update_move_ok [of s2 ti t2 pk oldpk dbv] ready(1) t2 w2(1,4) f(2) by auto
  note w3 = writes_fields [OF s3(2)]
  obtain s4 where s4: "bump (local_mark_insert_sentinel_meta ti pk dbv) s3 = (0, s4)"
    "writes ti (meta_sentinel_insert pk dbv (c_seq s3)) 1 s3 s4"
    using bump_ok [of ti "local_mark_insert_sentinel_meta ti pk dbv" "meta_sentinel_insert pk dbv" s3,
        OF local_stmts_ok(2)] ready(1) t2 w2(1) w3(1,5) by auto
  note w4 = writes_fields [OF s4(2)]
  let ?cols = "t_cols (tbl s ti)" and ?vs = "drop (2 * t_npks (tbl s ti)) args"
  obtain s5 n5 where s5: "update_columns ti pk dbv ?cols ?vs s4 = (0, s5)"
    "writes ti (update_cols_meta pk dbv (c_seq s4) ?cols ?vs) n5 s4 s5"
    using update_columns_ok [of s4 ti pk dbv ?cols ?vs] ready(1) t2 w2(1) w3(1,5) w4(1,5) by auto
  have "cloudsync_update name args s = (ResNone, s5)"
    using keys by (simp add: cloudsync_update_def ti nxt tbl1 news [symmetric] olds [symmetric] Let_def
        s2(1) s3(1) s4(1) s5(1) result_of_rc_def)
  moreover note writes_trans [OF writes_trans [OF writes_trans [OF s2(2) s3(2)] s4(2)] s5(2)]
  ultimately show ?thesis
    by (rule that) (simp add: rekey_meta_def)
qed

text \<open>What a key change leaves at the old key, at the new key and elsewhere.\<close>

lemma rekey_meta_facts:
  assumes "keys_ok t" "pk \<noteq> oldpk"
  shows "map_of (rekey_meta pk oldpk dbv sq sq' t) (oldpk, RIP) = map_of (meta_row_insert_update oldpk RIP 2 dbv sq t) (oldpk, RIP)"
    and "moves oldpk k \<Longrightarrow> map_of (rekey_meta pk oldpk dbv sq sq' t) k = None"
    and "map_of (rekey_meta pk oldpk dbv sq sq' t) (pk, RIP) = map_of (meta_sentinel_insert pk dbv sq' t) (pk, RIP)"
    and "c \<noteq> RIP \<Longrightarrow> map_of t (oldpk, c) \<noteq> None \<Longrightarrow> own_row dbv (map_of (rekey_meta pk oldpk dbv sq sq' t) (pk, c))"
    and "fst k \<noteq> pk \<Longrightarrow> fst k \<noteq> oldpk \<Longrightarrow> map_of (rekey_meta pk oldpk dbv sq sq' t) k = map_of t k"
proof -
  let ?t1 = "meta_row_insert_update oldpk RIP 2 dbv sq t"
  have k1: "keys_ok ?t1" using assms(1) by (simp add: meta_row_insert_update_def keys_ok_stmts)
  note mv = map_of_update_move [OF k1 assms(2)]
  have target: "k \<in> set (move_targets pk oldpk ?t1) \<longleftrightarrow> fst k = pk \<and> snd k \<noteq> RIP \<and> map_of t (oldpk, snd k) \<noteq> None" for k
    by (auto simp: move_targets_set map_of_row_insert_update)
  show "map_of (rekey_meta pk oldpk dbv sq sq' t) (oldpk, RIP) = map_of ?t1 (oldpk, RIP)"
    using mv(3) [of "(oldpk, RIP)"] assms(2) target by (simp add: rekey_meta_def map_of_sentinel_insert moves_def)
  show "moves oldpk k \<Longrightarrow> map_of (rekey_meta pk oldpk dbv sq sq' t) k = None"
    using mv(2) [of k] by (auto simp: rekey_meta_def map_of_sentinel_insert moves_def)
  show "map_of (rekey_meta pk oldpk dbv sq sq' t) (pk, RIP) = map_of (meta_sentinel_insert pk dbv sq' t) (pk, RIP)"
    using mv(3) [of "(pk, RIP)"] assms(2) target
    by (simp add: rekey_meta_def map_of_sentinel_insert moves_def map_of_row_insert_update)
  show "fst k \<noteq> pk \<Longrightarrow> fst k \<noteq> oldpk \<Longrightarrow> map_of (rekey_meta pk oldpk dbv sq sq' t) k = map_of t k"
    using mv(3) [of k] target by (cases k) (auto simp: rekey_meta_def map_of_sentinel_insert moves_def map_of_row_insert_update)
  assume c: "c \<noteq> RIP" "map_of t (oldpk, c) \<noteq> None"
  then have "(pk, c) \<in> set (move_targets pk oldpk ?t1)" by (simp add: target)
  then obtain j where j: "j < length (move_targets pk oldpk ?t1)" "move_targets pk oldpk ?t1 ! j = (pk, c)"
    by (auto simp: in_set_conv_nth)
  show "own_row dbv (map_of (rekey_meta pk oldpk dbv sq sq' t) (pk, c))"
    using mv(1) [OF j(1)] j(2) c(1) by (simp add: rekey_meta_def map_of_sentinel_insert own_row_def)
qed

text \<open>With one call for each row, as for a function that is not registered as deterministic, the sequence
  numbers of the moved rows are distinct.\<close>

lemma move_distinct_when_called_per_row:
  assumes "keys_ok t" "pk \<noteq> oldpk" "i < j" "j < length (move_targets pk oldpk t)"
  shows "map_option m_seq (map_of (meta_update_move pk dbv (row_value False q) oldpk t) (move_targets pk oldpk t ! i)) \<noteq>
    map_option m_seq (map_of (meta_update_move pk dbv (row_value False q) oldpk t) (move_targets pk oldpk t ! j))"
  using map_of_update_move(1) [OF assms(1,2), of i dbv "row_value False q"]
    map_of_update_move(1) [OF assms(1,2,4), of dbv "row_value False q"] assms(3,4)
  by (simp add: row_value_def)

section \<open>Properties\<close>

text \<open>A table with one key column and one value column, for the witnesses.\<close>

definition demo_table :: table_ctx where
  "demo_table = \<lparr>t_algo = table_algo_crdt_cls, t_name = ''t'', t_cols = [''c''], t_col_ids = [1],
     t_npks = 1, t_enabled = True, t_pk_name = None\<rparr>"

definition local_demo :: state where
  "local_demo = demo_state\<lparr>c_tables := Some demo_table # replicate 127 None, c_tables_count := 1\<rparr>"

definition local_delete_demo :: state where
  "local_delete_demo = snd (cloudsync_insert ''t'' [VText [97]] local_demo)"

text \<open>C9. Recording an insert: the causal length of the key becomes odd (alive), one more than it was after
  a delete and never less than before; every column of the table has a clock row of this site with the
  version of the transaction, its column version counted up; no other key is touched.\<close>

theorem cloudsync_insert_records:
  assumes "table_lookup name s = Some ti" "encode_key (take (t_npks (tbl s ti)) args) = Some pk"
    and "db_version_next (-1) s = (dbv, s1)" "faults s1 = []" "meta_table_of s ti = Some t"
    and "distinct (t_cols (tbl s ti))" "RIP \<notin> set (t_cols (tbl s ti))"
  shows "\<exists>s' t'. cloudsync_insert name args s = (ResNone, s') \<and> meta_table_of s' ti = Some t' \<and>
    insert_cl (meta_local_cl pk t) (meta_local_cl pk t') \<and>
    (\<forall>i < t_ncols (tbl s ti). \<exists>r. map_of t' (pk, t_cols (tbl s ti) ! i) = Some r \<and>
       m_db_version r = dbv \<and> m_site_id r = 0 \<and>
       m_col_version r = (case map_of t (pk, t_cols (tbl s ti) ! i) of None \<Rightarrow> 1 | Some r0 \<Rightarrow> m_col_version r0 + 1)) \<and>
    (\<forall>k. fst k \<noteq> pk \<longrightarrow> map_of t' k = map_of t k)"
proof -
  obtain s' g n where run: "cloudsync_insert name args s = (ResNone, s')" "writes ti g n s1 s'"
    "g t = insert_meta pk dbv (c_seq s) (t_cols (tbl s ti)) t"
    using cloudsync_insert_ok [OF assms(1-5)] .
  note f = db_version_next_fields [OF assms(3)]
  have "meta_table_of s1 ti = Some t" using assms(5) f(1) tbl_cong [OF f(3)] by (simp add: meta_table_of_def)
  then have "meta_table_of s' ti = Some (insert_meta pk dbv (c_seq s) (t_cols (tbl s ti)) t)"
    using writes_fields(5) [OF run(2)] run(3) by simp
  then show ?thesis
    using run(1) insert_meta_cl [OF assms(7)] insert_meta_column [OF assms(6,7)] insert_meta_other by blast
qed

theorem cloudsync_insert_records_witness:
  "\<exists>s' t'. cloudsync_insert ''T'' [VText [97]] local_demo = (ResNone, s') \<and> meta_table_of s' 0 = Some t' \<and>
     insert_cl 0 (meta_local_cl [1, 11, 1, 97] t')"
proof -
  have h: "table_lookup ''T'' local_demo = Some 0"
    "encode_key (take (t_npks (tbl local_demo 0)) [VText [97]]) = Some [1, 11, 1, 97]"
    "fst (db_version_next (-1) local_demo) = 8" "faults (snd (db_version_next (-1) local_demo)) = []"
    "meta_table_of local_demo 0 = Some demo_meta" "t_cols (tbl local_demo 0) = [''c'']"
    "meta_local_cl [1, 11, 1, 97] demo_meta = 0"
    by code_simp+
  have c: "distinct [''c'']" "RIP \<notin> set [''c'']" by code_simp+
  show ?thesis
    using cloudsync_insert_records [OF h(1,2) prod.collapse [symmetric] h(4,5)] h(6,7) c by auto
qed

text \<open>C10. Recording a delete of a live row: its causal length becomes the next even number and its columns
  have no clock rows any more, while the sentinel carries the version of the transaction; no other key is
  touched.\<close>

theorem cloudsync_delete_records:
  assumes "table_lookup name s = Some ti" "encode_key (take (t_npks (tbl s ti)) args) = Some pk"
    and "db_version_next (-1) s = (dbv, s1)" "faults s1 = []" "meta_table_of s ti = Some t"
    and "meta_local_cl pk t mod 2 = 1"
  shows "\<exists>s' t' r. cloudsync_delete name args s = (ResNone, s') \<and> meta_table_of s' ti = Some t' \<and>
    meta_local_cl pk t' = meta_local_cl pk t + 1 \<and> map_of t' (pk, RIP) = Some r \<and> m_db_version r = dbv \<and>
    (\<forall>k. map_of t' k = (if fst k \<noteq> pk then map_of t k else if snd k = RIP then Some r else None))"
proof -
  obtain s' where run: "cloudsync_delete name args s = (ResNone, s')" "writes ti (delete_meta pk dbv (c_seq s)) 1 s1 s'"
    using cloudsync_delete_ok [OF assms(1-5)] .
  note f = db_version_next_fields [OF assms(3)]
  have "meta_table_of s1 ti = Some t" using assms(5) f(1) tbl_cong [OF f(3)] by (simp add: meta_table_of_def)
  then have t': "meta_table_of s' ti = Some (delete_meta pk dbv (c_seq s) t)"
    using writes_fields(5) [OF run(2)] by simp
  obtain r where r: "map_of (delete_meta pk dbv (c_seq s) t) (pk, RIP) = Some r" "m_db_version r = dbv"
    by (cases "map_of t (pk, RIP)") (auto simp: map_of_delete_meta map_of_row_insert_update)
  have "map_of (delete_meta pk dbv (c_seq s) t) k =
      (if fst k \<noteq> pk then map_of t k else if snd k = RIP then Some r else None)" for k
    using r(1) by (cases k) (simp add: map_of_delete_meta)
  then show ?thesis using run(1) t' r delete_meta_cl [OF assms(6)] by blast
qed

theorem cloudsync_delete_records_witness:
  "\<exists>s' t'. cloudsync_delete ''t'' [VText [97]] local_delete_demo = (ResNone, s') \<and>
     meta_table_of s' 0 = Some t' \<and> meta_local_cl [1, 11, 1, 97] t' = 2"
proof -
  let ?s = local_delete_demo
  have h: "table_lookup ''t'' ?s = Some 0"
    "encode_key (take (t_npks (tbl ?s 0)) [VText [97]]) = Some [1, 11, 1, 97]"
    "faults (snd (db_version_next (-1) ?s)) = []"
    "meta_local_cl [1, 11, 1, 97] (the (meta_table_of ?s 0)) = 1" "meta_table_of ?s 0 \<noteq> None"
    by code_simp+
  obtain t where t: "meta_table_of ?s 0 = Some t" using h(5) by blast
  show ?thesis
    using cloudsync_delete_records [OF h(1,2) prod.collapse [symmetric] h(3) t] h(4) t by auto
qed

text \<open>C11. A change of the primary key is recorded as a delete of the old row and an insert of the new one: the
  causal length of the old key becomes even and its columns have no clock rows, the new key becomes alive,
  every column that had a clock row at the old key has one of this transaction at the new key, and no
  third key is touched.\<close>

theorem cloudsync_update_rekeys:
  assumes "table_lookup name s = Some ti" "db_version_next (-1) s = (dbv, s1)"
    and "news = take (t_npks (tbl s ti)) args" "olds = take (t_npks (tbl s ti)) (drop (t_npks (tbl s ti)) args)"
    and "encode_key news = Some pk" "encode_key olds = Some oldpk" "key_changed news olds"
    and "faults s1 = []" "meta_table_of s ti = Some t"
    and t: "keys_ok t" "pk \<noteq> oldpk" "meta_local_cl oldpk t mod 2 = 1" "RIP \<notin> set (t_cols (tbl s ti))"
  shows "\<exists>s' t'. cloudsync_update name args s = (ResNone, s') \<and> meta_table_of s' ti = Some t' \<and>
    meta_local_cl oldpk t' = meta_local_cl oldpk t + 1 \<and> (\<forall>c. c \<noteq> RIP \<longrightarrow> map_of t' (oldpk, c) = None) \<and>
    insert_cl (meta_local_cl pk t) (meta_local_cl pk t') \<and>
    (\<forall>c. c \<noteq> RIP \<longrightarrow> map_of t (oldpk, c) \<noteq> None \<longrightarrow> own_row dbv (map_of t' (pk, c))) \<and>
    (\<forall>k. fst k \<noteq> pk \<longrightarrow> fst k \<noteq> oldpk \<longrightarrow> map_of t' k = map_of t k)"
proof -
  obtain s' g n sq' sq'' where run: "cloudsync_update name args s = (ResNone, s')" "writes ti g n s1 s'"
    and g: "g t = update_cols_meta pk dbv sq'' (t_cols (tbl s ti)) (drop (2 * t_npks (tbl s ti)) args)
      (rekey_meta pk oldpk dbv (c_seq s) sq' t)"
    using cloudsync_update_key_ok [OF assms(1-9)] .
  let ?r = "rekey_meta pk oldpk dbv (c_seq s) sq' t"
  note f = db_version_next_fields [OF assms(2)]
  note r = rekey_meta_facts [OF t(1,2), where dbv = dbv and sq = "c_seq s" and sq' = sq']
  have "meta_table_of s1 ti = Some t" using assms(9) f(1) tbl_cong [OF f(3)] by (simp add: meta_table_of_def)
  then have t': "meta_table_of s' ti = Some (g t)" using writes_fields(5) [OF run(2)] by simp
  have other: "map_of (g t) k = map_of ?r k" if "fst k \<noteq> pk \<or> snd k \<notin> set (t_cols (tbl s ti))" for k
    unfolding g using that by (rule update_cols_meta_other)
  have "map_of (g t) (oldpk, RIP) = map_of (meta_row_insert_update oldpk RIP 2 dbv (c_seq s) t) (oldpk, RIP)"
    using other [of "(oldpk, RIP)"] r(1) t(2) by simp
  then have 1: "meta_local_cl oldpk (g t) = meta_local_cl oldpk t + 1"
    using t(3) by (auto simp: meta_local_cl_def map_of_row_insert_update split: option.splits if_splits)
  have 2: "map_of (g t) (oldpk, c) = None" if "c \<noteq> RIP" for c
    using other [of "(oldpk, c)"] r(2) [of "(oldpk, c)"] that t(2) by (simp add: moves_def)
  have "map_of (g t) (pk, RIP) = map_of (meta_sentinel_insert pk dbv sq' t) (pk, RIP)"
    using other [of "(pk, RIP)"] r(3) t(4) by simp
  then have "meta_local_cl pk (g t) = (case map_of t (pk, RIP) of None \<Rightarrow> 1 | Some r \<Rightarrow> sentinel_bump (m_col_version r))"
    by (auto simp: meta_local_cl_def map_of_sentinel_insert split: option.splits)
  then have 3: "insert_cl (meta_local_cl pk t) (meta_local_cl pk (g t))"
    using insert_cl_bump by (auto simp: meta_local_cl_def insert_cl_def split: option.splits)
  have 4: "own_row dbv (map_of (g t) (pk, c))" if "c \<noteq> RIP" "map_of t (oldpk, c) \<noteq> None" for c
    unfolding g by (rule update_cols_meta_own) (rule r(4) [OF that])
  have 5: "map_of (g t) k = map_of t k" if "fst k \<noteq> pk" "fst k \<noteq> oldpk" for k
    using other [of k] r(5) [OF that] that by simp
  show ?thesis using run(1) t' 1 2 3 4 5 by blast
qed

definition rekey_args :: "sqlval list" where
  "rekey_args = [VText [98], VText [97], VInteger 1, VInteger 1]"

theorem cloudsync_update_rekeys_witness:
  "\<exists>s' t'. cloudsync_update ''t'' rekey_args local_delete_demo = (ResNone, s') \<and> meta_table_of s' 0 = Some t' \<and>
     meta_local_cl [1, 11, 1, 97] t' = 2 \<and> insert_cl 0 (meta_local_cl [1, 11, 1, 98] t')"
proof -
  let ?s = local_delete_demo
  have h: "table_lookup ''t'' ?s = Some 0" "encode_key [VText [98]] = Some [1, 11, 1, 98]"
    "encode_key [VText [97]] = Some [1, 11, 1, 97]" "key_changed [VText [98]] [VText [97]]"
    "faults (snd (db_version_next (-1) ?s)) = []" "meta_table_of ?s 0 \<noteq> None"
    "take (t_npks (tbl ?s 0)) rekey_args = [VText [98]]"
    "take (t_npks (tbl ?s 0)) (drop (t_npks (tbl ?s 0)) rekey_args) = [VText [97]]"
    "keys_ok (the (meta_table_of ?s 0))" "meta_local_cl [1, 11, 1, 97] (the (meta_table_of ?s 0)) = 1"
    "meta_local_cl [1, 11, 1, 98] (the (meta_table_of ?s 0)) = 0" "RIP \<notin> set (t_cols (tbl ?s 0))"
    by code_simp+
  obtain t where t: "meta_table_of ?s 0 = Some t" using h(6) by blast
  show ?thesis
    using cloudsync_update_rekeys [OF h(1) prod.collapse [symmetric] h(7,8) [symmetric] h(2,3,4,5) t] h(9-12) t
    by auto
qed

text \<open>The rows that move to a new key all get the same sequence number, the one \<open>cloudsync_seq()\<close>
  returns when SQLite calls it once for the statement.\<close>

theorem moved_rows_share_seq:
  assumes "faults s = []" "meta_table_of s ti = Some t" "keys_ok t" "pk \<noteq> oldpk"
  shows "\<exists>s' t'. local_update_move_meta ti pk oldpk dbv s = (SQLITE_OK, s') \<and> meta_table_of s' ti = Some t' \<and>
    (\<forall>c. c \<noteq> RIP \<longrightarrow> map_of t (oldpk, c) \<noteq> None \<longrightarrow> map_of t' (pk, c) =
       Some \<lparr>m_col_version = 1, m_db_version = dbv, m_site_id = 0, m_seq = c_seq s\<rparr>)"
proof -
  let ?v = "row_value DEFAULT_FLAGS_deterministic (c_seq s)"
  obtain s' n where run: "local_update_move_meta ti pk oldpk dbv s = (0, s')"
    "writes ti (meta_update_move pk dbv ?v oldpk) n s s'"
    using update_move_ok [OF assms(1,2)] by blast
  have v: "?v i = c_seq s" for i by (simp add: row_value_def DEFAULT_FLAGS_deterministic_def)
  have "map_of (meta_update_move pk dbv ?v oldpk t) (pk, c) =
      Some \<lparr>m_col_version = 1, m_db_version = dbv, m_site_id = 0, m_seq = c_seq s\<rparr>"
    if c: "c \<noteq> RIP" "map_of t (oldpk, c) \<noteq> None" for c
  proof -
    have "(pk, c) \<in> set (move_targets pk oldpk t)" using c by (simp add: move_targets_set)
    then obtain j where "j < length (move_targets pk oldpk t)" "move_targets pk oldpk t ! j = (pk, c)"
      by (auto simp: in_set_conv_nth)
    then show ?thesis using map_of_update_move(1) [OF assms(3,4), of j dbv ?v] v by simp
  qed
  moreover have "meta_table_of s' ti = Some (meta_update_move pk dbv ?v oldpk t)"
    using writes_fields(5) [OF run(2)] assms(2) by simp
  ultimately show ?thesis using run(1) by blast
qed

definition two_columns :: meta_table where
  "two_columns = [(([1], ''a''), \<lparr>m_col_version = 1, m_db_version = 7, m_site_id = 0, m_seq = 0\<rparr>),
     (([1], ''b''), \<lparr>m_col_version = 1, m_db_version = 7, m_site_id = 0, m_seq = 1\<rparr>)]"

theorem moved_rows_share_seq_witness:
  "\<exists>s' t'. local_update_move_meta 0 [2] [1] 8 (local_demo\<lparr>db := demo_db\<lparr>d_meta := [(''t'', two_columns)]\<rparr>\<rparr>) = (0, s') \<and>
     meta_table_of s' 0 = Some t' \<and> map_option m_seq (map_of t' ([2], ''a'')) = map_option m_seq (map_of t' ([2], ''b''))"
proof -
  let ?s = "local_demo\<lparr>db := demo_db\<lparr>d_meta := [(''t'', two_columns)]\<rparr>\<rparr>"
  have h: "faults ?s = []" "meta_table_of ?s 0 = Some two_columns" "keys_ok two_columns"
    "map_of two_columns ([1], ''a'') \<noteq> None" "map_of two_columns ([1], ''b'') \<noteq> None"
    "''a'' \<noteq> RIP" "''b'' \<noteq> RIP"
    by code_simp+
  show ?thesis
    using moved_rows_share_seq [OF h(1-3), of "[2]" "[1]" 8] h(4-7) by fastforce
qed

end
