(* ===== verification/Rows.thy ===== *)
theory Rows
  imports Local
begin

text \<open>
  The application's tables and the triggers that \<open>dbutils_check_triggers\<close> (src/src/dbutils.c) puts on
  them. Every write to a row, by the application or by the merge statements, fires the triggers; they
  ask \<open>cloudsync_is_sync\<close> (or \<open>cloudsync_is_enabled\<close> for a grow-only table) before they act. A trigger
  that raises an error takes the statement's changes of the database back.

  A row is known by the values of its key columns; the values of the other columns are found by the
  name of the column in lower case.
\<close>

section \<open>Rows\<close>

type_synonym row = "(string \<times> sqlval) list"

definition value_names :: "user_table \<Rightarrow> string list" where
  "value_names u = map (\<lambda>c. lowercase (col_name c)) (filter (\<lambda>c. col_pk c = 0) (u_columns u))"

definition default_row :: "user_table \<Rightarrow> row" where
  "default_row u = map (\<lambda>c. (lowercase (col_name c), case col_dflt c of Some v \<Rightarrow> v | None \<Rightarrow> VNull))
     (filter (\<lambda>c. col_pk c = 0) (u_columns u))"

definition get_col :: "string \<Rightarrow> row \<Rightarrow> sqlval" where
  "get_col col r = (case map_of r (lowercase col) of Some v \<Rightarrow> v | None \<Rightarrow> VNull)"

definition set_col :: "string \<Rightarrow> sqlval \<Rightarrow> row \<Rightarrow> row" where
  "set_col col v r = AList.update (lowercase col) v r"

text \<open>Some \<open>NOT NULL\<close> column has no value.\<close>

definition lacks_value :: "user_table \<Rightarrow> row \<Rightarrow> bool" where
  "lacks_value u r = list_ex (\<lambda>c. col_pk c = 0 \<and> col_notnull c \<and> get_col (col_name c) r = VNull) (u_columns u)"

definition map_rows :: "string \<Rightarrow> ((sqlval list \<times> row) list \<Rightarrow> (sqlval list \<times> row) list) \<Rightarrow> database \<Rightarrow> database" where
  "map_rows name f d =
     d\<lparr>d_users := map (\<lambda>(n, u). (n, if str_case_eq n name then u\<lparr>u_rows := f (u_rows u)\<rparr> else u)) (d_users d)\<rparr>"

definition row_of :: "string \<Rightarrow> sqlval list \<Rightarrow> database \<Rightarrow> row option" where
  "row_of name pks d = (case user_table_of name d of None \<Rightarrow> None | Some u \<Rightarrow> map_of (u_rows u) pks)"

section \<open>Triggers\<close>

definition has_trigger :: "string \<Rightarrow> string \<Rightarrow> database \<Rightarrow> bool" where
  "has_trigger prefix name d = list_ex (\<lambda>n. str_case_eq n (prefix @ name)) (d_triggers d)"

definition after_insert :: "string \<Rightarrow> sqlval list \<Rightarrow> state \<Rightarrow> sql_result \<times> state" where
  "after_insert name pks s =
     (if has_trigger ''cloudsync_after_insert_'' name (db s) \<and> cloudsync_is_sync name s = 0
      then cloudsync_insert name pks s else (ResNone, s))"

text \<open>NEW keys, OLD keys, then NEW and OLD of each value column in turn.\<close>

definition update_args :: "user_table \<Rightarrow> sqlval list \<Rightarrow> sqlval list \<Rightarrow> row \<Rightarrow> row \<Rightarrow> sqlval list" where
  "update_args u newpks oldpks new old =
     newpks @ oldpks @ concat (map (\<lambda>c. [get_col c new, get_col c old]) (value_names u))"

definition after_update ::
  "string \<Rightarrow> user_table \<Rightarrow> sqlval list \<Rightarrow> sqlval list \<Rightarrow> row \<Rightarrow> row \<Rightarrow> state \<Rightarrow> sql_result \<times> state" where
  "after_update name u newpks oldpks new old s =
     (if has_trigger ''cloudsync_after_update_'' name (db s) \<and> cloudsync_is_sync name s = 0
      then cloudsync_update name (update_args u newpks oldpks new old) s else (ResNone, s))"

definition after_delete :: "string \<Rightarrow> sqlval list \<Rightarrow> state \<Rightarrow> sql_result \<times> state" where
  "after_delete name pks s =
     (if has_trigger ''cloudsync_after_delete_'' name (db s) \<and> cloudsync_is_sync name s = 0
      then cloudsync_delete name pks s else (ResNone, s))"

text \<open>\<open>RAISE(ABORT)\<close> on a grow-only table that is switched on.\<close>

definition raises :: "string \<Rightarrow> string \<Rightarrow> state \<Rightarrow> bool" where
  "raises prefix name s \<longleftrightarrow> has_trigger prefix name (db s) \<and> cloudsync_is_enabled name s = 1"

definition with_trigger :: "(state \<Rightarrow> sql_result \<times> state) \<Rightarrow> database \<Rightarrow> state \<Rightarrow> int \<times> state" where
  "with_trigger fire d s =
     (case fire (s\<lparr>db := d\<rparr>) of
        (ResError _, s') \<Rightarrow> (SQLITE_ERROR, s'\<lparr>db := db s\<rparr>) | (_, s') \<Rightarrow> (SQLITE_DONE, s'))"

section \<open>Statements on rows\<close>

definition insert_row :: "string \<Rightarrow> sqlval list \<Rightarrow> row \<Rightarrow> state \<Rightarrow> int \<times> state" where
  "insert_row name pks r s =
     with_trigger (after_insert name pks) (map_rows name (AList.update pks r) (db s)) s"

definition update_row_to ::
  "string \<Rightarrow> user_table \<Rightarrow> sqlval list \<Rightarrow> sqlval list \<Rightarrow> row \<Rightarrow> row \<Rightarrow> state \<Rightarrow> int \<times> state" where
  "update_row_to name u newpks oldpks new old s =
     (if raises ''cloudsync_before_update_'' name s then (SQLITE_CONSTRAINT, s)
      else with_trigger (after_update name u newpks oldpks new old)
             (map_rows name (AList.update newpks new \<circ> AList.delete oldpks) (db s)) s)"

definition delete_row :: "string \<Rightarrow> sqlval list \<Rightarrow> state \<Rightarrow> int \<times> state" where
  "delete_row name pks s =
     (if raises ''cloudsync_before_delete_'' name s then (SQLITE_CONSTRAINT, s)
      else with_trigger (after_delete name pks) (map_rows name (AList.delete pks) (db s)) s)"

text \<open>The application's statements: an \<open>INSERT\<close> of a new key, an \<open>UPDATE\<close> and a \<open>DELETE\<close> of one row.\<close>

definition app_insert :: "string \<Rightarrow> sqlval list \<Rightarrow> row \<Rightarrow> state \<Rightarrow> int \<times> state" where
  "app_insert name pks r s =
     (case user_table_of name (db s) of None \<Rightarrow> (SQLITE_ERROR, s)
      | Some u \<Rightarrow>
        if VNull \<in> set pks \<or> lacks_value u r \<or> row_of name pks (db s) \<noteq> None then (SQLITE_CONSTRAINT, s)
        else insert_row name pks r s)"

definition app_update :: "string \<Rightarrow> sqlval list \<Rightarrow> sqlval list \<Rightarrow> row \<Rightarrow> state \<Rightarrow> int \<times> state" where
  "app_update name newpks oldpks new s =
     (case user_table_of name (db s) of None \<Rightarrow> (SQLITE_ERROR, s)
      | Some u \<Rightarrow> (case row_of name oldpks (db s) of None \<Rightarrow> (SQLITE_DONE, s)
          | Some old \<Rightarrow>
              if VNull \<in> set newpks \<or> lacks_value u new \<or> (newpks \<noteq> oldpks \<and> row_of name newpks (db s) \<noteq> None)
              then (SQLITE_CONSTRAINT, s) else update_row_to name u newpks oldpks new old s))"

definition app_delete :: "string \<Rightarrow> sqlval list \<Rightarrow> state \<Rightarrow> int \<times> state" where
  "app_delete name pks s =
     (if user_table_of name (db s) = None then (SQLITE_ERROR, s)
      else if row_of name pks (db s) = None then (SQLITE_DONE, s) else delete_row name pks s)"

text \<open>\<open>INSERT INTO t (pk, col) VALUES (?, ?) ON CONFLICT DO UPDATE SET col=?\<close> (\<open>col_merge_stmt\<close>): SQLite looks
  at the \<open>NOT NULL\<close> columns of the new row before it looks for a row with the same key.\<close>

definition real_merge_upsert :: "string \<Rightarrow> string \<Rightarrow> sqlval list \<Rightarrow> sqlval \<Rightarrow> sqlval \<Rightarrow> state \<Rightarrow> int \<times> state" where
  "real_merge_upsert name col pks v w s =
     (case user_table_of name (db s) of None \<Rightarrow> (SQLITE_ERROR, s)
      | Some u \<Rightarrow>
        let new = set_col col v (default_row u) in
        if VNull \<in> set pks \<or> lacks_value u new then (SQLITE_CONSTRAINT, s)
        else (case map_of (u_rows u) pks of
                None \<Rightarrow> insert_row name pks new s
              | Some old \<Rightarrow> if lacks_value u (set_col col w old) then (SQLITE_CONSTRAINT, s)
                  else update_row_to name u pks pks (set_col col w old) old s))"

text \<open>\<open>DELETE FROM t WHERE pk=?\<close> (\<open>real_merge_delete_stmt\<close>)\<close>

definition real_merge_delete :: "string \<Rightarrow> sqlval list \<Rightarrow> state \<Rightarrow> int \<times> state" where
  "real_merge_delete name pks s = app_delete name pks s"

text \<open>\<open>INSERT OR IGNORE INTO t (pk) VALUES (?)\<close> (\<open>real_merge_sentinel_stmt\<close>)\<close>

definition real_merge_sentinel :: "string \<Rightarrow> sqlval list \<Rightarrow> state \<Rightarrow> int \<times> state" where
  "real_merge_sentinel name pks s =
     (case user_table_of name (db s) of None \<Rightarrow> (SQLITE_ERROR, s)
      | Some u \<Rightarrow> if VNull \<in> set pks \<or> lacks_value u (default_row u) \<or> map_of (u_rows u) pks \<noteq> None
                  then (SQLITE_DONE, s) else insert_row name pks (default_row u) s)"

text \<open>\<open>SELECT col FROM t WHERE pk=?\<close> (\<open>col_value_stmt\<close>)\<close>

definition real_col_value :: "string \<Rightarrow> string \<Rightarrow> sqlval list \<Rightarrow> database \<Rightarrow> sqlval option" where
  "real_col_value name col pks d = map_option (get_col col) (row_of name pks d)"

section \<open>Rows after a write\<close>

lemma user_table_of_map_rows:
  "user_table_of n (map_rows name f d) =
     (if str_case_eq n name then map_option (\<lambda>u. u\<lparr>u_rows := f (u_rows u)\<rparr>) (user_table_of n d) else user_table_of n d)"
proof -
  have "assoc_get str_case_eq n (map (\<lambda>(m, u). (m, if str_case_eq m name then u\<lparr>u_rows := f (u_rows u)\<rparr> else u)) xs) =
      (if str_case_eq n name then map_option (\<lambda>u. u\<lparr>u_rows := f (u_rows u)\<rparr>) (assoc_get str_case_eq n xs)
       else assoc_get str_case_eq n xs)" for xs :: "(string \<times> user_table) list"
    by (induction xs) (auto simp: str_case_eq_def [abs_def])
  then show ?thesis by (simp add: user_table_of_def map_rows_def)
qed

lemma map_rows_fields [simp]:
  "d_meta (map_rows n f d) = d_meta d" "d_settings (map_rows n f d) = d_settings d"
  "d_triggers (map_rows n f d) = d_triggers d" "d_site_ids (map_rows n f d) = d_site_ids d"
  "d_table_settings (map_rows n f d) = d_table_settings d"
  "d_pragma_data_version (map_rows n f d) = d_pragma_data_version d"
  "d_pragma_schema_version (map_rows n f d) = d_pragma_schema_version d"
  "d_schema_versions (map_rows n f d) = d_schema_versions d"
  by (simp_all add: map_rows_def)

text \<open>While \<open>insync\<close> is set no trigger acts, and a write changes only the rows of its table.\<close>

lemma in_sync_silent:
  assumes "c_insync s"
  shows "after_insert n pks s = (ResNone, s)" "after_update n u a b x y s = (ResNone, s)"
    "after_delete n pks s = (ResNone, s)"
  using assms by (simp_all add: after_insert_def after_update_def after_delete_def cloudsync_is_sync_def)

lemma with_trigger_silent:
  assumes "\<And>s. c_insync s \<Longrightarrow> fire s = (ResNone, s)" "c_insync s"
  shows "with_trigger fire d s = (SQLITE_DONE, s\<lparr>db := d\<rparr>)"
  using assms by (simp add: with_trigger_def)

lemma insert_row_silent:
  "c_insync s \<Longrightarrow> insert_row n pks r s = (SQLITE_DONE, s\<lparr>db := map_rows n (AList.update pks r) (db s)\<rparr>)"
  unfolding insert_row_def by (intro with_trigger_silent) (auto intro: in_sync_silent)

lemma update_row_silent:
  "c_insync s \<Longrightarrow> update_row_to n u a b x y s =
     (if raises ''cloudsync_before_update_'' n s then (SQLITE_CONSTRAINT, s)
      else (SQLITE_DONE, s\<lparr>db := map_rows n (AList.update a x \<circ> AList.delete b) (db s)\<rparr>))"
  unfolding update_row_to_def by (simp add: with_trigger_silent in_sync_silent)

lemma delete_row_silent:
  "c_insync s \<Longrightarrow> delete_row n pks s =
     (if raises ''cloudsync_before_delete_'' n s then (SQLITE_CONSTRAINT, s)
      else (SQLITE_DONE, s\<lparr>db := map_rows n (AList.delete pks) (db s)\<rparr>))"
  unfolding delete_row_def by (simp add: with_trigger_silent in_sync_silent)

end
