(* ===== verification/Merge.thy ===== *)
theory Merge
  imports Rows
begin

text \<open>
  Merging one change that comes from another site (src/src/cloudsync.c, "Merge Insert"): an
  \<open>INSERT\<close> into the virtual table \<open>cloudsync_changes\<close> ends in \<open>cloudsync_merge_insert\<close>. The writes to the
  application's table run while \<open>insync\<close> is set, so that the triggers stay silent; the clock table gets the
  version, the site and the sequence number of the change.

  A function of the code that reports through the pointer \<open>rowid\<close> takes the value behind the pointer and
  returns it with its result code.
\<close>

section \<open>A change\<close>

record change =
  ch_tbl :: string
  ch_pk :: pkblob
  ch_name :: "string option"
  ch_value :: sqlval
  ch_col_version :: int
  ch_db_version :: int
  ch_site_id :: "byte list"
  ch_cl :: int
  ch_seq :: int

section \<open>Binding a decoded key\<close>

abbreviation (input) SQLITE_RANGE :: int where "SQLITE_RANGE \<equiv> 25"

text \<open>
  \<open>pk_decode_bind_callback\<close> on a statement with \<open>params\<close> parameters: each bind is a call of the engine,
  and a parameter that does not exist is refused. The accumulator holds the bindings, the last result code
  (\<open>sqlite3_errcode\<close>) and the state.
\<close>

definition bind_pk :: "nat \<Rightarrow> bindings \<times> int \<times> state \<Rightarrow> nat \<Rightarrow> sqlval \<Rightarrow> int \<times> (bindings \<times> int \<times> state)" where
  "bind_pk params acc index v =
     (case acc of (vm, _, s) \<Rightarrow>
      case next_fault s of (rc, s) \<Rightarrow>
      case pk_decode_bind_callback (\<lambda>k _. if rc \<noteq> SQLITE_OK then rc else if k \<le> params then SQLITE_OK else SQLITE_RANGE)
             vm index v of (rc, vm) \<Rightarrow> (rc, (vm, rc, s)))"

text \<open>
  \<open>rc = pk_decode_prikey(...); if (rc < 0) rc = sqlite3_errcode(...)\<close>: the result code and the bindings.
  Reading outside the buffer sets \<open>ub\<close>.
\<close>

definition bind_key :: "nat \<Rightarrow> pkblob \<Rightarrow> state \<Rightarrow> (int \<times> bindings) \<times> state" where
  "bind_key params pk s =
     (case pk_decode_prikey pk (Some (bind_pk params)) ([], SQLITE_OK, s) of
        None \<Rightarrow> ((SQLITE_ERROR, []), s\<lparr>ub := True\<rparr>)
      | Some (rc, _, vm, err, s') \<Rightarrow> ((if rc < 0 then err else SQLITE_OK, vm), s'))"

text \<open>The values the first \<open>n\<close> parameters have when the statement runs.\<close>

definition bound :: "bindings \<Rightarrow> nat \<Rightarrow> sqlval" where
  "bound vm k = (case map_of vm k of Some v \<Rightarrow> v | None \<Rightarrow> VNull)"

definition key_values :: "nat \<Rightarrow> bindings \<Rightarrow> sqlval list" where
  "key_values n vm = map (\<lambda>i. bound vm (i + 1)) [0..<n]"

section \<open>Reading the local clock\<close>

definition merge_get_local_cl :: "nat \<Rightarrow> pkblob \<Rightarrow> state \<Rightarrow> int \<times> state" where
  "merge_get_local_cl ti pk s =
     (case binds 3 s of (rc, s) \<Rightarrow>
        (if rc \<noteq> SQLITE_OK then -1
         else case meta_table_of s ti of None \<Rightarrow> -1 | Some t \<Rightarrow> meta_local_cl pk t, s))"

definition merge_get_col_version :: "nat \<Rightarrow> string \<Rightarrow> pkblob \<Rightarrow> state \<Rightarrow> (int \<times> int) \<times> state" where
  "merge_get_col_version ti col pk s =
     (case binds 3 s of (rc, s) \<Rightarrow>
        (if rc \<noteq> SQLITE_OK then (rc, 0)
         else case meta_table_of s ti of None \<Rightarrow> (SQLITE_ERROR, 0)
              | Some t \<Rightarrow> (case meta_col_version pk col t of None \<Rightarrow> (SQLITE_DONE, 0) | Some v \<Rightarrow> (SQLITE_OK, v)), s))"

section \<open>Writing the clock of the winner\<close>

text \<open>
  \<open>getset_siteid_stmt\<close>: the ordinal of a site, which gets the next free rowid when it is new. An empty
  blob is bound as NULL, which the column refuses.
\<close>

definition getset_siteid :: "byte list \<Rightarrow> state \<Rightarrow> (int \<times> int) \<times> state" where
  "getset_siteid site s =
     (case next_fault s of (rc, s) \<Rightarrow>
      if rc \<noteq> SQLITE_OK then ((rc, 0), s)
      else case d_site_ids (db s) of None \<Rightarrow> ((SQLITE_ERROR, 0), s)
      | Some ids \<Rightarrow>
        if site = [] then ((SQLITE_CONSTRAINT, 0), s)
        else (case List.find (\<lambda>(_, b). b = site) ids of
                Some (ord, _) \<Rightarrow> ((SQLITE_ROW, ord), s)
              | None \<Rightarrow>
                let ord = (case list_max (map fst ids) of None \<Rightarrow> 1 | Some m \<Rightarrow> m + 1)
                in ((SQLITE_ROW, ord), s\<lparr>db := (db s)\<lparr>d_site_ids := Some (ids @ [(ord, site)])\<rparr>\<rparr>)))"

text \<open>
  \<open>meta_winner_clock_stmt\<close> asks \<open>cloudsync_db_version_next\<close> for the version and gives resync the rowid; when
  the function fails the statement does.
\<close>

definition winner_clock_stmt ::
  "nat \<Rightarrow> pkblob \<Rightarrow> string \<Rightarrow> int \<Rightarrow> int \<Rightarrow> int \<Rightarrow> int \<Rightarrow> i64 \<Rightarrow> state \<Rightarrow> (int \<times> i64) \<times> state" where
  "winner_clock_stmt ti pk col col_version db_version sq ord r s =
     (case next_fault s of (rc, s) \<Rightarrow>
      if rc \<noteq> SQLITE_OK then ((rc, r), s)
      else if meta_table_of s ti = None then ((SQLITE_ERROR, r), s)
      else case cloudsync_db_version_next (Some db_version) s of
        (ResInt v, s) \<Rightarrow>
          ((SQLITE_OK, rowid_encode (word_of_int v) (word_of_int sq)),
           s\<lparr>db := map_meta (t_name (tbl s ti)) (meta_winner_clock pk col col_version v sq ord) (db s)\<rparr>)
      | (_, s) \<Rightarrow> ((SQLITE_ERROR, r), s))"

definition merge_set_winner_clock ::
  "nat \<Rightarrow> pkblob \<Rightarrow> string option \<Rightarrow> int \<Rightarrow> int \<Rightarrow> byte list \<Rightarrow> int \<Rightarrow> i64 \<Rightarrow> state \<Rightarrow> (int \<times> i64) \<times> state" where
  "merge_set_winner_clock ti pk colname col_version db_version site sq r s =
     (if \<not> c_getset_siteid_stmt s then ((SQLITE_MISUSE, r), s)
      else case next_fault s of (rc, s) \<Rightarrow>
      if rc \<noteq> SQLITE_OK then ((rc, r), s)
      else case getset_siteid site s of ((rc, ord), s) \<Rightarrow>
      if rc \<noteq> SQLITE_ROW then ((rc, r), s)
      else case binds 6 s of (rc, s) \<Rightarrow>
      if rc \<noteq> SQLITE_OK then ((rc, r), s)
      else winner_clock_stmt ti pk (case colname of Some c \<Rightarrow> c | None \<Rightarrow> RIP) col_version db_version sq ord r s)"

text \<open>The statement of \<open>merge_zeroclock_on_resurrect\<close> asks for a version when there is a row to change.\<close>

definition zero_clock_stmt :: "nat \<Rightarrow> int \<Rightarrow> pkblob \<Rightarrow> state \<Rightarrow> int \<times> state" where
  "zero_clock_stmt ti db_version pk s =
     step (\<lambda>s. case meta_table_of s ti of None \<Rightarrow> (SQLITE_ERROR, s)
       | Some t \<Rightarrow>
         if moving_rows pk t = 0 then (SQLITE_DONE, s)
         else (case cloudsync_db_version_next (Some db_version) s of
                 (ResInt v, s) \<Rightarrow>
                   (SQLITE_DONE, s\<lparr>db := map_meta (t_name (tbl s ti)) (meta_zero_clock v pk) (db s)\<rparr>)
               | (_, s) \<Rightarrow> (SQLITE_ERROR, s))) s"

definition merge_zeroclock_on_resurrect :: "nat \<Rightarrow> int \<Rightarrow> pkblob \<Rightarrow> state \<Rightarrow> int \<times> state" where
  "merge_zeroclock_on_resurrect ti db_version pk s =
     and_then (binds 2 s) (\<lambda>s. done_ok (zero_clock_stmt ti db_version pk s))"

section \<open>Writing the row\<close>

text \<open>\<open>SYNCBIT_SET; rc = sqlite3_step(vm); SYNCBIT_RESET\<close>\<close>

definition in_sync :: "(state \<Rightarrow> int \<times> state) \<Rightarrow> state \<Rightarrow> int \<times> state" where
  "in_sync stmt s =
     (case step stmt (s\<lparr>c_insync := True\<rparr>) of (rc, s) \<Rightarrow> (rc, s\<lparr>c_insync := False\<rparr>))"

definition merge_insert_col ::
  "nat \<Rightarrow> pkblob \<Rightarrow> string \<Rightarrow> sqlval \<Rightarrow> int \<Rightarrow> int \<Rightarrow> byte list \<Rightarrow> int \<Rightarrow> i64 \<Rightarrow> state \<Rightarrow> (int \<times> i64) \<times> state" where
  "merge_insert_col ti pk cname col_value col_version db_version site sq r s =
     (let t = tbl s ti in
      case table_column_lookup t cname of None \<Rightarrow> ((SQLITE_MISUSE, r), s)
      | Some index \<Rightarrow>
        (case bind_key (t_npks t + 2) pk s of ((rc, vm), s) \<Rightarrow>
         if rc \<noteq> SQLITE_OK then ((rc, r), s)
         else case binds 2 s of (rc, s) \<Rightarrow>
         if rc \<noteq> SQLITE_OK then ((rc, r), s)
         else
          let s = (if t_algo t = table_algo_crdt_gos then upd_tbl ti (t_enabled_update (\<lambda>_. False)) s else s) in
          case in_sync (real_merge_upsert (t_name t) (t_cols t ! index) (key_values (t_npks t) vm) col_value col_value) s of (rc, s) \<Rightarrow>
          let s = (if t_algo t = table_algo_crdt_gos then upd_tbl ti (t_enabled_update (\<lambda>_. True)) s else s) in
          if rc \<noteq> SQLITE_DONE then ((rc, r), s)
          else merge_set_winner_clock ti pk (Some cname) col_version db_version site sq r s))"

definition merge_delete ::
  "nat \<Rightarrow> pkblob \<Rightarrow> string \<Rightarrow> int \<Rightarrow> int \<Rightarrow> byte list \<Rightarrow> int \<Rightarrow> i64 \<Rightarrow> state \<Rightarrow> (int \<times> i64) \<times> state" where
  "merge_delete ti pk colname cl db_version site sq r s =
     (let t = tbl s ti in
      case bind_key (t_npks t) pk s of ((rc, vm), s) \<Rightarrow>
      if rc \<noteq> SQLITE_OK then ((rc, 0), s)
      else case done_ok (in_sync (real_merge_delete (t_name t) (key_values (t_npks t) vm)) s) of (rc, s) \<Rightarrow>
      if rc \<noteq> SQLITE_OK then ((rc, 0), s)
      else case merge_set_winner_clock ti pk (Some colname) cl db_version site sq 0 s of ((rc, r'), s) \<Rightarrow>
      if rc \<noteq> SQLITE_OK then ((rc, r'), s)
      else case and_then (next_fault s) (\<lambda>s. done_ok (meta_stmt ti (meta_row_drop pk) s)) of (rc, s) \<Rightarrow> ((rc, r'), s))"

definition merge_sentinel_only_insert ::
  "nat \<Rightarrow> pkblob \<Rightarrow> int \<Rightarrow> int \<Rightarrow> byte list \<Rightarrow> int \<Rightarrow> i64 \<Rightarrow> state \<Rightarrow> (int \<times> i64) \<times> state" where
  "merge_sentinel_only_insert ti pk cl db_version site sq r s =
     (let t = tbl s ti in
      case bind_key (t_npks t) pk s of ((rc, vm), s) \<Rightarrow>
      if rc \<noteq> SQLITE_OK then ((rc, 0), s)
      else case done_ok (in_sync (real_merge_sentinel (t_name t) (key_values (t_npks t) vm)) s) of (rc, s) \<Rightarrow>
      if rc \<noteq> SQLITE_OK then ((rc, 0), s)
      else case merge_zeroclock_on_resurrect ti db_version pk s of (rc, s) \<Rightarrow>
      if rc \<noteq> SQLITE_OK then ((rc, 0), s)
      else merge_set_winner_clock ti pk None cl db_version site sq 0 s)"

section \<open>Who wins\<close>

text \<open>The bytes of a non-negative number in decimal, as SQLite converts an INTEGER for
  \<open>sqlite3_column_blob\<close>.\<close>

definition text_bytes :: "string \<Rightarrow> byte list" where
  "text_bytes xs = map of_char xs"

text \<open>
  With \<open>merge_equal_values\<close> the site decides between equal values: the blob of the incoming site is compared
  with the column \<open>site_id\<close> of the clock row, which is an ordinal and not a blob; \<open>memcmp\<close> is told to read
  \<open>site_len\<close> bytes of its decimal text and the NUL behind it, also when there are fewer.
\<close>

definition compare_site_ids :: "nat \<Rightarrow> string \<Rightarrow> pkblob \<Rightarrow> byte list \<Rightarrow> state \<Rightarrow> (int \<times> bool) \<times> state" where
  "compare_site_ids ti col pk site s =
     (case binds 2 s of (rc, s) \<Rightarrow>
      if rc \<noteq> SQLITE_OK then ((rc, False), s)
      else case next_fault s of (rc, s) \<Rightarrow>
      if rc \<noteq> SQLITE_OK then ((SQLITE_ERROR, False), s)
      else case (case meta_table_of s ti of None \<Rightarrow> None | Some t \<Rightarrow> meta_site_id pk col t) of
        None \<Rightarrow> ((SQLITE_ERROR, False), s)
      | Some ord \<Rightarrow>
        let local = text_bytes (show_int ord) @ [0]; cmp = memcmp site local (length site) in
        ((SQLITE_OK, cmp > 0), if length local < length site then s\<lparr>ub := True\<rparr> else s))"

definition merge_did_cid_win ::
  "nat \<Rightarrow> pkblob \<Rightarrow> sqlval \<Rightarrow> byte list \<Rightarrow> string option \<Rightarrow> int \<Rightarrow> state \<Rightarrow> (int \<times> bool) \<times> state" where
  "merge_did_cid_win ti pk insert_value site cname col_version s =
     (let col = (case cname of Some c \<Rightarrow> c | None \<Rightarrow> RIP); t = tbl s ti in
      case merge_get_col_version ti col pk s of ((rc, local_version), s) \<Rightarrow>
      if rc = SQLITE_DONE then ((SQLITE_OK, True), s)
      else if rc \<noteq> SQLITE_OK then ((rc, False), s)
      else if col_version > local_version then ((SQLITE_OK, True), s)
      else if col_version < local_version then ((SQLITE_OK, False), s)
      else case table_column_lookup t col of None \<Rightarrow> ((SQLITE_ERROR, False), s)
      | Some index \<Rightarrow>
        (case bind_key (t_npks t) pk s of ((rc, vm), s) \<Rightarrow>
         if rc \<noteq> SQLITE_OK then ((rc, False), s)
         else case next_fault s of (rc, s) \<Rightarrow>
         if rc \<noteq> SQLITE_OK then ((rc, False), s)
         else if user_table_of (t_name t) (db s) = None then ((SQLITE_ERROR, False), s)
         else
          let local_value = real_col_value (t_name t) (t_cols t ! index) (key_values (t_npks t) vm) (db s);
              ret = dbutils_value_compare (Some insert_value) local_value in
          if ret = 0 \<and> c_merge_equal_values s then compare_site_ids ti col pk site s
          else ((SQLITE_OK, ret > 0), s)))"

section \<open>Merging a change\<close>

text \<open>\<open>cloudsync_vtab_set_error\<close> leaves a message in the virtual table and returns \<open>SQLITE_ERROR\<close>; the
  message is not modelled.\<close>

definition cloudsync_merge_insert_gos :: "nat \<Rightarrow> change \<Rightarrow> i64 \<Rightarrow> state \<Rightarrow> (int \<times> i64) \<times> state" where
  "cloudsync_merge_insert_gos ti c r s =
     merge_insert_col ti (ch_pk c) (case ch_name c of Some n \<Rightarrow> n | None \<Rightarrow> RIP) (ch_value c) (ch_col_version c)
       (ch_db_version c) (ch_site_id c) (ch_seq c) r s"

definition cloudsync_merge_insert :: "change \<Rightarrow> i64 \<Rightarrow> state \<Rightarrow> (int \<times> i64) \<times> state" where
  "cloudsync_merge_insert c r s =
     (case table_lookup (ch_tbl c) s of None \<Rightarrow> ((SQLITE_ERROR, r), s)
      | Some ti \<Rightarrow>
        let insert_name = (case ch_name c of Some n \<Rightarrow> n | None \<Rightarrow> RIP) in
        if t_algo (tbl s ti) = table_algo_crdt_gos then cloudsync_merge_insert_gos ti c r s
        else case merge_get_local_cl ti (ch_pk c) s of (local_cl, s) \<Rightarrow>
        if local_cl < 0 then ((SQLITE_ERROR, r), s)
        else if ch_cl c < local_cl then ((SQLITE_OK, r), s)
        else if ch_cl c mod 2 = 0 then
          (if local_cl = ch_cl c then ((SQLITE_OK, r), s)
           else merge_delete ti (ch_pk c) insert_name (ch_col_version c) (ch_db_version c) (ch_site_id c) (ch_seq c) r s)
        else if insert_name = RIP then
          (if local_cl = ch_cl c then ((SQLITE_OK, r), s)
           else merge_sentinel_only_insert ti (ch_pk c) (ch_col_version c) (ch_db_version c) (ch_site_id c) (ch_seq c) r s)
        else
         let needs_resurrect = (ch_cl c > local_cl \<and> ch_cl c mod 2 = 1); row_exists_locally = (local_cl \<noteq> 0) in
         case (if needs_resurrect \<and> (row_exists_locally \<or> (\<not> row_exists_locally \<and> ch_cl c > 1))
               then merge_sentinel_only_insert ti (ch_pk c) (ch_cl c) (ch_db_version c) (ch_site_id c) (ch_seq c) r s
               else ((SQLITE_OK, r), s)) of ((rc, r), s) \<Rightarrow>
         if rc \<noteq> SQLITE_OK then ((rc, r), s)
         else case merge_did_cid_win ti (ch_pk c) (ch_value c) (ch_site_id c) (Some insert_name) (ch_col_version c) s of ((rc, flag), s) \<Rightarrow>
         if rc \<noteq> SQLITE_OK then ((rc, r), s)
         else if \<not> (needs_resurrect \<or> \<not> row_exists_locally \<or> flag) then ((SQLITE_OK, r), s)
         else merge_insert_col ti (ch_pk c) insert_name (ch_value c) (ch_col_version c) (ch_db_version c)
                (ch_site_id c) (ch_seq c) r s)"

section \<open>What merging keeps\<close>

text \<open>Facts that survive the writes to the clock tables, and those that also survive the statements on the
  real table.\<close>

locale write_frame = pending_frame +
  assumes keep_write:
    "P s \<Longrightarrow> P (s\<lparr>db := map_meta n f (db s)\<rparr>)" "P s \<Longrightarrow> P (s\<lparr>db := (db s)\<lparr>d_site_ids := ids\<rparr>\<rparr>)"
    "P s \<Longrightarrow> P (s\<lparr>ub := True\<rparr>)"
begin

lemma bind_pk_keeps: "P (snd (snd acc)) \<Longrightarrow> P (snd (snd (snd (bind_pk n acc i v))))"
  by (cases acc) (auto simp: bind_pk_def split: prod.split, metis next_fault_keeps snd_conv)

lemma pk_decode_loop_keeps:
  "P (snd (snd acc)) \<Longrightarrow> pk_decode_loop (Some (bind_pk n)) buf i m sk acc = Some r \<Longrightarrow>
   P (snd (snd (case r of Inl x \<Rightarrow> x | Inr (_, x) \<Rightarrow> x)))"
proof (induction m arbitrary: i sk acc)
  case (Suc m)
  obtain v sk' where v: "pk_decode_value buf sk = Some (v, sk')"
    using Suc.prems(2) by (auto split: option.splits)
  obtain rc acc' where b: "bind_pk n acc i v = (rc, acc')"
    by (cases "bind_pk n acc i v") simp
  have "P (snd (snd acc'))" using bind_pk_keeps [OF Suc.prems(1), of n i v] b by simp
  then show ?case using Suc v b by (auto split: if_splits)
qed auto

lemma bind_key_keeps [keeps]: "P s \<Longrightarrow> P (snd (bind_key n pk s))"
  by (auto simp: bind_key_def pk_decode_prikey_def pk_decode_def keep_write split: option.splits sum.splits
      dest: pk_decode_loop_keeps [rotated])

lemma getset_siteid_keeps [keeps]: "P s \<Longrightarrow> P (snd (getset_siteid site s))"
  unfolding getset_siteid_def by (intro keeps keep_write; assumption)

lemma next_function_keeps [keeps]: "P s \<Longrightarrow> P (snd (cloudsync_db_version_next v s))"
  unfolding cloudsync_db_version_next_def by (intro keeps)

lemma inner_pair_keeps: "(\<And>a b. P (snd (f a b))) \<Longrightarrow> P (snd (case_prod f r))"
  by (cases r) simp

lemma sql_result_keeps [keeps]:
  "P (snd a) \<Longrightarrow> (\<And>v. P (snd (b v))) \<Longrightarrow> (\<And>v. P (snd (c v))) \<Longrightarrow> (\<And>v. P (snd (d v))) \<Longrightarrow>
   P (snd (case_sql_result a b c d r))"
  by (cases r) simp_all

lemma winner_clock_stmt_keeps [keeps]: "P s \<Longrightarrow> P (snd (winner_clock_stmt ti pk col cv dbv sq ord r s))"
  unfolding winner_clock_stmt_def by (intro keeps keep_write)

lemma merge_set_winner_clock_keeps [keeps]:
  "P s \<Longrightarrow> P (snd (merge_set_winner_clock ti pk col cv dbv site sq r s))"
  unfolding merge_set_winner_clock_def by (intro keeps | assumption | rule inner_pair_keeps)+

lemma zero_clock_stmt_keeps [keeps]: "P s \<Longrightarrow> P (snd (zero_clock_stmt ti dbv pk s))"
  unfolding zero_clock_stmt_def by (intro keeps keep_write)

lemma merge_zeroclock_keeps [keeps]: "P s \<Longrightarrow> P (snd (merge_zeroclock_on_resurrect ti dbv pk s))"
  unfolding merge_zeroclock_on_resurrect_def by (intro keeps)

lemma meta_stmt_keeps [keeps]: "P s \<Longrightarrow> P (snd (meta_stmt ti f s))"
  unfolding meta_stmt_def by (intro keeps keep_write)

end

locale merge_frame = write_frame +
  assumes keep_merge: "P s \<Longrightarrow> P (upd_tbl ti (t_enabled_update g) s)"
  and keep_real:
    "P s \<Longrightarrow> P (snd (in_sync (real_merge_upsert n c k v v) s))"
    "P s \<Longrightarrow> P (snd (in_sync (real_merge_delete n k) s))"
    "P s \<Longrightarrow> P (snd (in_sync (real_merge_sentinel n k) s))"
begin

lemma merge_get_local_cl_keeps [keeps]: "P s \<Longrightarrow> P (snd (merge_get_local_cl ti pk s))"
  unfolding merge_get_local_cl_def by (intro keeps)

lemma merge_get_col_version_keeps [keeps]: "P s \<Longrightarrow> P (snd (merge_get_col_version ti col pk s))"
  unfolding merge_get_col_version_def by (intro keeps)

lemma if_state_keeps: "P s \<Longrightarrow> P (if b then upd_tbl ti (t_enabled_update g) s else s)"
  by (simp add: keep_merge)

lemma merge_insert_col_keeps [keeps]:
  "P s \<Longrightarrow> P (snd (merge_insert_col ti pk n v cv dbv site sq r s))"
  unfolding merge_insert_col_def by (intro keeps keep_real if_state_keeps | simp only: if_state_keeps)+

lemma merge_delete_keeps [keeps]: "P s \<Longrightarrow> P (snd (merge_delete ti pk n cv dbv site sq r s))"
  unfolding merge_delete_def by (intro keeps keep_real | assumption | rule inner_pair_keeps)+

lemma merge_sentinel_keeps [keeps]: "P s \<Longrightarrow> P (snd (merge_sentinel_only_insert ti pk cv dbv site sq r s))"
  unfolding merge_sentinel_only_insert_def by (intro keeps keep_real)

lemma compare_site_ids_keeps [keeps]: "P s \<Longrightarrow> P (snd (compare_site_ids ti col pk site s))"
  unfolding compare_site_ids_def Let_def
  by (intro keeps, simp_all add: keep_write)

lemma merge_did_cid_win_keeps [keeps]: "P s \<Longrightarrow> P (snd (merge_did_cid_win ti pk v site n cv s))"
  unfolding merge_did_cid_win_def by (intro keeps | assumption | rule inner_pair_keeps)+

lemma merge_insert_keeps [keeps]: "P s \<Longrightarrow> P (snd (cloudsync_merge_insert c r s))"
  unfolding cloudsync_merge_insert_def cloudsync_merge_insert_gos_def
  by (intro keeps | assumption | rule inner_pair_keeps)+

end

text \<open>A merge ends with \<open>insync\<close> cleared, whatever fails.\<close>

lemma in_sync_cleared [simp]: "c_insync (snd (in_sync stmt s)) = False"
  by (simp add: in_sync_def split: prod.split)

interpretation syncbit: merge_frame "\<lambda>s. \<not> c_insync s"
  by unfold_locales (simp_all add: upd_tbl_def)

text \<open>What only local operations change.\<close>

definition local_fields where
  "local_fields s = (c_seq s, d_settings (db s), d_table_settings (db s), d_triggers (db s),
     map fst (d_meta (db s)), c_tables_count s, savepoints s)"

lemma in_sync_field:
  assumes "\<And>s. c_insync s \<Longrightarrow> F (snd (stmt s)) = F s"
    and "\<And>s fs. F (s\<lparr>faults := fs\<rparr>) = F s" "\<And>s b. F (s\<lparr>c_insync := b\<rparr>) = F s"
  shows "F (snd (in_sync stmt s)) = F s"
proof -
  obtain rc s1 where f: "next_fault (s\<lparr>c_insync := True\<rparr>) = (rc, s1)" by fastforce
  have "same (s\<lparr>c_insync := True\<rparr>) s1"
    using f same_frame.next_fault_keeps [OF same_refl] by (metis snd_conv)
  then obtain fs where "s1 = s\<lparr>c_insync := True, faults := fs\<rparr>" by (auto simp: same_def)
  then have "F s1 = F s" "c_insync s1" using assms(2,3) by simp_all
  then show ?thesis
    using assms(1) [of s1] assms(3) f by (auto simp: in_sync_def step_def split: prod.splits)
qed

text \<open>A statement of the merge on the real table changes rows and nothing else while \<open>insync\<close> is set.\<close>

lemma real_stmt_rows:
  assumes "c_insync s" "\<And>h. F (s\<lparr>db := map_rows n h (db s)\<rparr>) = F s"
  shows "F (snd (real_merge_upsert n c k v w s)) = F s" "F (snd (real_merge_delete n k s)) = F s"
    "F (snd (real_merge_sentinel n k s)) = F s"
  using assms
  by (simp_all add: real_merge_upsert_def real_merge_delete_def real_merge_sentinel_def app_delete_def Let_def
      insert_row_silent update_row_silent delete_row_silent split: option.split)

lemma in_sync_rows:
  assumes "\<And>s h. F (s\<lparr>db := map_rows n h (db s)\<rparr>) = F s" "\<And>s fs. F (s\<lparr>faults := fs\<rparr>) = F s"
    "\<And>s b. F (s\<lparr>c_insync := b\<rparr>) = F s"
  shows "F (snd (in_sync (real_merge_upsert n c k v w) s)) = F s" "F (snd (in_sync (real_merge_delete n k) s)) = F s"
    "F (snd (in_sync (real_merge_sentinel n k) s)) = F s"
  using assms by (intro in_sync_field real_stmt_rows; blast)+

interpretation remote: merge_frame "\<lambda>s. local_fields s = x"
proof -
  have "local_fields (snd (in_sync (real_merge_upsert n c k v w) s)) = local_fields s"
    "local_fields (snd (in_sync (real_merge_delete n k) s)) = local_fields s"
    "local_fields (snd (in_sync (real_merge_sentinel n k) s)) = local_fields s" for n c k v w s
    by (rule in_sync_rows; simp add: local_fields_def)+
  then show "merge_frame (\<lambda>s. local_fields s = x)"
    by unfold_locales (simp_all, simp_all add: local_fields_def upd_tbl_def)
qed

text \<open>The table contexts are left alone by the writes to the clock tables.\<close>

interpretation registry: write_frame "\<lambda>s. c_tables s = x"
  by unfold_locales simp_all

section \<open>A merge without faults\<close>

text \<open>The table and the connection are in order, and the table takes all changes.\<close>

definition ready :: "nat \<Rightarrow> state \<Rightarrow> bool" where
  "ready ti s \<longleftrightarrow>
     faults s = [] \<and> \<not> c_insync s \<and> synced s \<and> 0 \<le> c_db_version s \<and> c_data_version_stmt s \<and>
     c_getset_siteid_stmt s \<and> d_site_ids (db s) \<noteq> None \<and> meta_table_of s ti \<noteq> None \<and>
     user_table_of (t_name (tbl s ti)) (db s) \<noteq> None \<and>
     \<not> has_trigger ''cloudsync_before_update_'' (t_name (tbl s ti)) (db s) \<and>
     \<not> has_trigger ''cloudsync_before_delete_'' (t_name (tbl s ti)) (db s) \<and>
     t_algo (tbl s ti) \<noteq> table_algo_crdt_gos \<and> \<not> c_merge_equal_values s"

text \<open>\<open>merged ti g h s s'\<close>: the clock table changed by \<open>g\<close>, the rows by \<open>h\<close>, and only the sites and the pending
  version beside them.\<close>

definition merged ::
  "nat \<Rightarrow> (meta_table \<Rightarrow> meta_table) \<Rightarrow> ((sqlval list \<times> row) list \<Rightarrow> (sqlval list \<times> row) list) \<Rightarrow> state \<Rightarrow> state \<Rightarrow> bool" where
  "merged ti g h s s' \<longleftrightarrow>
     (\<exists>p ids. s' = s\<lparr>c_pending_db_version := p,
        db := (map_meta (t_name (tbl s ti)) g (map_rows (t_name (tbl s ti)) h (db s)))\<lparr>d_site_ids := Some ids\<rparr>\<rparr>)"

lemma map_rows_comp: "map_rows n h (map_rows n g d) = map_rows n (h \<circ> g) d"
  by (simp add: map_rows_def comp_def split_def cong: if_cong)

lemma map_meta_map_rows: "map_rows n h (map_meta m g d) = map_meta m g (map_rows n h d)"
  by (simp add: map_rows_def map_meta_def)

lemma map_site_ids:
  "map_meta n g (d\<lparr>d_site_ids := i\<rparr>) = (map_meta n g d)\<lparr>d_site_ids := i\<rparr>"
  "map_rows n h (d\<lparr>d_site_ids := i\<rparr>) = (map_rows n h d)\<lparr>d_site_ids := i\<rparr>"
  by (simp_all add: map_meta_def map_rows_def)

lemma map_rows_id [simp]: "map_rows n (\<lambda>r. r) d = d"
proof -
  have "map (\<lambda>(m, u). (m, if str_case_eq m n then u\<lparr>u_rows := u_rows u\<rparr> else u)) xs = xs"
    for xs :: "(string \<times> user_table) list"
    by (induction xs) auto
  then show ?thesis by (simp add: map_rows_def)
qed

lemma merged_trans:
  assumes "merged ti g h s s1" "merged ti g' h' s1 s2"
  shows "merged ti (g' \<circ> g) (h' \<circ> h) s s2"
proof -
  obtain p i where 1: "s1 = s\<lparr>c_pending_db_version := p,
     db := (map_meta (t_name (tbl s ti)) g (map_rows (t_name (tbl s ti)) h (db s)))\<lparr>d_site_ids := Some i\<rparr>\<rparr>"
    using assms(1) by (auto simp: merged_def)
  obtain q j where 2: "s2 = s1\<lparr>c_pending_db_version := q,
     db := (map_meta (t_name (tbl s1 ti)) g' (map_rows (t_name (tbl s1 ti)) h' (db s1)))\<lparr>d_site_ids := Some j\<rparr>\<rparr>"
    using assms(2) by (auto simp: merged_def)
  have "tbl s1 ti = tbl s ti" using 1 by (simp add: tbl_def)
  with 1 2 show ?thesis unfolding merged_def
    by (intro exI [of _ q] exI [of _ j])
      (simp add: map_site_ids map_meta_map_rows map_rows_comp map_meta_comp)
qed

lemma merged_fields:
  assumes "merged ti g h s s'"
  shows "tbl s' i = tbl s i" "meta_table_of s' ti = map_option g (meta_table_of s ti)"
    "user_table_of (t_name (tbl s ti)) (db s') =
       map_option (\<lambda>u. u\<lparr>u_rows := h (u_rows u)\<rparr>) (user_table_of (t_name (tbl s ti)) (db s))"
    "c_tables s' = c_tables s" "c_tables_count s' = c_tables_count s"
    "ready ti s \<Longrightarrow> ready ti s'"
proof -
  obtain p ids where s': "s' = s\<lparr>c_pending_db_version := p,
     db := (map_meta (t_name (tbl s ti)) g (map_rows (t_name (tbl s ti)) h (db s)))\<lparr>d_site_ids := Some ids\<rparr>\<rparr>"
    using assms by (auto simp: merged_def)
  show t: "tbl s' i = tbl s i" for i using s' by (simp add: tbl_def)
  show "c_tables s' = c_tables s" "c_tables_count s' = c_tables_count s" using s' by simp_all
  have m: "meta_of n (d\<lparr>d_site_ids := x\<rparr>) = meta_of n d" "user_table_of n (d\<lparr>d_site_ids := x\<rparr>) = user_table_of n d"
    "meta_of n (map_rows k f d) = meta_of n d" "user_table_of n (map_meta k e d) = user_table_of n d" for n k f e d x
    by (simp_all add: meta_of_def user_table_of_def)
  show mt: "meta_table_of s' ti = map_option g (meta_table_of s ti)"
    using s' by (simp add: meta_table_of_def t m meta_of_map_meta) (simp add: tbl_def)
  show ut: "user_table_of (t_name (tbl s ti)) (db s') =
       map_option (\<lambda>u. u\<lparr>u_rows := h (u_rows u)\<rparr>) (user_table_of (t_name (tbl s ti)) (db s))"
    using s' by (simp add: m user_table_of_map_rows)
  show "ready ti s \<Longrightarrow> ready ti s'"
    using s' mt ut by (auto simp: ready_def t synced_def has_trigger_def tbl_def meta_table_of_def m)
qed

lemmas merged_ready = merged_fields(6)

lemma merged_refl: "d_site_ids (db s) \<noteq> None \<Longrightarrow> merged ti (\<lambda>t. t) (\<lambda>r. r) s s"
  unfolding merged_def
  by (intro exI [of _ "c_pending_db_version s"] exI [of _ "the (d_site_ids (db s))"]) simp

lemma next_ready:
  assumes "ready ti s"
  obtains v where "db_version_next m s = (v, s\<lparr>c_pending_db_version := v\<rparr>)" "v \<noteq> -1" "m \<le> v"
    "c_db_version s < v" "c_pending_db_version s \<le> v"
proof -
  have "db_version_check_uptodate s = (0, s)"
    using assms by (simp add: ready_def synced_def db_version_check_uptodate_def stmt_execute_def prepared_def)
  then show ?thesis
    using that assms by (auto simp: db_version_next_def Let_def ready_def split: if_splits)
qed

text \<open>Binding a key that the encoder wrote gives resync its values.\<close>

lemma run_bind_pk:
  assumes "faults s = []" "i + length vs \<le> params"
  shows "\<exists>vm' e. run_callback (bind_pk params) i vs (vm, 0, s) = Inr (vm', 0, s) \<and>
    (\<forall>k. map_of vm' k = (if i < k \<and> k \<le> i + length vs then Some (vs ! (k - i - 1)) else map_of vm k))"
  using assms(2)
proof (induction vs arbitrary: i vm)
  case (Cons v vs)
  have b: "bind_pk params (vm, 0, s) i v = (0, (AList.update (i + 1) v vm, 0, s))"
    using assms(1) Cons.prems by (simp add: bind_pk_def pk_decode_bind_callback_def)
  obtain vm' where vm': "run_callback (bind_pk params) (i + 1) vs (AList.update (i + 1) v vm, 0, s) = Inr (vm', 0, s)"
    "\<And>k. map_of vm' k = (if i + 1 < k \<and> k \<le> i + 1 + length vs then Some (vs ! (k - (i + 1) - 1))
       else map_of (AList.update (i + 1) v vm) k)"
    using Cons.IH [of "i + 1" "AList.update (i + 1) v vm"] Cons.prems by auto
  have "map_of vm' k = (if i < k \<and> k \<le> i + length (v # vs) then Some ((v # vs) ! (k - i - 1)) else map_of vm k)" for k
    unfolding vm'(2) by (cases "k = i + 1") (auto simp: update_conv' nth_Cons')
  then show ?case using b vm'(1) by simp
qed auto

definition wf_key :: "nat \<Rightarrow> sqlval list \<Rightarrow> bool" where
  "wf_key n vs \<longleftrightarrow> length vs = n \<and> n < 256 \<and> (\<forall>v \<in> set vs. wf_val v) \<and> VNull \<notin> set vs"

lemma bind_key_ok:
  assumes "faults s = []" "wf_key n vs" "n \<le> params"
  obtains vm where "bind_key params (pk_blob vs) s = ((0, vm), s)" "key_values n vm = vs"
proof -
  obtain vm where vm: "run_callback (bind_pk params) 0 vs ([], 0, s) = Inr (vm, 0, s)"
    "\<forall>k. map_of vm k = (if 0 < k \<and> k \<le> length vs then Some (vs ! (k - 1)) else None)"
    using run_bind_pk [OF assms(1), of 0 vs params "[]"] assms(2,3) by (auto simp: wf_key_def)
  have "bind_key params (pk_blob vs) s = ((0, vm), s)"
    using pk_decode_prikey_blob [of vs "[]" "bind_pk params" "([], 0, s)"] vm(1) assms(2)
    by (simp add: bind_key_def wf_key_def)
  moreover have "key_values n vm = vs"
    using vm(2) assms(2) by (intro nth_equalityI) (simp_all add: key_values_def bound_def wf_key_def)
  ultimately show ?thesis by (rule that)
qed

text \<open>The clock statements.\<close>

lemma merged_meta:
  "d_site_ids (db s) \<noteq> None \<Longrightarrow>
   merged ti g (\<lambda>r. r) s (s\<lparr>c_pending_db_version := p, db := map_meta (t_name (tbl s ti)) g (db s)\<rparr>)"
  unfolding merged_def
  by (intro exI [of _ p] exI [of _ "the (d_site_ids (db s))"]) (simp add: map_meta_def)

lemma merged_rows:
  "d_site_ids (db s) \<noteq> None \<Longrightarrow>
   merged ti (\<lambda>t. t) h s (s\<lparr>db := map_rows (t_name (tbl s ti)) h (db s)\<rparr>)"
  unfolding merged_def
  by (intro exI [of _ "c_pending_db_version s"] exI [of _ "the (d_site_ids (db s))"]) (simp add: map_rows_def)

lemma merged_sites: "merged ti (\<lambda>t. t) (\<lambda>r. r) s (s\<lparr>db := (db s)\<lparr>d_site_ids := Some ids\<rparr>\<rparr>)"
  unfolding merged_def by (intro exI [of _ "c_pending_db_version s"] exI [of _ ids]) simp

lemma getset_siteid_ok:
  assumes "ready ti s" "site \<noteq> []"
  obtains ord s' where "getset_siteid site s = ((100, ord), s')" "merged ti (\<lambda>t. t) (\<lambda>r. r) s s'"
    "(ord, site) \<in> set (the (d_site_ids (db s')))"
proof -
  obtain ids where ids: "d_site_ids (db s) = Some ids" "faults s = []"
    using assms(1) by (auto simp: ready_def)
  show ?thesis
  proof (cases "List.find (\<lambda>(_, b). b = site) ids")
    case None
    let ?ord = "case list_max (map fst ids) of None \<Rightarrow> 1 | Some m \<Rightarrow> m + 1"
    show ?thesis
      by (rule that [of ?ord "s\<lparr>db := (db s)\<lparr>d_site_ids := Some (ids @ [(?ord, site)])\<rparr>\<rparr>"])
        (use ids None assms(2) in \<open>auto simp: getset_siteid_def Let_def intro: merged_sites\<close>)
  next
    case (Some p)
    then have "p \<in> set ids" "snd p = site" by (auto simp: find_Some_iff) (metis nth_mem)
    then show ?thesis
      by (intro that [of "fst p" s]) (use ids Some assms(2) merged_refl [of s ti] in \<open>auto simp: getset_siteid_def split: prod.splits\<close>)
  qed
qed

lemma winner_clock_ok:
  assumes "ready ti s" "site \<noteq> []"
  obtains v ord r' s' where "merge_set_winner_clock ti pk col cv dbv site sq r s = ((0, r'), s')"
    "merged ti (meta_winner_clock pk (case col of Some c \<Rightarrow> c | None \<Rightarrow> RIP) cv v sq ord) (\<lambda>r. r) s s'"
    "dbv \<le> v" "c_db_version s < v" "c_pending_db_version s \<le> v" "(ord, site) \<in> set (the (d_site_ids (db s')))"
proof -
  obtain ord s1 where s1: "getset_siteid site s = ((100, ord), s1)" "merged ti (\<lambda>t. t) (\<lambda>r. r) s s1"
    "(ord, site) \<in> set (the (d_site_ids (db s1)))"
    using getset_siteid_ok [OF assms] .
  have r1: "ready ti s1" using merged_ready [OF s1(2) assms(1)] .
  obtain v where v: "db_version_next dbv s1 = (v, s1\<lparr>c_pending_db_version := v\<rparr>)" "v \<noteq> -1" "dbv \<le> v"
    "c_db_version s1 < v" "c_pending_db_version s1 \<le> v"
    using next_ready [OF r1] .
  let ?c = "case col of Some c \<Rightarrow> c | None \<Rightarrow> RIP"
  let ?s = "s1\<lparr>c_pending_db_version := v, db := map_meta (t_name (tbl s1 ti)) (meta_winner_clock pk ?c cv v sq ord) (db s1)\<rparr>"
  have "merge_set_winner_clock ti pk col cv dbv site sq r s =
      ((0, rowid_encode (word_of_int v) (word_of_int sq)), ?s)"
    using s1(1) r1 v(1,2) assms(1)
    by (simp add: merge_set_winner_clock_def winner_clock_stmt_def cloudsync_db_version_next_def ready_def tbl_def)
  moreover have "merged ti (meta_winner_clock pk ?c cv v sq ord \<circ> (\<lambda>t. t)) ((\<lambda>r. r) \<circ> (\<lambda>r. r)) s ?s"
    by (rule merged_trans [OF s1(2) merged_meta]) (use r1 in \<open>simp add: ready_def\<close>)
  moreover have "c_db_version s1 = c_db_version s" "c_pending_db_version s1 = c_pending_db_version s"
    using s1(1) assms(1) by (auto simp: getset_siteid_def ready_def Let_def split: if_splits option.splits prod.splits)
  ultimately show ?thesis
    using that [of _ ?s] v s1(3) by (simp add: comp_def)
qed

lemma zero_clock_none:
  "moving_rows pk t = 0 \<Longrightarrow> meta_zero_clock v pk t = t"
  by (induction t) (auto simp: moving_rows_def meta_zero_clock_def split: if_splits)

lemma zeroclock_ok:
  assumes "ready ti s"
  obtains v g s' where "merge_zeroclock_on_resurrect ti dbv pk s = (0, s')" "merged ti g (\<lambda>r. r) s s'"
    "g (the (meta_table_of s ti)) = meta_zero_clock v pk (the (meta_table_of s ti))"
proof -
  obtain t where t: "meta_table_of s ti = Some t" "faults s = []" "d_site_ids (db s) \<noteq> None"
    using assms by (auto simp: ready_def)
  obtain v where v: "db_version_next dbv s = (v, s\<lparr>c_pending_db_version := v\<rparr>)" "v \<noteq> -1"
    using next_ready [OF assms] .
  show ?thesis
  proof (cases "moving_rows pk t = 0")
    case True
    then have "merge_zeroclock_on_resurrect ti dbv pk s = (0, s)"
      using t by (simp add: merge_zeroclock_on_resurrect_def zero_clock_stmt_def)
    then show ?thesis
      by (rule that [of s "\<lambda>t. t" v]) (use t True in \<open>auto simp: zero_clock_none intro: merged_refl\<close>)
  next
    case False
    then have "merge_zeroclock_on_resurrect ti dbv pk s =
        (0, s\<lparr>c_pending_db_version := v, db := map_meta (t_name (tbl s ti)) (meta_zero_clock v pk) (db s)\<rparr>)"
      using t v by (simp add: merge_zeroclock_on_resurrect_def zero_clock_stmt_def cloudsync_db_version_next_def tbl_def)
    then show ?thesis
      by (rule that) (use t in \<open>auto intro: merged_meta\<close>)
  qed
qed

text \<open>The statements on the real table.\<close>

definition accepts :: "user_table \<Rightarrow> string \<Rightarrow> sqlval \<Rightarrow> sqlval list \<Rightarrow> bool" where
  "accepts u col v pks \<longleftrightarrow> \<not> lacks_value u (set_col col v (default_row u)) \<and>
     (case map_of (u_rows u) pks of None \<Rightarrow> True | Some old \<Rightarrow> \<not> lacks_value u (set_col col v old))"

lemma in_sync_upsert_ok:
  assumes "ready ti s" "user_table_of (t_name (tbl s ti)) (db s) = Some u" "accepts u col v pks" "VNull \<notin> set pks"
  obtains h s' where "in_sync (real_merge_upsert (t_name (tbl s ti)) col pks v v) s = (101, s')"
    "merged ti (\<lambda>t. t) h s s'"
    "map_of (h (u_rows u)) = (map_of (u_rows u))(pks \<mapsto>
       set_col col v (case map_of (u_rows u) pks of None \<Rightarrow> default_row u | Some old \<Rightarrow> old))"
proof -
  let ?n = "t_name (tbl s ti)" and ?s = "s\<lparr>c_insync := True\<rparr>"
  have r: "faults s = []" "\<not> c_insync s" "d_site_ids (db s) \<noteq> None" "\<not> raises ''cloudsync_before_update_'' ?n ?s"
    using assms(1) by (auto simp: ready_def raises_def)
  have resync: "s\<lparr>db := d, c_insync := False\<rparr> = s\<lparr>db := d\<rparr>" for d using r(2) by (cases s) simp
  show ?thesis
  proof (cases "map_of (u_rows u) pks")
    case None
    then have "in_sync (real_merge_upsert ?n col pks v v) s =
        (101, s\<lparr>db := map_rows ?n (AList.update pks (set_col col v (default_row u))) (db s)\<rparr>)"
      using r assms resync by (simp add: in_sync_def real_merge_upsert_def Let_def accepts_def insert_row_silent)
    then show ?thesis
      by (rule that [OF _ merged_rows]) (use r None in \<open>simp_all add: update_conv'\<close>)
  next
    case (Some old)
    then have "in_sync (real_merge_upsert ?n col pks v v) s =
        (101, s\<lparr>db := map_rows ?n (AList.update pks (set_col col v old) \<circ> AList.delete pks) (db s)\<rparr>)"
      using r assms resync by (simp add: in_sync_def real_merge_upsert_def Let_def accepts_def update_row_silent)
    then show ?thesis
      by (rule that [OF _ merged_rows]) (use r Some in \<open>simp_all add: update_conv' delete_conv'\<close>)
  qed
qed

lemma in_sync_delete_ok:
  assumes "ready ti s" "user_table_of (t_name (tbl s ti)) (db s) = Some u"
  obtains h s' where "in_sync (real_merge_delete (t_name (tbl s ti)) pks) s = (101, s')"
    "merged ti (\<lambda>t. t) h s s'" "map_of (h (u_rows u)) = (map_of (u_rows u))(pks := None)"
proof -
  let ?n = "t_name (tbl s ti)" and ?s = "s\<lparr>c_insync := True\<rparr>"
  have r: "faults s = []" "\<not> c_insync s" "d_site_ids (db s) \<noteq> None" "\<not> raises ''cloudsync_before_delete_'' ?n ?s"
    using assms(1) by (auto simp: ready_def raises_def)
  have resync: "s\<lparr>db := d, c_insync := False\<rparr> = s\<lparr>db := d\<rparr>" "s\<lparr>c_insync := False\<rparr> = s" for d
    using r(2) by (cases s, simp)+
  show ?thesis
  proof (cases "map_of (u_rows u) pks")
    case None
    then have "in_sync (real_merge_delete ?n pks) s = (101, s)"
      using r assms resync by (simp add: in_sync_def real_merge_delete_def app_delete_def row_of_def)
    then show ?thesis
      by (rule that [OF _ merged_refl]) (use r None in \<open>auto simp: fun_upd_idem\<close>)
  next
    case (Some old)
    then have "in_sync (real_merge_delete ?n pks) s = (101, s\<lparr>db := map_rows ?n (AList.delete pks) (db s)\<rparr>)"
      using r assms resync
      by (simp add: in_sync_def real_merge_delete_def app_delete_def row_of_def delete_row_silent)
    then show ?thesis
      by (rule that [OF _ merged_rows]) (use r in \<open>simp_all add: delete_conv'\<close>)
  qed
qed

lemma in_sync_sentinel_ok:
  assumes "ready ti s" "user_table_of (t_name (tbl s ti)) (db s) = Some u"
  obtains h s' where "in_sync (real_merge_sentinel (t_name (tbl s ti)) pks) s = (101, s')"
    "merged ti (\<lambda>t. t) h s s'"
    "map_of (h (u_rows u)) = (if VNull \<in> set pks \<or> lacks_value u (default_row u) \<or> map_of (u_rows u) pks \<noteq> None
       then map_of (u_rows u) else (map_of (u_rows u))(pks \<mapsto> default_row u))"
proof -
  let ?n = "t_name (tbl s ti)" and ?c = "VNull \<in> set pks \<or> lacks_value u (default_row u) \<or> map_of (u_rows u) pks \<noteq> None"
  have r: "faults s = []" "\<not> c_insync s" "d_site_ids (db s) \<noteq> None" using assms(1) by (auto simp: ready_def)
  have resync: "s\<lparr>db := d, c_insync := False\<rparr> = s\<lparr>db := d\<rparr>" "s\<lparr>c_insync := False\<rparr> = s" for d
    using r(2) by (cases s, simp)+
  have run: "in_sync (real_merge_sentinel ?n pks) s =
      (101, if ?c then s else s\<lparr>db := map_rows ?n (AList.update pks (default_row u)) (db s)\<rparr>)"
    using r assms resync by (simp add: in_sync_def real_merge_sentinel_def insert_row_silent)
  show ?thesis
  proof (cases ?c)
    case True
    then show ?thesis using that [OF run, of "\<lambda>r. r"] r(3) by (auto intro: merged_refl)
  next
    case False
    then show ?thesis
      using that [OF run, of "AList.update pks (default_row u)"] r(3) merged_rows [of s ti]
      by (simp add: update_conv')
  qed
qed

section \<open>Closed forms\<close>

lemma table_column_lookup_Some:
  assumes "col \<in> set (t_cols t)"
  obtains i where "table_column_lookup t col = Some i" "str_case_eq (t_cols t ! i) col"
proof (cases "table_column_lookup t col")
  case None
  then have "\<forall>i < t_ncols t. \<not> str_case_eq (t_cols t ! i) col"
    by (auto simp: table_column_lookup_def find_None_iff)
  with assms show ?thesis by (metis in_set_conv_nth str_case_eq_refl)
next
  case (Some i)
  then have "str_case_eq (t_cols t ! i) col"
    by (auto simp: table_column_lookup_def find_Some_iff)
  with Some show ?thesis by (rule that)
qed

lemma col_case:
  assumes "str_case_eq a b"
  shows "set_col a v r = set_col b v r" "get_col a r = get_col b r"
  using assms by (simp_all add: set_col_def get_col_def str_case_eq_def)

lemma get_set_col [simp]: "get_col c (set_col c v r) = v"
  by (simp add: get_col_def set_col_def update_conv')

lemma get_col_set_other: "\<not> str_case_eq a b \<Longrightarrow> get_col a (set_col b v r) = get_col a r"
  by (simp add: get_col_def set_col_def update_conv' str_case_eq_def)

text \<open>The row after a column was written.\<close>

definition written_row :: "user_table \<Rightarrow> sqlval list \<Rightarrow> string \<Rightarrow> sqlval \<Rightarrow> row" where
  "written_row u vs col v = set_col col v (case map_of (u_rows u) vs of None \<Rightarrow> default_row u | Some old \<Rightarrow> old)"

lemma insert_col_ok:
  assumes "ready ti s" "user_table_of (t_name (tbl s ti)) (db s) = Some u" "wf_key (t_npks (tbl s ti)) vs"
    and "col \<in> set (t_cols (tbl s ti))" "accepts u col v vs" "site \<noteq> []"
  obtains h w ord r' s' where "merge_insert_col ti (pk_blob vs) col v cv dbv site sq r s = ((0, r'), s')"
    "merged ti (meta_winner_clock (pk_blob vs) col cv w sq ord) h s s'"
    "map_of (h (u_rows u)) = (map_of (u_rows u))(vs \<mapsto> written_row u vs col v)"
    "dbv \<le> w" "c_db_version s < w" "(ord, site) \<in> set (the (d_site_ids (db s')))"
proof -
  let ?t = "tbl s ti"
  have r: "faults s = []" "t_algo ?t \<noteq> table_algo_crdt_gos" "VNull \<notin> set vs"
    using assms(1,3) by (auto simp: ready_def wf_key_def)
  obtain i where i: "table_column_lookup ?t col = Some i" "str_case_eq (t_cols ?t ! i) col"
    using table_column_lookup_Some [OF assms(4)] .
  have acc: "accepts u (t_cols ?t ! i) v vs" using assms(5) col_case(1) [OF i(2)]
    by (simp add: accepts_def split: option.splits)
  obtain vm where vm: "bind_key (t_npks ?t + 2) (pk_blob vs) s = ((0, vm), s)" "key_values (t_npks ?t) vm = vs"
    using bind_key_ok [OF r(1) assms(3), of "t_npks ?t + 2"] by auto
  obtain h s1 where s1: "in_sync (real_merge_upsert (t_name ?t) (t_cols ?t ! i) vs v v) s = (101, s1)"
    "merged ti (\<lambda>t. t) h s s1"
    "map_of (h (u_rows u)) = (map_of (u_rows u))(vs \<mapsto>
       set_col (t_cols ?t ! i) v (case map_of (u_rows u) vs of None \<Rightarrow> default_row u | Some old \<Rightarrow> old))"
    using in_sync_upsert_ok [OF assms(1,2) acc r(3)] .
  obtain w ord r' s2 where s2: "merge_set_winner_clock ti (pk_blob vs) (Some col) cv dbv site sq r s1 = ((0, r'), s2)"
    "merged ti (meta_winner_clock (pk_blob vs) col cv w sq ord) (\<lambda>r. r) s1 s2" "dbv \<le> w" "c_db_version s1 < w"
    "(ord, site) \<in> set (the (d_site_ids (db s2)))"
    using winner_clock_ok [OF merged_ready [OF s1(2) assms(1)] assms(6)] by (metis option.simps(5))
  have "c_db_version s1 = c_db_version s" using s1(2) by (auto simp: merged_def)
  moreover have "merge_insert_col ti (pk_blob vs) col v cv dbv site sq r s = ((0, r'), s2)"
    using r i vm s1(1) s2(1) by (simp add: merge_insert_col_def Let_def)
  moreover have "merged ti (meta_winner_clock (pk_blob vs) col cv w sq ord) h s s2"
    using merged_trans [OF s1(2) s2(2)] by (simp add: comp_def)
  ultimately show ?thesis
    using that s1(3) s2(3-5) col_case(1) [OF i(2)] by (simp add: written_row_def)
qed

lemma sentinel_ok:
  assumes "ready ti s" "user_table_of (t_name (tbl s ti)) (db s) = Some u" "wf_key (t_npks (tbl s ti)) vs"
    and "\<not> lacks_value u (default_row u)" "site \<noteq> []" "meta_table_of s ti = Some t"
  obtains g h w w' ord r' s' where
    "merge_sentinel_only_insert ti (pk_blob vs) cl dbv site sq r s = ((0, r'), s')" "merged ti g h s s'"
    "g t = meta_winner_clock (pk_blob vs) RIP cl w sq ord (meta_zero_clock w' (pk_blob vs) t)" "dbv \<le> w"
    "map_of (h (u_rows u)) = (case map_of (u_rows u) vs of
       None \<Rightarrow> (map_of (u_rows u))(vs \<mapsto> default_row u) | Some _ \<Rightarrow> map_of (u_rows u))"
proof -
  let ?t = "tbl s ti"
  have r: "faults s = []" "VNull \<notin> set vs" using assms(1,3) by (auto simp: ready_def wf_key_def)
  obtain vm where vm: "bind_key (t_npks ?t) (pk_blob vs) s = ((0, vm), s)" "key_values (t_npks ?t) vm = vs"
    using bind_key_ok [OF r(1) assms(3) order_refl] .
  obtain h s1 where s1: "in_sync (real_merge_sentinel (t_name ?t) vs) s = (101, s1)" "merged ti (\<lambda>t. t) h s s1"
    "map_of (h (u_rows u)) = (if VNull \<in> set vs \<or> lacks_value u (default_row u) \<or> map_of (u_rows u) vs \<noteq> None
       then map_of (u_rows u) else (map_of (u_rows u))(vs \<mapsto> default_row u))"
    using in_sync_sentinel_ok [OF assms(1,2)] .
  note r1 = merged_ready [OF s1(2) assms(1)]
  obtain w' g s2 where s2: "merge_zeroclock_on_resurrect ti dbv (pk_blob vs) s1 = (0, s2)" "merged ti g (\<lambda>r. r) s1 s2"
    "g (the (meta_table_of s1 ti)) = meta_zero_clock w' (pk_blob vs) (the (meta_table_of s1 ti))"
    using zeroclock_ok [OF r1] .
  obtain w ord r' s3 where s3: "merge_set_winner_clock ti (pk_blob vs) None cl dbv site sq 0 s2 = ((0, r'), s3)"
    "merged ti (meta_winner_clock (pk_blob vs) RIP cl w sq ord) (\<lambda>r. r) s2 s3" "dbv \<le> w"
    using winner_clock_ok [OF merged_ready [OF s2(2) r1] assms(5), of "pk_blob vs" None cl dbv sq 0]
    by (metis option.simps(4))
  have "meta_table_of s1 ti = Some t" using merged_fields(2) [OF s1(2)] assms(6) by simp
  moreover have "merge_sentinel_only_insert ti (pk_blob vs) cl dbv site sq r s = ((0, r'), s3)"
    using vm s1(1) s2(1) s3(1) by (simp add: merge_sentinel_only_insert_def)
  moreover have "merged ti (meta_winner_clock (pk_blob vs) RIP cl w sq ord \<circ> g) h s s3"
    using merged_trans [OF merged_trans [OF s1(2) s2(2)] s3(2)] by (simp add: comp_def)
  moreover have "map_of (h (u_rows u)) = (case map_of (u_rows u) vs of
       None \<Rightarrow> (map_of (u_rows u))(vs \<mapsto> default_row u) | Some _ \<Rightarrow> map_of (u_rows u))"
    using s1(3) r(2) assms(4) by (simp split: option.split)
  ultimately show ?thesis using that s2(3) s3(3) by simp
qed

lemma delete_ok:
  assumes "ready ti s" "user_table_of (t_name (tbl s ti)) (db s) = Some u" "wf_key (t_npks (tbl s ti)) vs" "site \<noteq> []"
  obtains h w ord r' s' where "merge_delete ti (pk_blob vs) RIP cl dbv site sq r s = ((0, r'), s')"
    "merged ti (meta_row_drop (pk_blob vs) \<circ> meta_winner_clock (pk_blob vs) RIP cl w sq ord) h s s'" "dbv \<le> w"
    "map_of (h (u_rows u)) = (map_of (u_rows u))(vs := None)"
proof -
  let ?t = "tbl s ti"
  have r: "faults s = []" using assms(1) by (auto simp: ready_def)
  obtain vm where vm: "bind_key (t_npks ?t) (pk_blob vs) s = ((0, vm), s)" "key_values (t_npks ?t) vm = vs"
    using bind_key_ok [OF r assms(3) order_refl] .
  obtain h s1 where s1: "in_sync (real_merge_delete (t_name ?t) vs) s = (101, s1)" "merged ti (\<lambda>t. t) h s s1"
    "map_of (h (u_rows u)) = (map_of (u_rows u))(vs := None)"
    using in_sync_delete_ok [OF assms(1,2)] .
  note r1 = merged_ready [OF s1(2) assms(1)]
  obtain w ord r' s2 where s2: "merge_set_winner_clock ti (pk_blob vs) (Some RIP) cl dbv site sq 0 s1 = ((0, r'), s2)"
    "merged ti (meta_winner_clock (pk_blob vs) RIP cl w sq ord) (\<lambda>r. r) s1 s2" "dbv \<le> w"
    using winner_clock_ok [OF r1 assms(4), of "pk_blob vs" "Some RIP" cl dbv sq 0]
    by (metis option.simps(5))
  note r2 = merged_ready [OF s2(2) r1]
  have r2': "faults s2 = []" "meta_table_of s2 ti \<noteq> None" "d_site_ids (db s2) \<noteq> None" using r2 by (auto simp: ready_def)
  let ?s = "s2\<lparr>db := map_meta (t_name (tbl s2 ti)) (meta_row_drop (pk_blob vs)) (db s2)\<rparr>"
  have "merge_delete ti (pk_blob vs) RIP cl dbv site sq r s = ((0, r'), ?s)"
    using vm s1(1) s2(1) r2' by (simp add: merge_delete_def meta_stmt_def)
  moreover have "merged ti (meta_row_drop (pk_blob vs)) (\<lambda>r. r) s2 ?s"
    using merged_meta [of s2 ti "meta_row_drop (pk_blob vs)" "c_pending_db_version s2"] r2'(3) by simp
  then have "merged ti (meta_row_drop (pk_blob vs) \<circ> meta_winner_clock (pk_blob vs) RIP cl w sq ord) h s ?s"
    using merged_trans [OF merged_trans [OF s1(2) s2(2)]] by (simp add: comp_def)
  ultimately show ?thesis using that s1(3) s2(3) by blast
qed

end
