(* ===== verification/Converge.thy ===== *)
theory Converge
  imports Merge
begin

text \<open>
  What the merge of a column promises: it is the maximum of a total preorder. The stamp of a column of
  a row is its causal length, its column version and its value; a change carries such a stamp, a delete has no
  version. \<open>cloudsync_merge_insert\<close> keeps the greater of the local and the incoming stamp (\<open>merge_refines\<close>),
  hence the order in which changes arrive does not matter (\<open>merge_converges\<close>).
\<close>

section \<open>Stamps\<close>

type_synonym stamp = "int \<times> (int \<times> sqlval option) option"

definition stamp_cmp :: "stamp \<Rightarrow> stamp \<Rightarrow> int" where
  "stamp_cmp a b =
     (if fst a \<noteq> fst b then sgn (fst a - fst b)
      else case (snd a, snd b) of
        (None, None) \<Rightarrow> 0 | (None, Some _) \<Rightarrow> -1 | (Some _, None) \<Rightarrow> 1
      | (Some (v, x), Some (w, y)) \<Rightarrow> if v \<noteq> w then sgn (v - w) else dbutils_value_compare x y)"

definition stamp_ok :: "stamp \<Rightarrow> bool" where
  "stamp_ok a = (case snd a of Some (_, x) \<Rightarrow> storable x | None \<Rightarrow> True)"

lemma value_compare_laws:
  "dbutils_value_compare x x = 0"
  "sgn (dbutils_value_compare y x) = - sgn (dbutils_value_compare x y)"
  "storable y \<Longrightarrow> dbutils_value_compare x y \<le> 0 \<Longrightarrow> dbutils_value_compare y z \<le> 0 \<Longrightarrow> dbutils_value_compare x z \<le> 0"
proof -
  show "dbutils_value_compare x x = 0" by (cases x) (simp_all add: dbutils_value_compare_def)
  show "sgn (dbutils_value_compare y x) = - sgn (dbutils_value_compare x y)"
    by (cases x; cases y) (simp_all add: dbutils_value_compare_def, rule value_compare_swap)
  show "storable y \<Longrightarrow> dbutils_value_compare x y \<le> 0 \<Longrightarrow> dbutils_value_compare y z \<le> 0 \<Longrightarrow> dbutils_value_compare x z \<le> 0"
    by (cases x; cases y; cases z)
      (auto simp: dbutils_value_compare_def storable_def intro: value_compare_trans)
qed

interpretation stamps: conflict_order stamp_ok stamp_cmp
proof
  fix a b c :: stamp
  show "stamp_cmp a a = 0"
    by (cases "snd a") (auto simp: stamp_cmp_def value_compare_laws(1))
  show "sgn (stamp_cmp b a) = - sgn (stamp_cmp a b)"
  proof (cases "fst a = fst b \<and> (\<exists>v x y. snd a = Some (v, x) \<and> snd b = Some (v, y))")
    case True
    then obtain v x y where "fst a = fst b" "snd a = Some (v, x)" "snd b = Some (v, y)" by blast
    then show ?thesis by (simp add: stamp_cmp_def value_compare_laws(2) [of x y])
  next
    case False
    then show ?thesis
      by (cases "snd a"; cases "snd b") (auto simp: stamp_cmp_def sgn_if split: if_splits)
  qed
  assume "stamp_ok b" "stamp_cmp a b \<le> 0" "stamp_cmp b c \<le> 0"
  then show "stamp_cmp a c \<le> 0"
    by (cases "snd a"; cases "snd b"; cases "snd c")
      (auto simp: stamp_cmp_def stamp_ok_def sgn_if split: if_splits intro: value_compare_laws(3))
qed

section \<open>The stamp of a column and of a change\<close>

definition stamp_of :: "nat \<Rightarrow> sqlval list \<Rightarrow> string \<Rightarrow> state \<Rightarrow> stamp" where
  "stamp_of ti vs col s =
     (case meta_table_of s ti of None \<Rightarrow> (0, None)
      | Some t \<Rightarrow> (meta_local_cl (pk_blob vs) t,
          map_option (\<lambda>v. (v, real_col_value (t_name (tbl s ti)) col vs (db s))) (meta_col_version (pk_blob vs) col t)))"

definition change_stamp :: "change \<Rightarrow> stamp" where
  "change_stamp c = (ch_cl c, if ch_cl c mod 2 = 0 then None else Some (ch_col_version c, Some (ch_value c)))"

text \<open>A \<open>NULL\<close> may go into the column.\<close>

definition nullable :: "user_table \<Rightarrow> string \<Rightarrow> bool" where
  "nullable u col \<longleftrightarrow> \<not> list_ex (\<lambda>c. col_pk c = 0 \<and> col_notnull c \<and> str_case_eq (col_name c) col) (u_columns u)"

definition rows_ok :: "user_table \<Rightarrow> sqlval list \<Rightarrow> bool" where
  "rows_ok u vs \<longleftrightarrow> \<not> lacks_value u (default_row u) \<and> (\<forall>old. map_of (u_rows u) vs = Some old \<longrightarrow> \<not> lacks_value u old)"

text \<open>The table takes merges for the key: \<open>dbutils_table_sanity_check\<close> has made sure that every \<open>NOT NULL\<close>
  column has a default, and a sentinel never has version 0.\<close>

definition accepting :: "nat \<Rightarrow> sqlval list \<Rightarrow> state \<Rightarrow> bool" where
  "accepting ti vs s \<longleftrightarrow>
     ready ti s \<and> wf_key (t_npks (tbl s ti)) vs \<and>
     (\<forall>u. user_table_of (t_name (tbl s ti)) (db s) = Some u \<longrightarrow> rows_ok u vs) \<and>
     (\<forall>t r. meta_table_of s ti = Some t \<longrightarrow> map_of t (pk_blob vs, RIP) = Some r \<longrightarrow> 1 \<le> m_col_version r)"

text \<open>A delete of the key or a change of its column \<open>col\<close>, as the writers of a change list produce them.\<close>

definition change_ok :: "nat \<Rightarrow> sqlval list \<Rightarrow> string \<Rightarrow> state \<Rightarrow> change \<Rightarrow> bool" where
  "change_ok ti vs col s c \<longleftrightarrow>
     table_lookup (ch_tbl c) s = Some ti \<and> ch_pk c = pk_blob vs \<and> ch_site_id c \<noteq> [] \<and>
     col \<in> set (t_cols (tbl s ti)) \<and> col \<noteq> RIP \<and> not_nan (ch_value c) \<and>
     (if ch_cl c mod 2 = 0 then ch_name c = None \<and> ch_col_version c = ch_cl c
      else ch_name c = Some col \<and>
        (ch_value c = VNull \<longrightarrow> (\<forall>u. user_table_of (t_name (tbl s ti)) (db s) = Some u \<longrightarrow> nullable u col)))"

section \<open>Effects on the stamp\<close>

lemma lacks_value_set_col:
  assumes "\<not> lacks_value u r" "v = VNull \<Longrightarrow> nullable u col"
  shows "\<not> lacks_value u (set_col col v r)"
proof
  assume "lacks_value u (set_col col v r)"
  then obtain c where c: "c \<in> set (u_columns u)" "col_pk c = 0" "col_notnull c" "get_col (col_name c) (set_col col v r) = VNull"
    by (auto simp: lacks_value_def list_ex_iff)
  show False
  proof (cases "str_case_eq (col_name c) col")
    case True
    then have "v = VNull" using c(4) col_case(2) [OF True] by simp
    with assms(2) True c show False by (auto simp: nullable_def list_ex_iff)
  next
    case False
    then show False using c assms(1) get_col_set_other [OF False] by (auto simp: lacks_value_def list_ex_iff)
  qed
qed

lemma lacks_value_rows [simp]: "lacks_value (u\<lparr>u_rows := x\<rparr>) r = lacks_value u r" "default_row (u\<lparr>u_rows := x\<rparr>) = default_row u"
  by (simp_all add: lacks_value_def default_row_def)

lemma accepts_ok: "rows_ok u vs \<Longrightarrow> (v = VNull \<Longrightarrow> nullable u col) \<Longrightarrow> accepts u col v vs"
  by (auto simp: accepts_def rows_ok_def lacks_value_set_col split: option.split)

lemma accepting_tables:
  assumes "accepting ti vs s"
  obtains t u where "meta_table_of s ti = Some t" "user_table_of (t_name (tbl s ti)) (db s) = Some u" "rows_ok u vs"
    "ready ti s" "wf_key (t_npks (tbl s ti)) vs"
    "\<forall>r. map_of t (pk_blob vs, RIP) = Some r \<longrightarrow> 1 \<le> m_col_version r"
  using assms by (auto simp: accepting_def ready_def)

text \<open>One key of the tables after a merge.\<close>

lemma merged_stamp:
  assumes "merged ti g h s s'" "meta_table_of s ti = Some t" "user_table_of (t_name (tbl s ti)) (db s) = Some u"
  shows "stamp_of ti vs col s' = (meta_local_cl (pk_blob vs) (g t),
      map_option (\<lambda>v. (v, map_option (get_col col) (map_of (h (u_rows u)) vs))) (meta_col_version (pk_blob vs) col (g t)))"
  using merged_fields(1-3) [OF assms(1)] assms(2,3)
  by (simp add: stamp_of_def real_col_value_def row_of_def)

lemma merged_accepting:
  assumes "merged ti g h s s'" "accepting ti vs s" "meta_table_of s ti = Some t"
    and "user_table_of (t_name (tbl s ti)) (db s) = Some u"
    and "\<And>old. map_of (h (u_rows u)) vs = Some old \<Longrightarrow> \<not> lacks_value u old"
    and "\<And>r. map_of (g t) (pk_blob vs, RIP) = Some r \<Longrightarrow> 1 \<le> m_col_version r"
  shows "accepting ti vs s'"
  using merged_fields(1-3,6) [OF assms(1)] assms(2-) by (auto simp: accepting_def rows_ok_def)

lemma merged_change_ok:
  assumes "merged ti g h s s'" "change_ok ti vs col s c"
  shows "change_ok ti vs col s' c"
proof -
  note f = merged_fields [OF assms(1)]
  have "table_lookup n s' = table_lookup n s" for n by (rule table_lookup_cong [OF f(4,5)])
  moreover have "(\<forall>u. user_table_of (t_name (tbl s ti)) (db s') = Some u \<longrightarrow> nullable u col) \<longleftrightarrow>
      (\<forall>u. user_table_of (t_name (tbl s ti)) (db s) = Some u \<longrightarrow> nullable u col)"
    unfolding f(3) by (auto simp: nullable_def)
  ultimately show ?thesis using assms(2) f(1) by (simp add: change_ok_def)
qed

text \<open>The clock of one key.\<close>

lemma local_cl_winner_RIP [simp]: "meta_local_cl pk (meta_winner_clock pk RIP cl w sq ord t) = cl"
  by (simp add: meta_local_cl_def map_of_winner_clock)

lemma local_cl_winner_col:
  assumes "col \<noteq> RIP" "\<And>r. map_of t (pk, RIP) = Some r \<Longrightarrow> 1 \<le> m_col_version r"
  shows "meta_local_cl pk (meta_winner_clock pk col cv w sq ord t) =
    (if meta_local_cl pk t = 0 then 1 else meta_local_cl pk t)"
proof -
  have "meta_pkexists pk (meta_winner_clock pk col cv w sq ord t)"
    by (auto simp: meta_pkexists_iff map_of_winner_clock)
  then show ?thesis using assms
    by (auto simp: meta_local_cl_def map_of_winner_clock split: option.splits)
qed

lemma local_cl_row_drop:
  assumes "map_of t (pk, RIP) \<noteq> None"
  shows "meta_local_cl pk (meta_row_drop pk t) = meta_local_cl pk t"
  using assms by (auto simp: meta_local_cl_def map_of_row_drop moves_def)

lemma col_version_stmts:
  "col \<noteq> RIP \<Longrightarrow> meta_col_version pk col (meta_winner_clock pk RIP cl w sq ord t) = meta_col_version pk col t"
  "meta_col_version pk col (meta_winner_clock pk col cv w sq ord t) = Some cv"
  "col \<noteq> RIP \<Longrightarrow> meta_col_version pk col (meta_row_drop pk t) = None"
  by (auto simp: meta_col_version_def map_of_winner_clock map_of_row_drop moves_def)

section \<open>The operations of a merge on the stamp\<close>

lemma insert_col_stamp:
  assumes "accepting ti vs s" "change_ok ti vs col s c" "ch_cl c mod 2 = 1"
  obtains r' s' g h where "merge_insert_col ti (pk_blob vs) col (ch_value c) (ch_col_version c) (ch_db_version c)
      (ch_site_id c) (ch_seq c) r s = ((0, r'), s')" "merged ti g h s s'" "accepting ti vs s'"
    "stamp_of ti vs col s' = (if fst (stamp_of ti vs col s) = 0 then 1 else fst (stamp_of ti vs col s),
       Some (ch_col_version c, Some (ch_value c)))"
proof -
  obtain t u where tu: "meta_table_of s ti = Some t" "user_table_of (t_name (tbl s ti)) (db s) = Some u" "rows_ok u vs"
    "ready ti s" "wf_key (t_npks (tbl s ti)) vs" "\<forall>r. map_of t (pk_blob vs, RIP) = Some r \<longrightarrow> 1 \<le> m_col_version r"
    using accepting_tables [OF assms(1)] .
  have c: "col \<in> set (t_cols (tbl s ti))" "ch_site_id c \<noteq> []" "col \<noteq> RIP" "ch_value c = VNull \<Longrightarrow> nullable u col"
    using assms(2,3) tu(2) by (auto simp: change_ok_def)
  obtain h w ord r' s' where s': "merge_insert_col ti (pk_blob vs) col (ch_value c) (ch_col_version c) (ch_db_version c)
      (ch_site_id c) (ch_seq c) r s = ((0, r'), s')"
    "merged ti (meta_winner_clock (pk_blob vs) col (ch_col_version c) w (ch_seq c) ord) h s s'"
    "map_of (h (u_rows u)) = (map_of (u_rows u))(vs \<mapsto> written_row u vs col (ch_value c))"
    using insert_col_ok [OF tu(4,2,5) c(1) accepts_ok [OF tu(3) c(4)] c(2)] by metis
  have row: "\<not> lacks_value u (written_row u vs col (ch_value c))"
    using accepts_ok [OF tu(3) c(4)] by (auto simp: written_row_def accepts_def split: option.splits)
  have "accepting ti vs s'"
    by (rule merged_accepting [OF s'(2) assms(1) tu(1,2)]) (use s'(3) row tu(6) c(3) in \<open>auto simp: map_of_winner_clock\<close>)
  moreover have "fst (stamp_of ti vs col s) = meta_local_cl (pk_blob vs) t" using tu(1) by (simp add: stamp_of_def)
  then have "stamp_of ti vs col s' = (if fst (stamp_of ti vs col s) = 0 then 1 else fst (stamp_of ti vs col s),
      Some (ch_col_version c, Some (ch_value c)))"
    using s'(3) by (simp add: merged_stamp [OF s'(2) tu(1,2)] local_cl_winner_col [OF c(3) tu(6) [rule_format]] col_version_stmts written_row_def)
  ultimately show ?thesis using that s'(1,2) by blast
qed

lemma sentinel_stamp:
  assumes "accepting ti vs s" "change_ok ti vs col s c" "1 \<le> ch_cl c"
  obtains r' s' g h where "merge_sentinel_only_insert ti (pk_blob vs) (ch_cl c) (ch_db_version c)
      (ch_site_id c) (ch_seq c) r s = ((0, r'), s')" "merged ti g h s s'" "accepting ti vs s'"
    "fst (stamp_of ti vs col s') = ch_cl c"
proof -
  obtain t u where tu: "meta_table_of s ti = Some t" "user_table_of (t_name (tbl s ti)) (db s) = Some u" "rows_ok u vs"
    "ready ti s" "wf_key (t_npks (tbl s ti)) vs" "\<forall>r. map_of t (pk_blob vs, RIP) = Some r \<longrightarrow> 1 \<le> m_col_version r"
    using accepting_tables [OF assms(1)] .
  have c: "ch_site_id c \<noteq> []" "\<not> lacks_value u (default_row u)" using assms(2) tu(3) by (auto simp: change_ok_def rows_ok_def)
  obtain g h w w' ord r' s' where s': "merge_sentinel_only_insert ti (pk_blob vs) (ch_cl c) (ch_db_version c)
      (ch_site_id c) (ch_seq c) r s = ((0, r'), s')" "merged ti g h s s'"
    "g t = meta_winner_clock (pk_blob vs) RIP (ch_cl c) w (ch_seq c) ord (meta_zero_clock w' (pk_blob vs) t)"
    "map_of (h (u_rows u)) = (case map_of (u_rows u) vs of
       None \<Rightarrow> (map_of (u_rows u))(vs \<mapsto> default_row u) | Some _ \<Rightarrow> map_of (u_rows u))"
    using sentinel_ok [OF tu(4,2,5) c(2,1) tu(1)] by metis
  have "accepting ti vs s'"
    by (rule merged_accepting [OF s'(2) assms(1) tu(1,2)])
      (use s'(3,4) tu(3) assms(3) in \<open>auto simp: map_of_winner_clock rows_ok_def split: option.splits\<close>)
  moreover have "fst (stamp_of ti vs col s') = ch_cl c"
    using s'(3) by (simp add: merged_stamp [OF s'(2) tu(1,2)])
  ultimately show ?thesis using that s'(1,2) by blast
qed

lemma delete_stamp:
  assumes "accepting ti vs s" "change_ok ti vs col s c" "ch_cl c mod 2 = 0" "1 \<le> ch_cl c"
  obtains r' s' g h where "merge_delete ti (pk_blob vs) RIP (ch_cl c) (ch_db_version c)
      (ch_site_id c) (ch_seq c) r s = ((0, r'), s')" "merged ti g h s s'" "accepting ti vs s'"
    "stamp_of ti vs col s' = (ch_cl c, None)"
proof -
  obtain t u where tu: "meta_table_of s ti = Some t" "user_table_of (t_name (tbl s ti)) (db s) = Some u" "rows_ok u vs"
    "ready ti s" "wf_key (t_npks (tbl s ti)) vs" "\<forall>r. map_of t (pk_blob vs, RIP) = Some r \<longrightarrow> 1 \<le> m_col_version r"
    using accepting_tables [OF assms(1)] .
  have c: "ch_site_id c \<noteq> []" "col \<noteq> RIP" using assms(2) by (auto simp: change_ok_def)
  obtain h w ord r' s' where s': "merge_delete ti (pk_blob vs) RIP (ch_cl c) (ch_db_version c)
      (ch_site_id c) (ch_seq c) r s = ((0, r'), s')"
    "merged ti (meta_row_drop (pk_blob vs) \<circ> meta_winner_clock (pk_blob vs) RIP (ch_cl c) w (ch_seq c) ord) h s s'"
    "map_of (h (u_rows u)) = (map_of (u_rows u))(vs := None)"
    using delete_ok [OF tu(4,2,5) c(1)] by metis
  let ?w = "meta_winner_clock (pk_blob vs) RIP (ch_cl c) w (ch_seq c) ord t"
  have "map_of ?w (pk_blob vs, RIP) \<noteq> None" by (simp add: map_of_winner_clock)
  note cl = local_cl_row_drop [OF this]
  have "accepting ti vs s'"
    by (rule merged_accepting [OF s'(2) assms(1) tu(1,2)])
      (use s'(3) assms(4) in \<open>auto simp: map_of_row_drop moves_def map_of_winner_clock\<close>)
  moreover have "stamp_of ti vs col s' = (ch_cl c, None)"
    using cl by (simp add: merged_stamp [OF s'(2) tu(1,2)] col_version_stmts(3) [OF c(2)])
  ultimately show ?thesis using that s'(1,2) by blast
qed

text \<open>The comparison of column versions and values is the comparison of stamps with equal causal length.\<close>

lemma did_cid_win_stamp:
  assumes "accepting ti vs s" "change_ok ti vs col s c" "ch_cl c mod 2 = 1"
  shows "\<exists>flag. merge_did_cid_win ti (pk_blob vs) (ch_value c) (ch_site_id c) (Some col) (ch_col_version c) s = ((0, flag), s) \<and>
    (fst (stamp_of ti vs col s) = ch_cl c \<longrightarrow> (flag \<longleftrightarrow> 0 < stamp_cmp (change_stamp c) (stamp_of ti vs col s)))"
proof -
  obtain t u where tu: "meta_table_of s ti = Some t" "user_table_of (t_name (tbl s ti)) (db s) = Some u" "rows_ok u vs"
    "ready ti s" "wf_key (t_npks (tbl s ti)) vs"
    using accepting_tables [OF assms(1)] by metis
  have c: "col \<in> set (t_cols (tbl s ti))" using assms(2) by (simp add: change_ok_def)
  have r: "faults s = []" "\<not> c_merge_equal_values s" using tu(4) by (auto simp: ready_def)
  obtain i where i: "table_column_lookup (tbl s ti) col = Some i" "str_case_eq (t_cols (tbl s ti) ! i) col"
    using table_column_lookup_Some [OF c] .
  obtain vm where vm: "bind_key (t_npks (tbl s ti)) (pk_blob vs) s = ((0, vm), s)" "key_values (t_npks (tbl s ti)) vm = vs"
    using bind_key_ok [OF r(1) tu(5) order_refl] .
  have val: "real_col_value n (t_cols (tbl s ti) ! i) vs d = real_col_value n col vs d" for n d
    unfolding real_col_value_def by (rule option.map_cong [OF refl col_case(2) [OF i(2)]])
  let ?flag = "case meta_col_version (pk_blob vs) col t of None \<Rightarrow> True
    | Some v \<Rightarrow> v < ch_col_version c \<or> (v = ch_col_version c \<and>
        0 < dbutils_value_compare (Some (ch_value c)) (real_col_value (t_name (tbl s ti)) col vs (db s)))"
  have "merge_did_cid_win ti (pk_blob vs) (ch_value c) (ch_site_id c) (Some col) (ch_col_version c) s = ((0, ?flag), s)"
    using r i(1) vm tu(1,2)
    by (auto simp: merge_did_cid_win_def merge_get_col_version_def Let_def val split: option.split)
  moreover have "fst (stamp_of ti vs col s) = ch_cl c \<longrightarrow> (?flag \<longleftrightarrow> 0 < stamp_cmp (change_stamp c) (stamp_of ti vs col s))"
    using tu(1) assms(3) by (auto simp: stamp_of_def stamp_cmp_def change_stamp_def split: option.split)
  ultimately show ?thesis by blast
qed

section \<open>The merge keeps the greater stamp\<close>

lemma keep_greater_cl:
  assumes "fst (change_stamp c) \<noteq> fst l"
  shows "stamps.keep_greater l (change_stamp c) = (if ch_cl c < fst l then l else change_stamp c)"
  using assms by (simp add: stamps.keep_greater_def stamp_cmp_def change_stamp_def sgn_if)

lemma merge_refines:
  assumes "accepting ti vs s" "change_ok ti vs col s c"
  obtains r' s' where "cloudsync_merge_insert c r s = ((0, r'), s')" "accepting ti vs s'"
    "\<And>c'. change_ok ti vs col s c' \<Longrightarrow> change_ok ti vs col s' c'"
    "stamp_of ti vs col s' = stamps.keep_greater (stamp_of ti vs col s) (change_stamp c)"
proof -
  obtain t u where tu: "meta_table_of s ti = Some t" "ready ti s"
    "\<forall>r. map_of t (pk_blob vs, RIP) = Some r \<longrightarrow> 1 \<le> m_col_version r"
    using accepting_tables [OF assms(1)] by metis
  note k = assms(2) [unfolded change_ok_def]
  let ?L = "meta_local_cl (pk_blob vs) t" and ?run = "cloudsync_merge_insert c r s"
  let ?name = "case ch_name c of Some n \<Rightarrow> n | None \<Rightarrow> RIP"
  have r: "faults s = []" "t_algo (tbl s ti) \<noteq> table_algo_crdt_gos" using tu(2) by (auto simp: ready_def)
  have L: "fst (stamp_of ti vs col s) = ?L" "0 \<le> ?L"
    using tu(1,3) by (auto simp: stamp_of_def meta_local_cl_def split: option.split)
  have cl: "merge_get_local_cl ti (pk_blob vs) s = (?L, s)"
    using r tu(1) by (simp add: merge_get_local_cl_def)
  have "\<not> ?L < 0" using L(2) by simp
  note run = cloudsync_merge_insert_def [of c r s] k r cl this
  have cs: "fst (change_stamp c) = ch_cl c" by (simp add: change_stamp_def)
  consider (stale) "ch_cl c < ?L" | (again) "ch_cl c mod 2 = 0" "ch_cl c = ?L" | (delete) "ch_cl c mod 2 = 0" "?L < ch_cl c"
    | (resurrect) "ch_cl c mod 2 = 1" "?L < ch_cl c" "?L \<noteq> 0 \<or> 1 < ch_cl c"
    | (first) "ch_cl c mod 2 = 1" "?L = 0" "ch_cl c = 1" | (same) "ch_cl c mod 2 = 1" "ch_cl c = ?L"
    using L(2) by linarith
  then show ?thesis
  proof cases
    case stale
    then have "?run = ((0, r), s)" by (simp add: run Let_def)
    moreover have "stamps.keep_greater (stamp_of ti vs col s) (change_stamp c) = stamp_of ti vs col s"
      using stale cs L(1) by (simp add: keep_greater_cl)
    ultimately show ?thesis using that assms(1) by metis
  next
    case again
    then have "?run = ((0, r), s)" by (simp add: run Let_def)
    moreover have "stamps.keep_greater (stamp_of ti vs col s) (change_stamp c) = stamp_of ti vs col s"
      using again cs L(1) by (auto simp: stamps.keep_greater_def stamp_cmp_def change_stamp_def split: option.split)
    ultimately show ?thesis using that assms(1) by metis
  next
    case delete
    have "1 \<le> ch_cl c" using delete L(2) by linarith
    then obtain r' s' g h where s': "merge_delete ti (pk_blob vs) RIP (ch_cl c) (ch_db_version c)
        (ch_site_id c) (ch_seq c) r s = ((0, r'), s')" "merged ti g h s s'" "accepting ti vs s'"
        "stamp_of ti vs col s' = (ch_cl c, None)"
      using delete_stamp [OF assms delete(1)] by metis
    have "?run = ((0, r'), s')" using delete s'(1) by (simp add: run Let_def)
    moreover have "stamps.keep_greater (stamp_of ti vs col s) (change_stamp c) = (ch_cl c, None)"
      using delete cs L(1) by (simp add: keep_greater_cl) (simp add: change_stamp_def)
    ultimately show ?thesis using that s'(3,4) merged_change_ok [OF s'(2)] by metis
  next
    case resurrect
    have ge: "1 \<le> ch_cl c" using resurrect L(2) by linarith
    obtain r1 s1 g h where s1: "merge_sentinel_only_insert ti (pk_blob vs) (ch_cl c) (ch_db_version c)
        (ch_site_id c) (ch_seq c) r s = ((0, r1), s1)" "merged ti g h s s1" "accepting ti vs s1"
        "fst (stamp_of ti vs col s1) = ch_cl c"
      using sentinel_stamp [OF assms ge] .
    note k1 = merged_change_ok [OF s1(2)]
    obtain flag where f: "merge_did_cid_win ti (pk_blob vs) (ch_value c) (ch_site_id c) (Some col) (ch_col_version c) s1 = ((0, flag), s1)"
      using did_cid_win_stamp [OF s1(3) k1 [OF assms(2)] resurrect(1)] by blast
    obtain r' s' g' h' where s': "merge_insert_col ti (pk_blob vs) col (ch_value c) (ch_col_version c) (ch_db_version c)
        (ch_site_id c) (ch_seq c) r1 s1 = ((0, r'), s')" "merged ti g' h' s1 s'" "accepting ti vs s'"
        "stamp_of ti vs col s' = (if fst (stamp_of ti vs col s1) = 0 then 1 else fst (stamp_of ti vs col s1),
           Some (ch_col_version c, Some (ch_value c)))"
      using insert_col_stamp [OF s1(3) k1 [OF assms(2)] resurrect(1)] .
    have "?run = ((0, r'), s')" using resurrect s1(1) f s'(1) k by (auto simp: run Let_def)
    moreover have "stamp_of ti vs col s' = change_stamp c"
      using s'(4) s1(4) ge resurrect(1) by (simp add: change_stamp_def)
    moreover have "stamps.keep_greater (stamp_of ti vs col s) (change_stamp c) = change_stamp c"
      using resurrect cs L(1) by (simp add: keep_greater_cl)
    ultimately show ?thesis using that s'(3) k1 merged_change_ok [OF s'(2)] by metis
  next
    case first
    obtain flag where f: "merge_did_cid_win ti (pk_blob vs) (ch_value c) (ch_site_id c) (Some col) (ch_col_version c) s = ((0, flag), s)"
      using did_cid_win_stamp [OF assms first(1)] by blast
    obtain r' s' g' h' where s': "merge_insert_col ti (pk_blob vs) col (ch_value c) (ch_col_version c) (ch_db_version c)
        (ch_site_id c) (ch_seq c) r s = ((0, r'), s')" "merged ti g' h' s s'" "accepting ti vs s'"
        "stamp_of ti vs col s' = (if fst (stamp_of ti vs col s) = 0 then 1 else fst (stamp_of ti vs col s),
           Some (ch_col_version c, Some (ch_value c)))"
      using insert_col_stamp [OF assms first(1)] .
    have "?run = ((0, r'), s')" using first f s'(1) k by (auto simp: run Let_def)
    moreover have "stamp_of ti vs col s' = change_stamp c" using s'(4) L(1) first by (simp add: change_stamp_def)
    moreover have "stamps.keep_greater (stamp_of ti vs col s) (change_stamp c) = change_stamp c"
      using first cs L(1) by (simp add: keep_greater_cl)
    ultimately show ?thesis using that s'(3) merged_change_ok [OF s'(2)] by metis
  next
    case same
    obtain flag where f: "merge_did_cid_win ti (pk_blob vs) (ch_value c) (ch_site_id c) (Some col) (ch_col_version c) s = ((0, flag), s)"
      "flag \<longleftrightarrow> 0 < stamp_cmp (change_stamp c) (stamp_of ti vs col s)"
      using did_cid_win_stamp [OF assms same(1)] same(2) L(1) by auto
    obtain r' s' g' h' where s': "merge_insert_col ti (pk_blob vs) col (ch_value c) (ch_col_version c) (ch_db_version c)
        (ch_site_id c) (ch_seq c) r s = ((0, r'), s')" "merged ti g' h' s s'" "accepting ti vs s'"
        "stamp_of ti vs col s' = (if fst (stamp_of ti vs col s) = 0 then 1 else fst (stamp_of ti vs col s),
           Some (ch_col_version c, Some (ch_value c)))"
      using insert_col_stamp [OF assms same(1)] .
    have "?L \<noteq> 0" using same by auto
    then have run': "?run = (if flag then ((0, r'), s') else ((0, r), s))"
      using same f(1) s'(1) k by (auto simp: run Let_def)
    show ?thesis
    proof (cases flag)
      case True
      have "stamp_of ti vs col s' = change_stamp c"
        using s'(4) L(1) same \<open>?L \<noteq> 0\<close> by (simp add: change_stamp_def)
      with True f(2) run' show ?thesis
        using that s'(3) merged_change_ok [OF s'(2)] by (metis stamps.keep_greater_def)
    next
      case False
      with f(2) run' show ?thesis using that assms(1) by (metis stamps.keep_greater_def)
    qed
  qed
qed

section \<open>Properties\<close>

text \<open>A table with its rows, for the witnesses.\<close>

definition merge_users :: user_table where
  "merge_users = \<lparr>u_sql = [], u_columns =
     [\<lparr>col_name = ''id'', col_type = ''TEXT'', col_notnull = True, col_dflt = None, col_pk = 1\<rparr>,
      \<lparr>col_name = ''c'', col_type = ''TEXT'', col_notnull = False, col_dflt = None, col_pk = 0\<rparr>], u_rows = []\<rparr>"

definition merge_demo :: state where
  "merge_demo = local_demo\<lparr>c_db_version := 7, c_data_version := 2, db := demo_db\<lparr>d_users := [(''t'', merge_users)]\<rparr>\<rparr>"

definition merge_change :: "int \<Rightarrow> int \<Rightarrow> sqlval \<Rightarrow> change" where
  "merge_change cl cv v = \<lparr>ch_tbl = ''t'', ch_pk = pk_blob [VText [97]], ch_name = (if cl mod 2 = 0 then None else Some ''c''),
     ch_value = v, ch_col_version = (if cl mod 2 = 0 then cl else cv), ch_db_version = 40, ch_site_id = [1, 2], ch_cl = cl, ch_seq = 3\<rparr>"

lemma merge_demo_facts:
  "tbl merge_demo 0 = demo_table" "table_lookup ''t'' merge_demo = Some 0" "meta_table_of merge_demo 0 = Some demo_meta"
  "user_table_of ''t'' (db merge_demo) = Some merge_users" "map_of demo_meta (pk_blob [VText [97]], RIP) = None"
  by code_simp+

lemma merge_demo_accepting: "accepting 0 [VText [97]] merge_demo"
proof -
  have "ready 0 merge_demo"
    by (simp add: ready_def merge_demo_facts demo_table_def)
      (simp add: merge_demo_def local_demo_def demo_state_def cloudsync_context_create_def demo_db_def demo_table_def
        synced_def has_trigger_def)
  moreover have "wf_key (t_npks demo_table) [VText [97]]" by (simp add: wf_key_def demo_table_def)
  moreover have "rows_ok merge_users [VText [97]]" by (simp add: rows_ok_def merge_users_def lacks_value_def)
  ultimately show ?thesis by (simp add: accepting_def merge_demo_facts demo_table_def)
qed

lemma merge_change_ok:
  assumes "not_nan v"
  shows "change_ok 0 [VText [97]] ''c'' merge_demo (merge_change cl cv v)"
proof -
  have "nullable merge_users ''c''" "''c'' \<noteq> RIP" by code_simp+
  then show ?thesis using assms by (simp add: change_ok_def merge_change_def merge_demo_facts demo_table_def)
qed



fun merge_all :: "change list \<Rightarrow> state \<Rightarrow> state" where
  "merge_all [] s = s"
| "merge_all (c # cs) s = merge_all cs (snd (cloudsync_merge_insert c 0 s))"

lemma merge_all_stamp:
  assumes "accepting ti vs s" "\<forall>c \<in> set cs. change_ok ti vs col s c"
  shows "stamp_of ti vs col (merge_all cs s) =
    fold (\<lambda>i l. stamps.keep_greater l i) (map change_stamp cs) (stamp_of ti vs col s)"
  using assms
proof (induction cs arbitrary: s)
  case (Cons c cs)
  obtain r' s' where s': "cloudsync_merge_insert c 0 s = ((0, r'), s')" "accepting ti vs s'"
    "\<And>c'. change_ok ti vs col s c' \<Longrightarrow> change_ok ti vs col s' c'"
    "stamp_of ti vs col s' = stamps.keep_greater (stamp_of ti vs col s) (change_stamp c)"
    using merge_refines [OF Cons.prems(1), of col c] Cons.prems(2) by auto
  then show ?case using Cons by simp
qed simp



text \<open>C12. Whatever call of the engine fails while a change is merged, the flag \<open>insync\<close> is cleared at the end, so
  the triggers record local changes again; and the merge itself is never recorded as a local change: no
  sequence number is taken and neither settings nor triggers are touched.\<close>

theorem merge_is_not_local:
  assumes "\<not> c_insync s"
  shows "\<not> c_insync (snd (cloudsync_merge_insert c r s)) \<and>
    c_seq (snd (cloudsync_merge_insert c r s)) = c_seq s \<and>
    d_settings (db (snd (cloudsync_merge_insert c r s))) = d_settings (db s) \<and>
    d_table_settings (db (snd (cloudsync_merge_insert c r s))) = d_table_settings (db s) \<and>
    d_triggers (db (snd (cloudsync_merge_insert c r s))) = d_triggers (db s)"
  using syncbit.merge_insert_keeps [OF assms, of c r] remote.merge_insert_keeps [of s "local_fields s" c r]
  by (simp add: local_fields_def)

theorem merge_is_not_local_witness:
  "let s = merge_demo\<lparr>faults := [0, 0, 0, 0, 0, 0, 0, 0, 10], db := (db merge_demo)\<lparr>d_triggers := [''cloudsync_after_insert_t'']\<rparr>\<rparr>;
     s' = snd (cloudsync_merge_insert (merge_change 3 1 (VInteger 5)) 0 s)
   in \<not> c_insync s' \<and> c_seq s' = c_seq s"
proof -
  have "c_insync merge_demo = False" by code_simp
  then show ?thesis using merge_is_not_local by (simp add: Let_def)
qed

text \<open>C29. A change that is written leaves a clock row with its own column version and sequence number, with the
  ordinal of the site it comes from, and with a version that is greater than the version of this database and
  not below the version the change had where it comes from.\<close>

theorem merge_insert_col_clock:
  assumes "accepting ti vs s" "change_ok ti vs col s c" "ch_cl c mod 2 = 1"
  shows "\<exists>s' r' t' row. merge_insert_col ti (ch_pk c) col (ch_value c) (ch_col_version c) (ch_db_version c)
      (ch_site_id c) (ch_seq c) r s = ((0, r'), s') \<and>
    meta_table_of s' ti = Some t' \<and> map_of t' (pk_blob vs, col) = Some row \<and>
    m_col_version row = ch_col_version c \<and> m_seq row = ch_seq c \<and>
    (m_site_id row, ch_site_id c) \<in> set (the (d_site_ids (db s'))) \<and>
    ch_db_version c \<le> m_db_version row \<and> c_db_version s < m_db_version row"
proof -
  obtain t u where tu: "meta_table_of s ti = Some t" "user_table_of (t_name (tbl s ti)) (db s) = Some u" "rows_ok u vs"
    "ready ti s" "wf_key (t_npks (tbl s ti)) vs"
    using accepting_tables [OF assms(1)] by metis
  have c: "col \<in> set (t_cols (tbl s ti))" "ch_site_id c \<noteq> []" "ch_pk c = pk_blob vs" "ch_value c = VNull \<Longrightarrow> nullable u col"
    using assms(2,3) tu(2) by (auto simp: change_ok_def)
  obtain h w ord r' s' where s': "merge_insert_col ti (pk_blob vs) col (ch_value c) (ch_col_version c) (ch_db_version c)
      (ch_site_id c) (ch_seq c) r s = ((0, r'), s')"
    "merged ti (meta_winner_clock (pk_blob vs) col (ch_col_version c) w (ch_seq c) ord) h s s'"
    "ch_db_version c \<le> w" "c_db_version s < w" "(ord, ch_site_id c) \<in> set (the (d_site_ids (db s')))"
    using insert_col_ok [OF tu(4,2,5) c(1) accepts_ok [OF tu(3) c(4)] c(2)] by metis
  then show ?thesis
    using merged_fields(2) [OF s'(2)] tu(1) c(3) by (simp add: map_of_winner_clock)
qed

theorem merge_insert_col_clock_witness:
  "\<exists>s' r' t' row. merge_insert_col 0 (pk_blob [VText [97]]) ''c'' (VInteger 5) 9 40 [1, 2] 3 0 merge_demo = ((0, r'), s') \<and>
     meta_table_of s' 0 = Some t' \<and> map_of t' (pk_blob [VText [97]], ''c'') = Some row \<and> m_col_version row = 9 \<and>
     40 \<le> m_db_version row"
  using merge_insert_col_clock [OF merge_demo_accepting merge_change_ok [of "VInteger 5" 1 9], of 0]
  by (auto simp: merge_change_def)

text \<open>Once its key is bound, the write of a change into a grow-only table leaves the table switched on, whatever
  fails afterwards, also when the application had switched it off with \<open>cloudsync_disable\<close>.\<close>

theorem gos_merge_enables:
  assumes "t_algo (tbl s ti) = table_algo_crdt_gos" "ti < length (c_tables s)" "c_tables s ! ti \<noteq> None"
    and "table_column_lookup (tbl s ti) col = Some i"
    and "bind_key (t_npks (tbl s ti) + 2) pk s = ((SQLITE_OK, vm), s1)" "binds 2 s1 = (SQLITE_OK, s2)"
  shows "t_enabled (tbl (snd (merge_insert_col ti pk col v cv dbv site sq r s)) ti)"
proof -
  let ?s3 = "upd_tbl ti (t_enabled_update (\<lambda>_. False)) s2" and ?t = "tbl s ti"
  have s2: "c_tables s2 = c_tables s"
    using registry.bind_key_keeps [of s "c_tables s" "t_npks ?t + 2" pk] registry.binds_keeps [of s1 "c_tables s" 2] assms(5,6)
    by simp
  obtain rc s4 where s4: "in_sync (real_merge_upsert (t_name ?t) (t_cols ?t ! i) (key_values (t_npks ?t) vm) v v) ?s3 = (rc, s4)"
    by fastforce
  have c4: "c_tables s4 = c_tables ?s3"
    using in_sync_rows(1) [of c_tables "t_name ?t" "t_cols ?t ! i" "key_values (t_npks ?t) vm" v v ?s3] s4 by simp
  let ?s5 = "upd_tbl ti (t_enabled_update (\<lambda>_. True)) s4"
  have on: "t_enabled (tbl s' ti)" if "c_tables s' = c_tables ?s5" for s' :: state
    using that c4 s2 assms(2,3) by (auto simp: tbl_def upd_tbl_def)
  have "c_tables (snd (merge_set_winner_clock ti pk (Some col) cv dbv site sq r ?s5)) = c_tables ?s5"
    by (rule registry.merge_set_winner_clock_keeps) simp
  then show ?thesis
    using assms(1,4-6) s4 on [OF refl] by (simp add: merge_insert_col_def Let_def on)
qed

theorem gos_merge_enables_witness:
  "let s = merge_demo\<lparr>c_tables := [Some (demo_table\<lparr>t_algo := table_algo_crdt_gos, t_enabled := False\<rparr>)]\<rparr> in
   \<not> t_enabled (tbl s 0) \<and>
   t_enabled (tbl (snd (merge_insert_col 0 (pk_blob [VText [97]]) ''c'' (VInteger 5) 1 40 [1, 2] 3 0 s)) 0)"
proof -
  let ?s = "merge_demo\<lparr>c_tables := [Some (demo_table\<lparr>t_algo := table_algo_crdt_gos, t_enabled := False\<rparr>)]\<rparr>"
  have h: "tbl ?s 0 = demo_table\<lparr>t_algo := table_algo_crdt_gos, t_enabled := False\<rparr>"
    "table_column_lookup (tbl ?s 0) ''c'' = Some 0" by code_simp+
  have f: "faults ?s = []" by (simp add: merge_demo_def local_demo_def demo_state_def cloudsync_context_create_def)
  have k: "wf_key (t_npks (tbl ?s 0)) [VText [97]]" using h(1) by (simp add: wf_key_def demo_table_def)
  obtain vm where vm: "bind_key (t_npks (tbl ?s 0) + 2) (pk_blob [VText [97]]) ?s = ((0, vm), ?s)"
    using bind_key_ok [OF f k le_add1] .
  have "t_enabled (tbl (snd (merge_insert_col 0 (pk_blob [VText [97]]) ''c'' (VInteger 5) 1 40 [1, 2] 3 0 ?s)) 0)"
    by (rule gos_merge_enables [OF _ _ _ h(2) vm]) (use h(1) f in simp_all)
  then show ?thesis unfolding Let_def using h(1) by simp
qed

end
