(* ===== verification/Schema.thy ===== *)
theory Schema
  imports Converge
begin

text \<open>
  What the library asks of and adds to the schema (src/src/dbutils.c): the check of a table before it is
  augmented, the triggers, the clock table, the hash of the schema with its history, and the library's own
  tables. A trigger is known by its name; what it does is in theory \<open>Rows\<close>. The texts of the triggers are built
  from queries on the columns: when such a query fails the code goes on with \<open>rowid\<close> in the place of the key,
  which the model does not represent, and \<open>ub\<close> is set.
\<close>

section \<open>What exists\<close>

definition table_names :: "database \<Rightarrow> string list" where
  "table_names d =
     map fst (d_users d) @ map (\<lambda>(n, _). n @ ''_cloudsync'') (d_meta d) @
     (if d_settings d \<noteq> None then [''cloudsync_settings''] else []) @
     (if d_site_ids d \<noteq> None then [''cloudsync_site_id''] else []) @
     (if d_table_settings d \<noteq> None then [''cloudsync_table_settings''] else []) @
     (if d_schema_versions d \<noteq> None then [''cloudsync_schema_versions''] else [])"

text \<open>An error counts as "does not exist".\<close>

definition dbutils_system_exists :: "string \<Rightarrow> (database \<Rightarrow> string list) \<Rightarrow> state \<Rightarrow> bool \<times> state" where
  "dbutils_system_exists name names s =
     (case and_then (prepare True s) (binds 2) of (rc, s) \<Rightarrow>
        (rc = SQLITE_OK \<and> list_ex (\<lambda>n. str_case_eq n name) (names (db s)), s))"

definition dbutils_table_exists :: "string \<Rightarrow> state \<Rightarrow> bool \<times> state" where
  "dbutils_table_exists name s = dbutils_system_exists name table_names s"

definition dbutils_trigger_exists :: "string \<Rightarrow> state \<Rightarrow> bool \<times> state" where
  "dbutils_trigger_exists name s = dbutils_system_exists name d_triggers s"

definition cloudsync_config_exists :: "state \<Rightarrow> bool \<times> state" where
  "cloudsync_config_exists s = dbutils_table_exists ''cloudsync_site_id'' s"

section \<open>The check of a table\<close>

text \<open>\<open>"type" LIKE '%INT%'\<close>\<close>

definition like_int :: "string \<Rightarrow> bool" where
  "like_int ty = list_ex (\<lambda>i. take 3 (drop i (lowercase ty)) = ''int'') [0..<length ty]"

definition count_columns :: "(column \<Rightarrow> bool) \<Rightarrow> string \<Rightarrow> state \<Rightarrow> int \<times> state" where
  "count_columns p name s = dbutils_int_select True (\<lambda>d. count_row (filter (\<lambda>(_, c). p c) (table_info name d))) s"

definition dbutils_table_sanity_check :: "string option \<Rightarrow> bool \<Rightarrow> state \<Rightarrow> bool \<times> state" where
  "dbutils_table_sanity_check table skip_int_pk_check s =
     (case table of None \<Rightarrow> (False, s)
      | Some name \<Rightarrow>
        if length name > 2048 - 148 then (False, s)
        else case dbutils_table_exists name s of (ex, s) \<Rightarrow>
        if \<not> ex then (False, s)
        else case count_columns (\<lambda>c. col_pk c > 0) name s of (cnt, s) \<Rightarrow>
        if cnt > 128 \<or> cnt = -1 \<or> cnt = 0 then (False, s)
        else case (if \<not> skip_int_pk_check \<and> cnt = 1
                   then (case count_columns (\<lambda>c. col_pk c = 1 \<and> like_int (col_type c)) name s of
                           (cnt2, s) \<Rightarrow> (cnt \<noteq> cnt2 \<and> cnt2 \<noteq> -1, s))
                   else (True, s)) of (ok, s) \<Rightarrow>
        if \<not> ok then (False, s)
        else case count_columns (\<lambda>c. col_pk c > 0 \<and> col_notnull c) name s of (cnt2, s) \<Rightarrow>
        if cnt2 = -1 \<or> cnt \<noteq> cnt2 then (False, s)
        else case count_columns (\<lambda>c. col_pk c = 0 \<and> col_notnull c \<and> col_dflt c = None) name s of (cnt3, s) \<Rightarrow>
        (\<not> (cnt3 = -1 \<or> cnt3 > 0), s))"

section \<open>Triggers and clock table\<close>

definition drop_trigger :: "string \<Rightarrow> state \<Rightarrow> int \<times> state" where
  "drop_trigger name s =
     step (\<lambda>s. (SQLITE_OK, s\<lparr>db := (db s)\<lparr>d_triggers := filter (\<lambda>n. \<not> str_case_eq n name) (d_triggers (db s))\<rparr>\<rparr>)) s"

definition dbutils_delete_triggers :: "string \<Rightarrow> state \<Rightarrow> int \<times> state" where
  "dbutils_delete_triggers table s =
     and_then (drop_trigger (''cloudsync_before_update_'' @ table) s) (\<lambda>s.
     and_then (drop_trigger (''cloudsync_before_delete_'' @ table) s) (\<lambda>s.
     and_then (drop_trigger (''cloudsync_after_insert_'' @ table) s) (\<lambda>s.
     and_then (drop_trigger (''cloudsync_after_update_'' @ table) s)
       (drop_trigger (''cloudsync_after_delete_'' @ table)))))"

text \<open>\<open>group_concat(...) FROM pragma_table_info WHERE pk>0\<close> has a value when there is a key column; a failed
  query is read as the missing value.\<close>

definition trigger_columns :: "(string \<Rightarrow> database \<Rightarrow> (nat \<times> column) list) \<Rightarrow> string \<Rightarrow> state \<Rightarrow> state" where
  "trigger_columns cols table s =
     (case dbutils_text_select True (\<lambda>d. Some [if cols table d = [] then VNull else VText []]) s of
        (v, s) \<Rightarrow> if (v = None) \<noteq> (cols table (db s) = []) then s\<lparr>ub := True\<rparr> else s)"

definition create_trigger :: "string \<Rightarrow> string \<Rightarrow> state \<Rightarrow> int \<times> state" where
  "create_trigger table name s =
     step (\<lambda>s. if user_table_of table (db s) = None \<or> list_ex (\<lambda>n. str_case_eq n name) (d_triggers (db s))
               then (SQLITE_ERROR, s)
               else (SQLITE_OK, s\<lparr>db := (db s)\<lparr>d_triggers := d_triggers (db s) @ [name]\<rparr>\<rparr>)) s"

text \<open>A trigger that is there is left as it is.\<close>

definition ensure_trigger :: "(state \<Rightarrow> state) \<Rightarrow> string \<Rightarrow> string \<Rightarrow> state \<Rightarrow> int \<times> state" where
  "ensure_trigger texts table name s =
     (case dbutils_trigger_exists name s of (ex, s) \<Rightarrow>
        if ex then (SQLITE_OK, s) else create_trigger table name (texts s))"

definition dbutils_check_triggers :: "string \<Rightarrow> table_algo \<Rightarrow> state \<Rightarrow> int \<times> state" where
  "dbutils_check_triggers table algo s =
     and_then (ensure_trigger (trigger_columns pk_columns table) table (''cloudsync_after_insert_'' @ table) s) (\<lambda>s.
     if algo \<noteq> table_algo_crdt_gos then
       and_then (ensure_trigger (\<lambda>s. trigger_columns value_columns table (trigger_columns pk_columns table s)) table
                   (''cloudsync_after_update_'' @ table) s)
         (ensure_trigger (trigger_columns pk_columns table) table (''cloudsync_after_delete_'' @ table))
     else
       and_then (ensure_trigger (\<lambda>s. s) table (''cloudsync_before_update_'' @ table) s)
         (ensure_trigger (\<lambda>s. s) table (''cloudsync_before_delete_'' @ table)))"

text \<open>\<open>CREATE TABLE IF NOT EXISTS\<close>, then the index.\<close>

definition dbutils_check_metatable :: "string \<Rightarrow> state \<Rightarrow> int \<times> state" where
  "dbutils_check_metatable table s =
     and_then (step (\<lambda>s. (SQLITE_OK, if meta_of table (db s) \<noteq> None then s
                          else s\<lparr>db := (db s)\<lparr>d_meta := d_meta (db s) @ [(table, [])]\<rparr>\<rparr>)) s)
       (step (\<lambda>s. (SQLITE_OK, s)))"

definition dbutils_schema_version :: "state \<Rightarrow> int \<times> state" where
  "dbutils_schema_version s = dbutils_int_select True (\<lambda>d. Some [VInteger (word_of_int (d_pragma_schema_version d))]) s"

section \<open>The schema hash\<close>

text \<open>
  \<open>group_concat(LOWER(sql))\<close> over the tables whose name stands in \<open>cloudsync_table_settings\<close>. \<open>name IN (...)\<close>
  compares with the collation of \<open>sqlite_master.name\<close>, which is BINARY: the case of the name counts. The tables
  come in the order of the schema; the \<open>ORDER BY\<close> behind the aggregate sorts its one row.
\<close>

definition in_table_settings :: "database \<Rightarrow> string \<Rightarrow> bool" where
  "in_table_settings d n = list_ex (\<lambda>((t, _), _). t = n) (case d_table_settings d of None \<Rightarrow> [] | Some t \<Rightarrow> t)"

fun join_comma :: "byte list list \<Rightarrow> byte list" where
  "join_comma [] = []"
| "join_comma [x] = x"
| "join_comma (x # y # xs) = x @ 44 # join_comma (y # xs)"

definition schema_texts :: "database \<Rightarrow> byte list list" where
  "schema_texts d = map (\<lambda>(_, u). map byte_tolower (u_sql u)) (filter (\<lambda>(n, _). in_table_settings d n) (d_users d))"

definition schema_query :: "database \<Rightarrow> sqlval list option" where
  "schema_query d = Some [if schema_texts d = [] then VNull else VText (join_comma (schema_texts d))]"

text \<open>The hash that is new or known gets the greatest sequence number.\<close>

definition put_schema_version :: "i64 \<Rightarrow> database \<Rightarrow> database" where
  "put_schema_version h d =
     d\<lparr>d_schema_versions := map_option (\<lambda>t. AList.update h (case list_max (map snd t) of None \<Rightarrow> 1 | Some m \<Rightarrow> m + 1) t)
         (d_schema_versions d)\<rparr>"

text \<open>Every caller passes the address of \<open>schema_hash\<close> in the context.\<close>

definition dbutils_update_schema_hash :: "state \<Rightarrow> int \<times> state" where
  "dbutils_update_schema_hash s =
     (case dbutils_text_select (d_table_settings (db s) \<noteq> None) schema_query s of
        (None, s) \<Rightarrow> (SQLITE_ERROR, s)
      | (Some schema, s) \<Rightarrow>
        let h = fnv1a_hash (cstr schema) in
        if c_schema_hash s = h then (SQLITE_CONSTRAINT, s)
        else (case step (\<lambda>s. if d_schema_versions (db s) = None then (SQLITE_ERROR, s)
                             else (SQLITE_OK, s\<lparr>db := put_schema_version h (db s)\<rparr>)) s of
                (rc, s) \<Rightarrow> (rc, if rc = SQLITE_OK then s\<lparr>c_schema_hash := h\<rparr> else s)))"

text \<open>The row with the greatest \<open>seq\<close>.\<close>

fun newest :: "(i64 \<times> int) list \<Rightarrow> (i64 \<times> int) option" where
  "newest [] = None"
| "newest (x # xs) = (case newest xs of None \<Rightarrow> Some x | Some y \<Rightarrow> Some (if snd y > snd x then y else x))"

definition dbutils_schema_hash :: "state \<Rightarrow> i64 \<times> state" where
  "dbutils_schema_hash s =
     (case dbutils_int_select (d_schema_versions (db s) \<noteq> None)
             (\<lambda>d. map_option (\<lambda>(h, _). [VInteger h]) (newest (the (d_schema_versions d)))) s of
        (n, s) \<Rightarrow> (word_of_int n, s))"

definition dbutils_check_schema_hash :: "i64 \<Rightarrow> state \<Rightarrow> bool \<times> state" where
  "dbutils_check_schema_hash hash s =
     (case dbutils_int_select (d_schema_versions (db s) \<noteq> None)
             (\<lambda>d. map_option (\<lambda>_. [VInteger 1]) (map_of (the (d_schema_versions d)) hash)) s of
        (n, s) \<Rightarrow> (n = 1, s))"

section \<open>What they keep and do\<close>

context frame
begin

lemma system_exists_keeps [keeps]: "P s \<Longrightarrow> P (snd (dbutils_system_exists name names s))"
  unfolding dbutils_system_exists_def by (intro keeps)

lemma table_exists_keeps [keeps]: "P s \<Longrightarrow> P (snd (dbutils_table_exists name s))"
  unfolding dbutils_table_exists_def by (intro keeps)

lemma trigger_exists_keeps [keeps]: "P s \<Longrightarrow> P (snd (dbutils_trigger_exists name s))"
  unfolding dbutils_trigger_exists_def by (intro keeps)

lemma count_columns_keeps [keeps]: "P s \<Longrightarrow> P (snd (count_columns p name s))"
  unfolding count_columns_def by (intro keeps)

lemma sanity_check_keeps [keeps]: "P s \<Longrightarrow> P (snd (dbutils_table_sanity_check table skip s))"
  unfolding dbutils_table_sanity_check_def by (intro keeps)

lemma schema_hash_keeps [keeps]: "P s \<Longrightarrow> P (snd (dbutils_schema_hash s))"
  unfolding dbutils_schema_hash_def by (intro keeps)

lemma check_schema_hash_keeps [keeps]: "P s \<Longrightarrow> P (snd (dbutils_check_schema_hash h s))"
  unfolding dbutils_check_schema_hash_def by (intro keeps)

lemma schema_version_keeps [keeps]: "P s \<Longrightarrow> P (snd (dbutils_schema_version s))"
  unfolding dbutils_schema_version_def by (intro keeps)

end

text \<open>A query that answers was not refused.\<close>

lemma select_answer:
  assumes "select legal query types s = ((rc, vs), s')" "rc = 0"
  shows "same s s'" "legal" "vs = (case query (db s) of None \<Rightarrow> [] | Some row \<Rightarrow> snd (exec_columns types row)) \<or> types = []"
proof -
  show sm: "same s s'" using same_frame.select_keeps [OF same_refl, of s] assms(1) by (metis snd_conv)
  obtain rc1 s1 where 1: "prepare legal s = (rc1, s1)" by fastforce
  obtain rc3 s3 where 3: "next_fault s1 = (rc3, s3)" by fastforce
  have "same s s1" using same_frame.prepare_keeps [OF same_refl, of s] 1 by (metis snd_conv)
  then have "same s s3" using same_frame.next_fault_keeps [of s s1] 3 by (metis snd_conv)
  then have d: "db s3 = db s" by (simp add: same_fields)
  have ok: "rc1 = 0" "rc3 = 0"
    using assms 1 3 by (auto simp: select_def dbutils_exec_def split: if_splits)
  show "legal" using ok(1) 1 by (auto simp: prepare_def step_def split: prod.splits if_splits)
  show "vs = (case query (db s) of None \<Rightarrow> [] | Some row \<Rightarrow> snd (exec_columns types row)) \<or> types = []"
    using assms 1 3 ok d by (auto simp: select_def dbutils_exec_def split: option.splits if_splits)
qed

lemma select_columns:
  assumes "select legal query types s = ((rc, vs), s')" "vs \<noteq> []"
  shows "\<exists>row. query (db s) = Some row \<and> exec_columns types row = (rc, vs)"
proof -
  obtain rc1 s1 where 1: "prepare legal s = (rc1, s1)" by fastforce
  obtain rc3 s3 where 3: "next_fault s1 = (rc3, s3)" by fastforce
  have "same s s1" using same_frame.prepare_keeps [OF same_refl, of s] 1 by (metis snd_conv)
  then have "same s s3" using same_frame.next_fault_keeps [of s s1] 3 by (metis snd_conv)
  then have "db s3 = db s" by (simp add: same_fields)
  with assms 1 3 show ?thesis by (auto simp: select_def dbutils_exec_def split: option.splits if_splits)
qed

lemma text_select_answer:
  assumes "dbutils_text_select legal query s = (Some bs, s')"
  shows "\<exists>row. query (db s) = Some (VText bs # row)"
proof -
  obtain rc vs where sel: "select legal query [3] s = ((rc, vs), s')"
    and fr: "(case first_result vs of Some (VText bs) \<Rightarrow> Some bs | _ \<Rightarrow> None) = Some bs"
    using assms by (auto simp: dbutils_text_select_def split: prod.splits)
  have "vs \<noteq> []" using fr by (auto simp: first_result_def)
  then obtain row where row: "query (db s) = Some row" "exec_columns [3] row = (rc, vs)"
    using select_columns [OF sel] by blast
  then show ?thesis using fr
    by (cases row) (auto simp: first_result_def Let_def split: if_splits option.splits sqlval.splits)
qed

lemma int_select_answer:
  assumes "dbutils_int_select legal query s = (n, s')" "n \<noteq> -1"
  shows "same s s'" "legal" "query (db s) = Some (VInteger k # row) \<Longrightarrow> n = sint k"
    "query (db s) = None \<Longrightarrow> n = 0"
proof -
  obtain rc vs where sel: "select legal query [1] s = ((rc, vs), s')" and ok: "rc = 0"
    and n: "n = (case first_result vs of Some (VInteger n) \<Rightarrow> sint n | _ \<Rightarrow> 0)"
    using assms by (auto simp: dbutils_int_select_def split: prod.splits if_splits)
  note ans = select_answer [OF sel ok]
  show "same s s'" "legal" using ans by blast+
  show "n = sint k" if "query (db s) = Some (VInteger k # row)"
    using ans(3) that n by (simp add: first_result_def Let_def value_type.simps)
  show "n = 0" if "query (db s) = None" using ans(3) that n by (simp add: first_result_def)
qed

lemma int_select_none:
  assumes "faults s = []"
  shows "query (db s) = Some (VInteger k # row) \<Longrightarrow> dbutils_int_select True query s = (sint k, s)"
    "query (db s) = None \<Longrightarrow> dbutils_int_select True query s = (0, s)"
  using assms by (simp_all add: dbutils_int_select_def select_def dbutils_exec_def first_result_def)

lemma sint_of_length: "length xs < 2 ^ 63 \<Longrightarrow> sint (word_of_nat (length xs) :: i64) = int (length xs)"
  by (simp add: signed_of_nat signed_take_bit_int_eq_self)

lemma count_columns_answer:
  assumes "count_columns p name s = (n, s')" "n \<noteq> -1"
    and "user_table_of name (db s) = Some u" "length (u_columns u) < 2 ^ 63"
  shows "same s s'" "n = int (length (filter p (u_columns u)))"
proof -
  have "map snd (filter (\<lambda>(_, c). p c) (List.enumerate k cs)) = filter p cs" for cs :: "column list" and k
    by (induction cs arbitrary: k) auto
  then have len: "length (filter (\<lambda>(_, c). p c) (table_info name (db s))) = length (filter p (u_columns u))"
    using assms(3) unfolding table_info_def by (metis length_map option.simps(5))
  note ans = int_select_answer [OF assms(1) [unfolded count_columns_def] assms(2)]
  show "same s s'" by (rule ans(1))
  have "length (filter p (u_columns u)) < 2 ^ 63" using assms(4) length_filter_le le_less_trans by blast
  then show "n = int (length (filter p (u_columns u)))"
    using ans(3) [of "word_of_nat (length (filter (\<lambda>(_, c). p c) (table_info name (db s))))" "[]"]
    by (simp add: count_row_def len sint_of_length)
qed

text \<open>What the check promises of a table that passes.\<close>

lemma sanity_check_counts:
  assumes chk: "dbutils_table_sanity_check (Some name) skip s = (True, s')"
    and u: "user_table_of name (db s) = Some u" "length (u_columns u) < 2 ^ 63"
  shows "same s s'"
    "filter (\<lambda>c. col_pk c > 0) (u_columns u) \<noteq> []"
    "length (filter (\<lambda>c. col_pk c > 0) (u_columns u)) \<le> 128"
    "length (filter (\<lambda>c. col_pk c > 0 \<and> col_notnull c) (u_columns u)) = length (filter (\<lambda>c. col_pk c > 0) (u_columns u))"
    "filter (\<lambda>c. col_pk c = 0 \<and> col_notnull c \<and> col_dflt c = None) (u_columns u) = []"
proof -
  obtain ex s1 where 1: "dbutils_table_exists name s = (ex, s1)" by fastforce
  obtain cnt s2 where 2: "count_columns (\<lambda>c. col_pk c > 0) name s1 = (cnt, s2)" by fastforce
  obtain ok s3 where 3: "(if \<not> skip \<and> cnt = 1 then (case count_columns (\<lambda>c. col_pk c = 1 \<and> like_int (col_type c)) name s2 of
      (cnt2, s) \<Rightarrow> (cnt \<noteq> cnt2 \<and> cnt2 \<noteq> -1, s)) else (True, s2)) = (ok, s3)" by fastforce
  obtain cnt2 s4 where 4: "count_columns (\<lambda>c. col_pk c > 0 \<and> col_notnull c) name s3 = (cnt2, s4)" by fastforce
  obtain cnt3 s5 where 5: "count_columns (\<lambda>c. col_pk c = 0 \<and> col_notnull c \<and> col_dflt c = None) name s4 = (cnt3, s5)"
    by fastforce
  have res: "ex" "\<not> (cnt > 128 \<or> cnt = -1 \<or> cnt = 0)" "ok" "cnt2 \<noteq> -1" "cnt = cnt2" "cnt3 \<noteq> -1" "\<not> cnt3 > 0" "s' = s5"
    using chk 1 2 3 4 5
    by (auto simp: dbutils_table_sanity_check_def split: if_splits cong del: if_weak_cong)
  have m1: "same s s1" using same_frame.table_exists_keeps [OF same_refl, of s] 1 by (metis snd_conv)
  note a2 = count_columns_answer [OF 2]
  have u1: "user_table_of name (db s1) = Some u" using m1 u(1) by (simp add: same_fields)
  have m2: "same s s2" using same_trans [OF m1 a2(1) [OF _ u1 u(2)]] res(2) by blast
  have m3: "same s s3" 
    using 3 m2 same_frame.count_columns_keeps [OF m2] by (auto split: if_splits prod.splits) (metis snd_conv)+
  have u3: "user_table_of name (db s3) = Some u" using m3 u(1) by (simp add: same_fields)
  note a4 = count_columns_answer [OF 4 res(4) u3 u(2)]
  have m4: "same s s4" using same_trans [OF m3 a4(1)] .
  have u4: "user_table_of name (db s4) = Some u" using m4 u(1) by (simp add: same_fields)
  note a5 = count_columns_answer [OF 5 res(6) u4 u(2)]
  show "same s s'" using same_trans [OF m4 a5(1)] res(8) by simp
  have c: "cnt = int (length (filter (\<lambda>c. col_pk c > 0) (u_columns u)))" using a2(2) [OF _ u1 u(2)] res(2) by blast
  show "filter (\<lambda>c. col_pk c > 0) (u_columns u) \<noteq> []" using c res(2) by auto
  show "length (filter (\<lambda>c. col_pk c > 0) (u_columns u)) \<le> 128" using c res(2) by linarith
  show "length (filter (\<lambda>c. col_pk c > 0 \<and> col_notnull c) (u_columns u)) = length (filter (\<lambda>c. col_pk c > 0) (u_columns u))"
    using c a4(2) res(5) by linarith
  show "filter (\<lambda>c. col_pk c = 0 \<and> col_notnull c \<and> col_dflt c = None) (u_columns u) = []"
    using a5(2) res(7) by simp
qed

lemma filter_length_eq: "length (filter (\<lambda>c. p c \<and> q c) xs) = length (filter p xs) \<Longrightarrow> x \<in> set xs \<Longrightarrow> p x \<Longrightarrow> q x"
proof (induction xs)
  case (Cons y ys)
  have "length (filter (\<lambda>c. p c \<and> q c) ys) \<le> length (filter p ys)" by (induction ys) auto
  with Cons show ?case by (auto split: if_splits)
qed simp

text \<open>A table that passes the check has a key of 1 to 128 columns, all of them \<open>NOT NULL\<close>, and a new row
  with the default values can be inserted in it, provided that no column is declared \<open>NOT NULL DEFAULT NULL\<close>.\<close>

theorem sanity_check_default_row:
  assumes "dbutils_table_sanity_check (Some name) skip s = (True, s')"
    and "user_table_of name (db s) = Some u" "length (u_columns u) < 2 ^ 63"
    and names: "distinct (map (\<lambda>c. lowercase (col_name c)) (u_columns u))"
    and dflt: "\<forall>c \<in> set (u_columns u). col_notnull c \<longrightarrow> col_dflt c \<noteq> Some VNull"
  shows "same s s' \<and> \<not> lacks_value u (default_row u) \<and>
    1 \<le> length (filter (\<lambda>c. col_pk c > 0) (u_columns u)) \<and> length (filter (\<lambda>c. col_pk c > 0) (u_columns u)) \<le> 128 \<and>
    (\<forall>c \<in> set (u_columns u). col_pk c > 0 \<longrightarrow> col_notnull c)"
proof -
  note chk = sanity_check_counts [OF assms(1-3)]
  have "get_col (col_name c) (default_row u) \<noteq> VNull"
    if c: "c \<in> set (u_columns u)" "col_pk c = 0" "col_notnull c" for c
  proof -
    have "(lowercase (col_name c), case col_dflt c of Some v \<Rightarrow> v | None \<Rightarrow> VNull) \<in> set (default_row u)"
      using c by (auto simp: default_row_def)
    moreover have "distinct (map fst (default_row u))"
      using names by (auto simp: default_row_def comp_def distinct_map intro: inj_on_subset)
    ultimately have "get_col (col_name c) (default_row u) = (case col_dflt c of Some v \<Rightarrow> v | None \<Rightarrow> VNull)"
      by (simp add: get_col_def)
    moreover have "col_dflt c \<noteq> None" using chk(5) c by (auto simp: filter_empty_conv)
    ultimately show ?thesis using dflt c by auto
  qed
  then have "\<not> lacks_value u (default_row u)" by (auto simp: lacks_value_def list_ex_iff)
  moreover have "1 \<le> length (filter (\<lambda>c. col_pk c > 0) (u_columns u))" using chk(2) by (simp add: Suc_le_eq)
  ultimately show ?thesis using chk(1,3) filter_length_eq [OF chk(4)] by blast
qed

theorem sanity_check_default_row_witness:
  "\<not> lacks_value merge_users (default_row merge_users) \<and>
   1 \<le> length (filter (\<lambda>c. col_pk c > 0) (u_columns merge_users))"
proof -
  have "dbutils_table_sanity_check (Some ''T'') False merge_demo = (True, merge_demo)"
    "user_table_of ''T'' (db merge_demo) = Some merge_users" "length (u_columns merge_users) = 2"
    "distinct (map (\<lambda>c. lowercase (col_name c)) (u_columns merge_users))"
    by code_simp+
  moreover have "\<forall>c \<in> set (u_columns merge_users). col_notnull c \<longrightarrow> col_dflt c \<noteq> Some VNull"
    by (simp add: merge_users_def)
  ultimately show ?thesis using sanity_check_default_row [of "''T''" False merge_demo merge_demo merge_users] by simp
qed

subsection \<open>Triggers\<close>

definition trigger_kinds :: "table_algo \<Rightarrow> string list" where
  "trigger_kinds algo =
     (if algo = table_algo_crdt_gos then [''cloudsync_after_insert_'', ''cloudsync_before_update_'', ''cloudsync_before_delete_'']
      else [''cloudsync_after_insert_'', ''cloudsync_after_update_'', ''cloudsync_after_delete_''])"

definition all_triggers :: "string list" where
  "all_triggers = [''cloudsync_before_update_'', ''cloudsync_before_delete_'', ''cloudsync_after_insert_'',
     ''cloudsync_after_update_'', ''cloudsync_after_delete_'']"

definition with_triggers :: "string list \<Rightarrow> state \<Rightarrow> state" where
  "with_triggers ts s = s\<lparr>db := (db s)\<lparr>d_triggers := ts\<rparr>\<rparr>"

lemma with_triggers_simps [simp]:
  "faults (with_triggers ts s) = faults s" "d_triggers (db (with_triggers ts s)) = ts"
  "with_triggers ts (with_triggers ts' s) = with_triggers ts s" "with_triggers (d_triggers (db s)) s = s"
  "table_info n (db (with_triggers ts s)) = table_info n (db s)"
  "user_table_of n (db (with_triggers ts s)) = user_table_of n (db s)"
  by (simp_all add: with_triggers_def table_info_def user_table_of_def)

definition add_trigger :: "string \<Rightarrow> string list \<Rightarrow> string list" where
  "add_trigger n ts = (if list_ex (\<lambda>m. str_case_eq m n) ts then ts else ts @ [n])"

lemma trigger_columns_none:
  assumes "faults s = []"
  shows "trigger_columns cols table s = s"
  using assms by (simp add: trigger_columns_def dbutils_text_select_def select_def dbutils_exec_def first_result_def)

lemma ensure_trigger_none:
  assumes "faults s = []" "user_table_of table (db s) \<noteq> None" "\<And>s. faults s = [] \<Longrightarrow> texts s = s"
  shows "ensure_trigger texts table name s = (0, with_triggers (add_trigger name (d_triggers (db s))) s)"
proof -
  obtain u where "user_table_of table (db s) = Some u" using assms(2) by blast
  then show ?thesis
    using assms(1,3) by (simp add: ensure_trigger_def dbutils_trigger_exists_def dbutils_system_exists_def
        create_trigger_def add_trigger_def with_triggers_def)
qed

lemma check_triggers_none:
  assumes "faults s = []" "user_table_of table (db s) \<noteq> None"
  shows "dbutils_check_triggers table algo s =
    (0, with_triggers (fold (\<lambda>k. add_trigger (k @ table)) (trigger_kinds algo) (d_triggers (db s))) s)"
  using assms by (simp add: dbutils_check_triggers_def ensure_trigger_none trigger_columns_none trigger_kinds_def)

lemma delete_triggers_none:
  assumes "faults s = []"
  shows "dbutils_delete_triggers table s =
    (0, with_triggers (filter (\<lambda>n. \<not> list_ex (\<lambda>k. str_case_eq n (k @ table)) all_triggers) (d_triggers (db s))) s)"
  using assms by (simp add: dbutils_delete_triggers_def drop_trigger_def all_triggers_def with_triggers_def conj_ac)

lemma str_case_eq_append: "str_case_eq (a @ n) (b @ n) = str_case_eq a b"
  by (simp add: str_case_eq_def lowercase_def)

lemma list_ex_add_triggers:
  "list_ex (\<lambda>m. str_case_eq m n) (fold (\<lambda>k. add_trigger (k @ table)) ks ts) \<longleftrightarrow>
   list_ex (\<lambda>m. str_case_eq m n) ts \<or> list_ex (\<lambda>k. str_case_eq (k @ table) n) ks"
proof (induction ks arbitrary: ts)
  case (Cons k ks)
  have "list_ex (\<lambda>m. str_case_eq m n) (add_trigger (k @ table) ts) \<longleftrightarrow>
      list_ex (\<lambda>m. str_case_eq m n) ts \<or> str_case_eq (k @ table) n"
    by (auto simp: add_trigger_def list_ex_iff str_case_eq_def)
  with Cons show ?case by auto
qed simp

lemma trigger_kinds_distinct:
  "k \<in> set all_triggers \<Longrightarrow> list_ex (\<lambda>k'. str_case_eq k' k) (trigger_kinds algo) \<longleftrightarrow> k \<in> set (trigger_kinds algo)"
proof -
  have "\<forall>k \<in> set all_triggers. \<forall>k' \<in> set all_triggers. str_case_eq k' k \<longrightarrow> k' = k" by code_simp
  moreover have "set (trigger_kinds algo) \<subseteq> set all_triggers" by (auto simp: trigger_kinds_def all_triggers_def)
  ultimately show "k \<in> set all_triggers \<Longrightarrow> ?thesis" unfolding list_ex_iff by (metis str_case_eq_refl subsetD)
qed

text \<open>C26. Recreating the triggers of a table, as every initialisation does: afterwards the table has the triggers of
  its algorithm and no other of the library's, whatever was there before, and the triggers of other tables are
  as they were.\<close>

theorem triggers_recreated:
  assumes "faults s = []" "user_table_of table (db s) \<noteq> None"
  shows "\<exists>s1 s2. dbutils_delete_triggers table s = (0, s1) \<and> dbutils_check_triggers table algo s1 = (0, s2) \<and>
    (\<forall>k \<in> set all_triggers. has_trigger k table (db s2) \<longleftrightarrow> k \<in> set (trigger_kinds algo)) \<and>
    (\<forall>n. (\<forall>k \<in> set all_triggers. \<not> str_case_eq n (k @ table)) \<longrightarrow> n \<in> set (d_triggers (db s2)) \<longleftrightarrow> n \<in> set (d_triggers (db s)))"
proof -
  let ?ts = "filter (\<lambda>n. \<not> list_ex (\<lambda>k. str_case_eq n (k @ table)) all_triggers) (d_triggers (db s))"
  let ?us = "fold (\<lambda>k. add_trigger (k @ table)) (trigger_kinds algo) ?ts"
  have sub: "set ?us \<subseteq> set ?ts \<union> (\<lambda>k. k @ table) ` set (trigger_kinds algo) \<and> set ?ts \<subseteq> set ?us"
  proof -
    have "set (fold (\<lambda>k. add_trigger (k @ table)) ks ts) \<subseteq> set ts \<union> (\<lambda>k. k @ table) ` set ks \<and>
        set ts \<subseteq> set (fold (\<lambda>k. add_trigger (k @ table)) ks ts)" for ks ts
    proof (induction ks arbitrary: ts)
      case (Cons k ks)
      have "set (add_trigger (k @ table) ts) \<subseteq> insert (k @ table) (set ts)" "set ts \<subseteq> set (add_trigger (k @ table) ts)"
        by (auto simp: add_trigger_def)
      with Cons [of "add_trigger (k @ table) ts"] show ?case by auto
    qed simp
    then show ?thesis .
  qed
  have kinds: "set (trigger_kinds algo) \<subseteq> set all_triggers" by (auto simp: trigger_kinds_def all_triggers_def)
  have has: "has_trigger k table (db (with_triggers ?us s)) \<longleftrightarrow> k \<in> set (trigger_kinds algo)" if k: "k \<in> set all_triggers" for k
  proof -
    have "\<not> list_ex (\<lambda>m. str_case_eq m (k @ table)) ?ts" using k by (auto simp: list_ex_iff)
    then show ?thesis
      using trigger_kinds_distinct [OF k, of algo]
      by (simp add: has_trigger_def list_ex_add_triggers str_case_eq_append)
  qed
  have others: "n \<in> set ?us \<longleftrightarrow> n \<in> set (d_triggers (db s))" if n: "\<forall>k \<in> set all_triggers. \<not> str_case_eq n (k @ table)" for n
  proof -
    have "n \<notin> (\<lambda>k. k @ table) ` set (trigger_kinds algo)"
    proof
      assume "n \<in> (\<lambda>k. k @ table) ` set (trigger_kinds algo)"
      then obtain k where "k \<in> set all_triggers" "n = k @ table" using kinds by blast
      then show False using n str_case_eq_refl by blast
    qed
    moreover have "n \<in> set ?ts \<longleftrightarrow> n \<in> set (d_triggers (db s))" using n by (auto simp: list_ex_iff)
    ultimately show ?thesis using sub by blast
  qed
  have "dbutils_delete_triggers table s = (0, with_triggers ?ts s)" by (rule delete_triggers_none [OF assms(1)])
  moreover have "dbutils_check_triggers table algo (with_triggers ?ts s) = (0, with_triggers ?us s)"
    using check_triggers_none [of "with_triggers ?ts s" table algo] assms by simp
  ultimately show ?thesis using has others by (intro exI [of _ "with_triggers ?ts s"] exI [of _ "with_triggers ?us s"]) simp
qed

theorem triggers_recreated_witness:
  "\<exists>s1 s2. dbutils_delete_triggers ''t'' merge_demo = (0, s1) \<and> dbutils_check_triggers ''t'' table_algo_crdt_gos s1 = (0, s2) \<and>
     has_trigger ''cloudsync_before_update_'' ''t'' (db s2)"
proof -
  have "faults merge_demo = []" "(user_table_of ''t'' (db merge_demo) = None) = False" by code_simp+
  then show ?thesis
    using triggers_recreated [of merge_demo "''t''" table_algo_crdt_gos] by (fastforce simp: all_triggers_def trigger_kinds_def)
qed

subsection \<open>The history of schema hashes\<close>

lemma newest_in: "newest t = Some y \<Longrightarrow> y \<in> set t"
  by (induction t) (auto split: option.splits if_splits)

lemma newest_update:
  assumes "\<forall>x \<in> set t. snd x < n"
  shows "newest (AList.update h n t) = Some (h, n)"
  using assms
proof (induction t)
  case (Cons x t)
  show ?case
  proof (cases "fst x = h")
    case True
    then have "AList.update h n (x # t) = (h, n) # t" by (cases x) simp
    moreover have "newest t = Some y \<Longrightarrow> snd y < n" for y using newest_in [of t y] Cons.prems by simp
    ultimately show ?thesis by (cases "newest t") fastforce+
  next
    case False
    then have "AList.update h n (x # t) = x # AList.update h n t" by (cases x) simp
    then show ?thesis using Cons by simp
  qed
qed simp

text \<open>C25. A change of the schema is recorded and no earlier schema is forgotten: after a successful update the newest
  hash is the hash of the present schema, and changes are accepted for it and for every hash that was known.\<close>

theorem schema_hash_history:
  assumes "dbutils_update_schema_hash s = (0, s1)" "faults s1 = []" "d_schema_versions (db s) = Some t"
  shows "\<exists>sql. schema_query (db s) = Some [VText sql] \<and> c_schema_hash s1 = fnv1a_hash (cstr sql) \<and>
    dbutils_schema_hash s1 = (fnv1a_hash (cstr sql), s1) \<and>
    (\<forall>g. dbutils_check_schema_hash g s1 = (g = fnv1a_hash (cstr sql) \<or> g \<in> fst ` set t, s1))"
proof -
  let ?q = "dbutils_text_select (d_table_settings (db s) \<noteq> None) schema_query s"
  obtain v s0 where q: "?q = (v, s0)" by fastforce
  then obtain sql where v: "v = Some sql" using assms(1) by (cases v) (auto simp: dbutils_update_schema_hash_def)
  have m: "same s s0" using same_frame.text_select_keeps [OF same_refl, of s] q by (metis snd_conv)
  have sql: "schema_query (db s) = Some [VText sql]" using text_select_answer [OF q [unfolded v]] by (auto simp: schema_query_def split: if_splits)
  let ?h = "fnv1a_hash (cstr sql)"
  obtain rc s2 where st: "step (\<lambda>s. if d_schema_versions (db s) = None then (SQLITE_ERROR, s)
      else (SQLITE_OK, s\<lparr>db := put_schema_version ?h (db s)\<rparr>)) s0 = (rc, s2)" by fastforce
  have "rc = 0" "s1 = s2\<lparr>c_schema_hash := ?h\<rparr>"
    using assms(1) q v st by (auto simp: dbutils_update_schema_hash_def Let_def split: if_splits)
  moreover from this(1) have "d_schema_versions (db s2) = map_option (\<lambda>t. AList.update ?h
      (case list_max (map snd t) of None \<Rightarrow> 1 | Some m \<Rightarrow> m + 1) t) (d_schema_versions (db s))"
    using st m by (auto simp: step_def next_fault_def same_fields put_schema_version_def split: list.splits if_splits)
  ultimately obtain n where s1: "d_schema_versions (db s1) = Some (AList.update ?h n t)" "c_schema_hash s1 = ?h"
    and n: "n = (case list_max (map snd t) of None \<Rightarrow> 1 | Some m \<Rightarrow> m + 1)"
    using assms(3) by simp
  have "\<forall>x \<in> set t. snd x < n" using list_max_ge [of _ "map snd t"] n by (fastforce split: option.splits)
  then have "newest (AList.update ?h n t) = Some (?h, n)" by (rule newest_update)
  then have "dbutils_schema_hash s1 = (?h, s1)"
    using int_select_none(1) [OF assms(2)] s1(1) by (simp add: dbutils_schema_hash_def)
  moreover have "dbutils_check_schema_hash g s1 = (g = ?h \<or> g \<in> fst ` set t, s1)" for g
  proof (cases "map_of (AList.update ?h n t) g")
    case None
    then have "g \<noteq> ?h \<and> g \<notin> fst ` set t"
      by (auto simp: update_conv' split: if_splits) (metis map_of_eq_None_iff option.simps(3) image_eqI fst_conv)
    with None s1(1) show ?thesis
      using int_select_none(2) [OF assms(2), of "\<lambda>d. map_option (\<lambda>_. [VInteger 1]) (map_of (the (d_schema_versions d)) g)"]
      by (simp add: dbutils_check_schema_hash_def)
  next
    case (Some m)
    then have "g = ?h \<or> g \<in> fst ` set t" by (metis dom_map_of_conv_image_fst domI fun_upd_apply update_conv')
    with Some s1(1) show ?thesis
      using int_select_none(1) [OF assms(2), of "\<lambda>d. map_option (\<lambda>_. [VInteger 1]) (map_of (the (d_schema_versions d)) g)" 1 "[]"]
      by (simp add: dbutils_check_schema_hash_def)
  qed
  ultimately show ?thesis using sql s1(2) by blast
qed

theorem schema_hash_history_witness:
  "\<exists>sql. schema_query (db merge_demo) = Some [VText sql] \<and>
     fst (dbutils_check_schema_hash (fnv1a_hash (cstr sql)) (snd (dbutils_update_schema_hash merge_demo)))"
proof -
  let ?r = "dbutils_update_schema_hash merge_demo"
  have "fst ?r = 0" "faults (snd ?r) = []" "d_schema_versions (db merge_demo) = Some []" by code_simp+
  moreover from this have r: "?r = (0, snd ?r)" by (intro prod_eqI) simp_all
  ultimately obtain sql where "schema_query (db merge_demo) = Some [VText sql]"
      "\<forall>g. dbutils_check_schema_hash g (snd ?r) = (g = fnv1a_hash (cstr sql) \<or> g \<in> fst ` set ([] :: (i64 \<times> int) list), snd ?r)"
    using schema_hash_history [OF r] by blast
  then show ?thesis by (intro exI [of _ sql]) simp
qed

text \<open>The hash looks up a table under the name in \<open>cloudsync_table_settings\<close> with the case it was written in: when
  that differs from the case in the schema, no table is found and the update fails, while the library's other
  statements find the table.\<close>

theorem schema_hash_needs_exact_case:
  assumes "\<forall>n \<in> set (map fst (d_users (db s))). \<not> in_table_settings (db s) n"
  shows "fst (dbutils_update_schema_hash s) = SQLITE_ERROR \<and> db (snd (dbutils_update_schema_hash s)) = db s"
proof -
  have "schema_texts (db s) = []" using assms by (auto simp: schema_texts_def filter_empty_conv)
  then have q: "schema_query (db s) = Some [VNull]" by (simp add: schema_query_def)
  obtain v s1 where r: "dbutils_text_select (d_table_settings (db s) \<noteq> None) schema_query s = (v, s1)" by fastforce
  then have "v = None" using q text_select_answer [of "d_table_settings (db s) \<noteq> None" schema_query s _ s1] by (cases v) auto
  moreover have "same s s1" using same_frame.text_select_keeps [OF same_refl, of s] r by (metis snd_conv)
  ultimately show ?thesis using r by (simp add: dbutils_update_schema_hash_def same_fields)
qed

theorem schema_hash_needs_exact_case_witness:
  "fst (dbutils_update_schema_hash (merge_demo\<lparr>db := (db merge_demo)\<lparr>d_table_settings := Some [((''T'', ''algo''), (''*'', ''cls''))]\<rparr>\<rparr>)) = 1"
proof -
  let ?s = "merge_demo\<lparr>db := (db merge_demo)\<lparr>d_table_settings := Some [((''T'', ''algo''), (''*'', ''cls''))]\<rparr>\<rparr>"
  have "map fst (d_users (db ?s)) = [''t'']" "in_table_settings (db ?s) ''t'' = False" by code_simp+
  then show ?thesis using schema_hash_needs_exact_case [of ?s] by simp
qed

end
