(* ===== verification/Init.thy ===== *)
theory Init
  imports Schema
begin

text \<open>
  Bringing a database and the context together (src/src/dbutils.c: \<open>dbutils_settings_init\<close>,
  \<open>dbutils_settings_load\<close>; src/src/cloudsync.c: \<open>cloudsync_context_init\<close>, \<open>cloudsync_init\<close>, \<open>cloudsync_cleanup\<close> and
  what they call): the library's own tables are created and loaded, a table gets its triggers, its clock table
  and a slot of the registry, and the clock table is filled for the rows that are already there.

  \<open>uuid\<close> is what \<open>cloudsync_uuid_v7\<close> answers (\<open>None\<close> for its error) and \<open>junk\<close> the contents of the
  uninitialised buffer of \<open>dbutils_table_settings_get_algo\<close>.
\<close>

definition CLOUDSYNC_VERSION :: string where "CLOUDSYNC_VERSION = ''0.8.12''"
definition CLOUDSYNC_DEFAULT_ALGO :: string where "CLOUDSYNC_DEFAULT_ALGO = ''cls''"

section \<open>The library's own tables\<close>

definition create_settings :: "database \<Rightarrow> database" where
  "create_settings d = (if d_settings d = None then d\<lparr>d_settings := Some []\<rparr> else d)"

definition create_site_ids :: "database \<Rightarrow> database" where
  "create_site_ids d = (if d_site_ids d = None then d\<lparr>d_site_ids := Some []\<rparr> else d)"

definition create_table_settings :: "database \<Rightarrow> database" where
  "create_table_settings d = (if d_table_settings d = None then d\<lparr>d_table_settings := Some []\<rparr> else d)"

definition create_schema_versions :: "database \<Rightarrow> database" where
  "create_schema_versions d = (if d_schema_versions d = None then d\<lparr>d_schema_versions := Some []\<rparr> else d)"

definition exec_ddl :: "(database \<Rightarrow> database) \<Rightarrow> state \<Rightarrow> int \<times> state" where
  "exec_ddl f s = step (\<lambda>s. (SQLITE_OK, s\<lparr>db := f (db s)\<rparr>)) s"

text \<open>\<open>INSERT INTO cloudsync_settings\<close>: an error when the key is there.\<close>

definition insert_setting :: "string \<Rightarrow> string \<Rightarrow> state \<Rightarrow> int \<times> state" where
  "insert_setting key v s =
     step (\<lambda>s. if d_settings (db s) = None then (SQLITE_ERROR, s)
               else if setting key (db s) \<noteq> None then (SQLITE_CONSTRAINT, s)
               else (SQLITE_OK, s\<lparr>db := (db s)\<lparr>d_settings := map_option (\<lambda>t. t @ [(key, v)]) (d_settings (db s))\<rparr>\<rparr>)) s"

text \<open>The row with rowid 0 is this site.\<close>

definition insert_site_id :: "byte list \<Rightarrow> state \<Rightarrow> int \<times> state" where
  "insert_site_id uuid s =
     (case dbutils_exec (d_site_ids (db s) \<noteq> None) 2
             (\<lambda>s. case d_site_ids (db s) of
                    None \<Rightarrow> ((SQLITE_ERROR, []), s)
                  | Some ids \<Rightarrow> if list_ex (\<lambda>(i, u). i = 0 \<or> u = uuid) ids then ((SQLITE_CONSTRAINT, []), s)
                      else ((SQLITE_DONE, []), s\<lparr>db := (db s)\<lparr>d_site_ids := Some ((0, uuid) # ids)\<rparr>\<rparr>)) [] s of
        ((rc, _), s) \<Rightarrow> (rc, s))"

section \<open>Loading the settings\<close>

definition dbutils_settings_load_callback :: "string \<times> string \<Rightarrow> state \<Rightarrow> state" where
  "dbutils_settings_load_callback kv s = cloudsync_sync_key (fst kv) (Some (snd kv)) s"

text \<open>A row \<open>(lower(tbl_name), lower(col_name), key, value)\<close>; what \<open>table_add_to_context\<close> answers is not looked at.\<close>

definition dbutils_settings_table_load_callback :: "(string \<times> string) \<times> (string \<times> string) \<Rightarrow> state \<Rightarrow> state" where
  "dbutils_settings_table_load_callback row s =
     (case row of ((t, key), (_, v)) \<Rightarrow>
        if key \<noteq> ''algo'' then s
        else snd (table_add_to_context (crdt_algo_from_name (Some v)) (lowercase t) s))"

text \<open>\<open>ORDER BY tbl_name\<close> with the column's collation \<open>NOCASE\<close>.\<close>

definition name_le :: "string \<Rightarrow> string \<Rightarrow> bool" where
  "name_le a b \<longleftrightarrow> lexcmp (map of_char (lowercase a)) (map of_char (lowercase b)) \<le> 0"

fun insert_by_table :: "(string \<times> string) \<times> (string \<times> string) \<Rightarrow> ((string \<times> string) \<times> (string \<times> string)) list \<Rightarrow>
    ((string \<times> string) \<times> (string \<times> string)) list" where
  "insert_by_table x [] = [x]"
| "insert_by_table x (y # ys) =
     (if name_le (fst (fst x)) (fst (fst y)) then x # y # ys else y # insert_by_table x ys)"

definition by_table :: "((string \<times> string) \<times> (string \<times> string)) list \<Rightarrow> ((string \<times> string) \<times> (string \<times> string)) list" where
  "by_table rows = foldr insert_by_table rows []"

definition dbutils_settings_load :: "state \<Rightarrow> int \<times> state" where
  "dbutils_settings_load s =
     (let s = (case next_fault s of (rc, s) \<Rightarrow>
                 if rc \<noteq> SQLITE_OK then s
                 else fold dbutils_settings_load_callback (case d_settings (db s) of None \<Rightarrow> [] | Some t \<Rightarrow> t) s);
          s = (case next_fault s of (rc, s) \<Rightarrow>
                 if rc \<noteq> SQLITE_OK then s
                 else fold dbutils_settings_table_load_callback
                        (by_table (case d_table_settings (db s) of None \<Rightarrow> [] | Some t \<Rightarrow> t)) s)
      in (SQLITE_OK, s))"

definition dbutils_settings_init :: "byte list option \<Rightarrow> state \<Rightarrow> int \<times> state" where
  "dbutils_settings_init uuid s =
     and_then
       (case dbutils_table_exists ''cloudsync_settings'' s of (ex, s) \<Rightarrow>
          if ex then (SQLITE_OK, s)
          else and_then (exec_ddl create_settings s) (\<lambda>s.
               and_then (insert_setting KEY_LIBVERSION CLOUDSYNC_VERSION s) (\<lambda>s.
               case dbutils_schema_version s of (v, s) \<Rightarrow> insert_setting KEY_SCHEMAVERSION (show_int v) s))) (\<lambda>s.
     and_then
       (case dbutils_table_exists ''cloudsync_site_id'' s of (ex, s) \<Rightarrow>
          if ex then (SQLITE_OK, s)
          else and_then (exec_ddl create_site_ids s) (\<lambda>s.
               case uuid of None \<Rightarrow> (SQLITE_ERROR, s) | Some u \<Rightarrow> insert_site_id u s)) (\<lambda>s.
     and_then
       (case dbutils_table_exists ''cloudsync_table_settings'' s of (ex, s) \<Rightarrow>
          if ex then (SQLITE_OK, s) else exec_ddl create_table_settings s) (\<lambda>s.
     and_then
       (case dbutils_table_exists ''cloudsync_schema_versions'' s of (ex, s) \<Rightarrow>
          if ex then (SQLITE_OK, s) else exec_ddl create_schema_versions s)
       dbutils_settings_load)))"

definition dbutils_settings_cleanup :: "state \<Rightarrow> int \<times> state" where
  "dbutils_settings_cleanup s =
     and_then (exec_ddl (\<lambda>d. d\<lparr>d_settings := None\<rparr>) s) (\<lambda>s.
     and_then (exec_ddl (\<lambda>d. d\<lparr>d_site_ids := None\<rparr>) s) (\<lambda>s.
     and_then (exec_ddl (\<lambda>d. d\<lparr>d_table_settings := None\<rparr>) s)
       (exec_ddl (\<lambda>d. d\<lparr>d_schema_versions := None\<rparr>))))"

section \<open>The context\<close>

abbreviation siteid_loaded :: "state \<Rightarrow> bool" where "siteid_loaded s \<equiv> c_site_id s ! 0 \<noteq> 0"

definition cloudsync_load_siteid :: "state \<Rightarrow> int \<times> state" where
  "cloudsync_load_siteid s =
     (if siteid_loaded s then (SQLITE_OK, s)
      else case dbutils_blob_select (d_site_ids (db s) \<noteq> None)
                  (\<lambda>d. map_option (\<lambda>b. [VBlob b]) (map_of (the (d_site_ids d)) 0)) s of
        ((None, rc), s) \<Rightarrow> (rc, s)
      | ((Some b, _), s) \<Rightarrow>
          if length b \<noteq> UUID_LEN then (SQLITE_MISUSE, s) else (SQLITE_OK, s\<lparr>c_site_id := b\<rparr>))"

text \<open>\<open>False\<close> stands for NULL.\<close>

definition cloudsync_context_init :: "byte list option \<Rightarrow> state \<Rightarrow> bool \<times> state" where
  "cloudsync_context_init uuid s =
     (case (if siteid_loaded s then (case dbutils_table_exists ''cloudsync_site_id'' s of (ex, s) \<Rightarrow> (\<not> ex, s))
            else (True, s)) of (go, s) \<Rightarrow>
        if \<not> go then (True, s)
        else case and_then (dbutils_settings_init uuid s) (\<lambda>s.
                  and_then (stmts_add_tocontext s) cloudsync_load_siteid) of (rc, s) \<Rightarrow>
          if rc \<noteq> SQLITE_OK then (False, s)
          else (case dbutils_schema_hash s of (h, s) \<Rightarrow> (True, s\<lparr>c_schema_hash := h\<rparr>)))"

section \<open>Keys in SQL\<close>

definition cloudsync_pk_encode :: "sqlval list \<Rightarrow> pkblob option" where
  "cloudsync_pk_encode vs = map_option fst (pk_encode_prikey (\<lambda>_. True) vs None)"

definition cloudsync_pk_decode_set_result_callback :: "int \<Rightarrow> sqlval \<Rightarrow> nat \<Rightarrow> sqlval \<Rightarrow> int \<times> sqlval" where
  "cloudsync_pk_decode_set_result_callback i result index v = (SQLITE_OK, if i \<noteq> int index + 1 then result else v)"

text \<open>The length \<open>strlen(pk)\<close> that the code passes is not looked at by the decoder. \<open>None\<close>: a read behind the
  blob.\<close>

definition cloudsync_pk_decode :: "pkblob \<Rightarrow> int \<Rightarrow> sqlval option" where
  "cloudsync_pk_decode pk i =
     map_option (\<lambda>(_, _, v). v) (pk_decode_prikey pk (Some (cloudsync_pk_decode_set_result_callback i)) VNull)"

section \<open>Filling the clock table\<close>

text \<open>
  The statements of \<open>cloudsync_refill_metatable\<close> find the row of a clock entry by decoding its key: the value of
  a key column is compared with the value that stands in the blob at the column's place in the \<open>PRIMARY KEY\<close>
  clause, while the blob has the values in the order of the columns. Values of keys are compared as values of
  the model; the rows come in the order of \<open>u_rows\<close>.
\<close>

definition decoded_key :: "string \<Rightarrow> database \<Rightarrow> pkblob \<Rightarrow> sqlval list option" where
  "decoded_key name d pk = those (map (\<lambda>(_, c). cloudsync_pk_decode pk (int (col_pk c))) (pk_columns name d))"

definition row_keys :: "string \<Rightarrow> database \<Rightarrow> sqlval list list" where
  "row_keys name d = (case user_table_of name d of None \<Rightarrow> [] | Some u \<Rightarrow> map fst (u_rows u))"

definition clock_keys :: "string \<Rightarrow> database \<Rightarrow> meta_key list" where
  "clock_keys name d = (case meta_of name d of None \<Rightarrow> [] | Some t \<Rightarrow> map fst t)"

text \<open>A key in the clock table that the decoder cannot read inside its blob.\<close>

definition mark_undecodable :: "string \<Rightarrow> state \<Rightarrow> state" where
  "mark_undecodable name s =
     (if list_ex (\<lambda>(pk, _). decoded_key name (db s) pk = None) (clock_keys name (db s)) then s\<lparr>ub := True\<rparr> else s)"

fun insert_keys :: "string \<Rightarrow> sqlval list list \<Rightarrow> state \<Rightarrow> int \<times> state" where
  "insert_keys name [] s = (SQLITE_OK, s)"
| "insert_keys name (k # ks) s =
     (case cloudsync_insert name k s of
        (ResError _, s) \<Rightarrow> (SQLITE_ERROR, s) | (_, s) \<Rightarrow> insert_keys name ks s)"

text \<open>\<open>SELECT cloudsync_insert(...) FROM (SELECT keys FROM t EXCEPT SELECT decoded keys FROM t_cloudsync)\<close>\<close>

definition insert_missing :: "string \<Rightarrow> state \<Rightarrow> int \<times> state" where
  "insert_missing name s =
     step (\<lambda>s.
       let s = mark_undecodable name s in
       if user_table_of name (db s) = None \<or> meta_of name (db s) = None then (SQLITE_ERROR, s)
       else insert_keys name
              (filter (\<lambda>k. \<not> list_ex (\<lambda>(pk, _). decoded_key name (db s) pk = Some k) (clock_keys name (db s)))
                 (row_keys name (db s))) s) s"

text \<open>The join of the two tables names \<open>pk\<close> and the key columns without their table: the statement is ambiguous
  when the application's table has a column \<open>pk\<close>, or a key column with the name of a column of the clock table.\<close>

definition clock_columns :: "string list" where
  "clock_columns = [''pk'', ''col_name'', ''col_version'', ''db_version'', ''site_id'', ''seq'']"

definition join_legal :: "string \<Rightarrow> database \<Rightarrow> bool" where
  "join_legal name d \<longleftrightarrow> meta_of name d \<noteq> None \<and>
     (case user_table_of name d of None \<Rightarrow> False
      | Some u \<Rightarrow> \<not> list_ex (\<lambda>c. str_case_eq (col_name c) ''pk'' \<or>
           (0 < col_pk c \<and> lowercase (col_name c) \<in> set clock_columns)) (u_columns u))"

definition has_clock :: "string \<Rightarrow> string \<Rightarrow> sqlval list \<Rightarrow> database \<Rightarrow> bool" where
  "has_clock name col k d = list_ex (\<lambda>(pk, c). c = col \<and> decoded_key name d pk = Some k) (clock_keys name d)"

text \<open>The rows without an entry for \<open>col\<close>. The key is read with \<open>sqlite3_column_text\<close> and measured with \<open>strlen\<close>;
  what \<open>local_mark_insert_or_update_meta\<close> answers is overwritten.\<close>

fun fill_rows :: "string \<Rightarrow> nat \<Rightarrow> string \<Rightarrow> int \<Rightarrow> sqlval list list \<Rightarrow> state \<Rightarrow> int \<times> state" where
  "fill_rows name ti col dbv [] s = next_fault (mark_undecodable name s)"
| "fill_rows name ti col dbv (k # ks) s =
     (if has_clock name col k (db s) then fill_rows name ti col dbv ks s
      else case next_fault (mark_undecodable name s) of (rc, s) \<Rightarrow>
        if rc \<noteq> SQLITE_OK then (rc, s)
        else case cloudsync_pk_encode k of
          None \<Rightarrow> (SQLITE_OK, s\<lparr>ub := True\<rparr>)
        | Some pk \<Rightarrow>
            fill_rows name ti col dbv ks (snd (bump (local_mark_insert_or_update_meta ti (cstr pk) col dbv) s)))"

fun fill_columns :: "string \<Rightarrow> nat \<Rightarrow> int \<Rightarrow> string list \<Rightarrow> state \<Rightarrow> int \<times> state" where
  "fill_columns name ti dbv [] s = (SQLITE_OK, s)"
| "fill_columns name ti dbv (col # cols) s =
     and_then (binds 1 s) (\<lambda>s.
     and_then (fill_rows name ti col dbv (row_keys name (db s)) s) (fill_columns name ti dbv cols))"

definition cloudsync_refill_metatable :: "string \<Rightarrow> state \<Rightarrow> int \<times> state" where
  "cloudsync_refill_metatable name s =
     (case table_lookup name s of None \<Rightarrow> (SQLITE_INTERNAL, s)
      | Some ti \<Rightarrow>
        (case db_version_next CLOUDSYNC_VALUE_NOTSET s of (dbv, s) \<Rightarrow>
         let s = trigger_columns pk_columns name (trigger_columns pk_columns name (trigger_columns pk_columns name s)) in
         and_then (insert_missing name s) (\<lambda>s.
         and_then (prepare (join_legal name (db s)) s)
           (fill_columns name ti dbv (t_cols (tbl s ti))))))"

section \<open>Augmenting a table\<close>

text \<open>The results of \<open>dbutils_table_settings_set_key_value\<close>, \<open>dbutils_check_triggers\<close> and
  \<open>dbutils_check_metatable\<close> are not looked at. The message for an unknown algorithm formats the address of a
  function as a string.\<close>

definition cloudsync_init_internal ::
  "string \<Rightarrow> byte list option \<Rightarrow> string option \<Rightarrow> string option \<Rightarrow> bool \<Rightarrow> state \<Rightarrow> int \<times> state" where
  "cloudsync_init_internal junk uuid table algo_name skip_int_pk_check s =
     (case dbutils_table_sanity_check table skip_int_pk_check s of (ok, s) \<Rightarrow>
      if \<not> ok then (SQLITE_MISUSE, s)
      else case cloudsync_context_init uuid s of (ok, s) \<Rightarrow>
      if \<not> ok then (SQLITE_MISUSE, s)
      else
       let name = the table;
           algo_text = (case algo_name of None \<Rightarrow> CLOUDSYNC_DEFAULT_ALGO | Some a \<Rightarrow> a);
           algo_new = crdt_algo_from_name (Some algo_text)
       in
       if algo_new = table_algo_none then (SQLITE_MISUSE, s\<lparr>ub := True\<rparr>)
       else case dbutils_table_settings_get_algo junk name s of (algo_current, s) \<Rightarrow>
       if algo_new \<noteq> algo_current \<and> algo_current \<noteq> table_algo_none then (SQLITE_MISUSE, s)
       else
        let s = (if algo_new = algo_current then s
                 else snd (dbutils_table_settings_set_key_value (Some name) (Some ''*'') (Some ''algo'') (Some algo_text) s));
            s = snd (dbutils_check_triggers name algo_new s);
            s = snd (dbutils_check_metatable name s)
        in case stmts_add_tocontext s of (rc, s) \<Rightarrow>
        if rc \<noteq> SQLITE_OK then (SQLITE_MISUSE, s)
        else case table_add_to_context algo_new name s of (ok, s) \<Rightarrow>
        if \<not> ok then (SQLITE_MISUSE, s)
        else case cloudsync_refill_metatable name s of (rc, s) \<Rightarrow>
          (if rc \<noteq> SQLITE_OK then SQLITE_MISUSE else SQLITE_OK, s))"

section \<open>Removing the library from a table\<close>

definition drop_metatable :: "string \<Rightarrow> state \<Rightarrow> int \<times> state" where
  "drop_metatable name s = exec_ddl (\<lambda>d. d\<lparr>d_meta := filter (\<lambda>(n, _). \<not> str_case_eq n name) (d_meta d)\<rparr>) s"

text \<open>What \<open>dbutils_delete_triggers\<close> answers is not looked at: \<open>rc\<close> is still that of the statement before.\<close>

definition cloudsync_cleanup_internal :: "byte list option \<Rightarrow> string \<Rightarrow> state \<Rightarrow> int \<times> state" where
  "cloudsync_cleanup_internal uuid name s =
     (case cloudsync_context_init uuid s of (ok, s) \<Rightarrow>
      if \<not> ok then (SQLITE_MISUSE, s)
      else case table_lookup name s of None \<Rightarrow> (SQLITE_OK, s)
      | Some ti \<Rightarrow>
        let s = snd (table_remove_from_context ti s) in
        and_then (drop_metatable name s) (\<lambda>s.
          let s = snd (dbutils_delete_triggers name s)
          in (SQLITE_OK, snd (dbutils_table_settings_set_key_value (Some name) None None None s))))"

text \<open>\<open>LIKE\<close> ignores case, and \<open>_\<close> stands for any character: \<open>'cloudsync_%'\<close> matches a name that starts with
  \<open>cloudsync\<close> and is longer, \<open>'%_cloudsync'\<close> a longer name that ends so.\<close>

definition like_prefix :: "string \<Rightarrow> string \<Rightarrow> bool" where
  "like_prefix p n \<longleftrightarrow> length p < length n \<and> take (length p) (lowercase n) = p"

definition like_suffix :: "string \<Rightarrow> string \<Rightarrow> bool" where
  "like_suffix p n \<longleftrightarrow> length p < length n \<and> drop (length n - length p) (lowercase n) = p"

definition application_table :: "string \<Rightarrow> bool" where
  "application_table n \<longleftrightarrow> \<not> like_prefix ''cloudsync'' n \<and> \<not> like_suffix ''cloudsync'' n"

text \<open>\<open>sqlite3_get_table\<close> leaves \<open>ncols\<close> 0 when there is no row: then nothing is done.\<close>

definition cloudsync_cleanup_all :: "byte list option \<Rightarrow> state \<Rightarrow> state" where
  "cloudsync_cleanup_all uuid s =
     (case next_fault s of (rc, s) \<Rightarrow>
      let names = filter application_table (table_names (db s)) in
      if rc \<noteq> SQLITE_OK \<or> names = [] then s
      else case fold (\<lambda>n (rc, s). case cloudsync_cleanup_internal uuid n s of (rc2, s) \<Rightarrow>
                        (if rc2 \<noteq> SQLITE_OK then rc2 else rc, s)) names (SQLITE_OK, s) of (rc, s) \<Rightarrow>
        if rc = SQLITE_OK then snd (dbutils_settings_cleanup (s\<lparr>c_site_id := (c_site_id s)[0 := 0]\<rparr>)) else s)"

definition cloudsync_cleanup :: "byte list option \<Rightarrow> string \<Rightarrow> state \<Rightarrow> state" where
  "cloudsync_cleanup uuid table s =
     (let s = (if dbutils_is_star_table (Some table) then cloudsync_cleanup_all uuid s
               else snd (cloudsync_cleanup_internal uuid table s))
      in case dbutils_table_exists ''cloudsync_table_settings'' s of (ex, s) \<Rightarrow>
        if ex then snd (dbutils_update_schema_hash s) else s)"

section \<open>Savepoints\<close>

text \<open>
  A savepoint keeps the database, not the context. Releasing the outermost one ends the transaction: \<open>commits\<close>
  says whether the engine then has something to commit and calls the commit hook (it has not inside a
  transaction of the application). \<open>ROLLBACK TO\<close> and \<open>RELEASE\<close> of a name that is not on the stack fail.
\<close>

definition savepoint :: "string \<Rightarrow> state \<Rightarrow> int \<times> state" where
  "savepoint name s = step (\<lambda>s. (SQLITE_OK, s\<lparr>savepoints := (name, db s) # savepoints s\<rparr>)) s"

definition release_to :: "bool \<Rightarrow> string \<Rightarrow> state \<Rightarrow> state" where
  "release_to commits name s =
     (let s = s\<lparr>savepoints := tl (dropWhile (\<lambda>(n, _). n \<noteq> name) (savepoints s))\<rparr>
      in if commits \<and> savepoints s = [] then cloudsync_commit_hook s else s)"

definition release :: "bool \<Rightarrow> string \<Rightarrow> state \<Rightarrow> int \<times> state" where
  "release commits name s =
     step (\<lambda>s. if name \<in> fst ` set (savepoints s) then (SQLITE_OK, release_to commits name s) else (SQLITE_ERROR, s)) s"

definition rollback_release :: "bool \<Rightarrow> string \<Rightarrow> state \<Rightarrow> state" where
  "rollback_release commits name s =
     snd (step (\<lambda>s. case map_of (savepoints s) name of None \<Rightarrow> (SQLITE_ERROR, s)
                    | Some d \<Rightarrow> (SQLITE_OK, release_to commits name (s\<lparr>db := d\<rparr>))) s)"

section \<open>cloudsync\_init\<close>

fun init_tables :: "string \<Rightarrow> byte list option \<Rightarrow> string \<Rightarrow> bool \<Rightarrow> string list \<Rightarrow> state \<Rightarrow> int \<times> state" where
  "init_tables junk uuid algo skip [] s = next_fault s"
| "init_tables junk uuid algo skip (n # ns) s =
     and_then (next_fault s) (\<lambda>s.
       case cloudsync_init_internal junk uuid (Some n) (Some algo) skip s of (rc, s) \<Rightarrow>
         if rc \<noteq> SQLITE_OK then (rc, snd (cloudsync_cleanup_internal uuid n s))
         else init_tables junk uuid algo skip ns s)"

text \<open>The algorithm is pasted into the text of the query between quotes; a quote in it makes a text that the model
  does not represent.\<close>

definition cloudsync_init_all :: "string \<Rightarrow> byte list option \<Rightarrow> string option \<Rightarrow> bool \<Rightarrow> state \<Rightarrow> int \<times> state" where
  "cloudsync_init_all junk uuid algo_name skip_int_pk_check s =
     (let algo = (case algo_name of None \<Rightarrow> CLOUDSYNC_DEFAULT_ALGO | Some a \<Rightarrow> a);
          s = (if CHR 0x27 \<in> set algo then s\<lparr>ub := True\<rparr> else s)
      in and_then (prepare True s) (\<lambda>s. init_tables junk uuid algo skip_int_pk_check
           (filter (\<lambda>n. \<not> like_prefix ''sqlite'' n \<and> application_table n) (table_names (db s))) s))"

definition cloudsync_init ::
  "string \<Rightarrow> byte list option \<Rightarrow> bool \<Rightarrow> string option \<Rightarrow> string option \<Rightarrow> bool \<Rightarrow> state \<Rightarrow> int \<times> state" where
  "cloudsync_init junk uuid commits table algo skip_int_pk_check s =
     and_then (savepoint ''cloudsync_init'' s) (\<lambda>s.
       case and_then (if dbutils_is_star_table table then cloudsync_init_all junk uuid algo skip_int_pk_check s
                      else cloudsync_init_internal junk uuid table algo skip_int_pk_check s)
              (release commits ''cloudsync_init'') of (rc, s) \<Rightarrow>
         (rc, if rc = SQLITE_OK then snd (dbutils_update_schema_hash s)
              else rollback_release commits ''cloudsync_init'' s))"

end
