(* ===== verification/Alter.thy ===== *)
theory Alter
  imports Init
begin

text \<open>
  Changing the schema of an augmented table (src/src/cloudsync.c): \<open>cloudsync_begin_alter\<close> remembers the key
  columns and drops the triggers, the application alters the table, and \<open>cloudsync_commit_alter\<close> compares the
  key, drops or compacts the clock table and augments the table again. The two calls enclose a savepoint.
\<close>

text \<open>\<open>sqlite3_get_table\<close> of \<open>SELECT name FROM pragma_table_info WHERE pk>0 ORDER BY pk\<close>: the header \<open>name\<close>,
  then the names; without a row the result is empty and \<open>ncols\<close> is 0. An error gives \<open>None\<close>.\<close>

fun insert_by_pk :: "column \<Rightarrow> column list \<Rightarrow> column list" where
  "insert_by_pk x [] = [x]"
| "insert_by_pk x (y # ys) = (if col_pk x \<le> col_pk y then x # y # ys else y # insert_by_pk x ys)"

definition key_names :: "string \<Rightarrow> database \<Rightarrow> string list" where
  "key_names name d = map col_name (foldr insert_by_pk (map snd (pk_columns name d)) [])"

definition get_key_table :: "string \<Rightarrow> state \<Rightarrow> (string list option) \<times> state" where
  "get_key_table name s =
     (case next_fault s of (rc, s) \<Rightarrow>
        if rc \<noteq> SQLITE_OK then (None, s)
        else (Some (if key_names name (db s) = [] then [] else ''name'' # key_names name (db s)), s))"

text \<open>A missing context is no error code of its own: only the message is set. \<open>dbutils_delete_triggers\<close> is not
  looked at.\<close>

definition cloudsync_begin_alter :: "byte list option \<Rightarrow> bool \<Rightarrow> string \<Rightarrow> state \<Rightarrow> int \<times> state" where
  "cloudsync_begin_alter uuid commits name s =
     (case cloudsync_context_init uuid s of (ok, s) \<Rightarrow>
      if \<not> ok then (SQLITE_MISUSE, s)
      else case savepoint ''cloudsync_alter'' s of (rc, s) \<Rightarrow>
      if rc \<noteq> SQLITE_OK then (rc, rollback_release commits ''cloudsync_alter'' s)
      else case table_lookup name s of
        None \<Rightarrow> (SQLITE_MISUSE, rollback_release commits ''cloudsync_alter'' s)
      | Some ti \<Rightarrow>
        (case get_key_table name s of (result, s) \<Rightarrow>
         if result = None \<or> the result = [] \<or> length (the result) \<noteq> t_npks (tbl s ti) + 1
         then (SQLITE_MISUSE, rollback_release commits ''cloudsync_alter'' s)
         else (SQLITE_OK, upd_tbl ti (t_pk_name_update (\<lambda>_. result)) (snd (dbutils_delete_triggers name s)))))"

section \<open>The end of an alteration\<close>

text \<open>\<open>nrows\<close> names follow the header, but the loop compares the entries 0 to \<open>nrows - 1\<close>. The caller has made sure
  that \<open>pk_name\<close> is set.\<close>

definition pk_differs :: "table_ctx \<Rightarrow> string list \<Rightarrow> bool" where
  "pk_differs t result \<longleftrightarrow>
     length result - 1 \<noteq> t_npks t \<or>
     list_ex (\<lambda>i. the (t_pk_name t) ! i \<noteq> result ! i) [0..<length result - 1]"

text \<open>\<open>DELETE ... WHERE col_name NOT IN (SELECT name FROM pragma_table_info UNION SELECT '__[RIP]__')\<close>\<close>

definition drop_removed_columns :: "string list \<Rightarrow> meta_table \<Rightarrow> meta_table" where
  "drop_removed_columns names t = filter (\<lambda>((_, col), _). col \<in> set names \<or> col = RIP) t"

text \<open>Entries of keys without a row go, but for the tombstones.\<close>

definition drop_orphans :: "sqlval list list \<Rightarrow> meta_table \<Rightarrow> meta_table" where
  "drop_orphans keys t =
     filter (\<lambda>((pk, col), r). \<not> ((col \<noteq> RIP \<or> odd (m_col_version r)) \<and>
       \<not> list_ex (\<lambda>k. cloudsync_pk_encode k = Some pk) keys)) t"

definition exec_meta :: "string \<Rightarrow> bool \<Rightarrow> (database \<Rightarrow> meta_table \<Rightarrow> meta_table) \<Rightarrow> state \<Rightarrow> int \<times> state" where
  "exec_meta name legal f s =
     step (\<lambda>s. if meta_of name (db s) = None \<or> \<not> legal then (SQLITE_ERROR, s)
               else (SQLITE_OK, s\<lparr>db := map_meta name (f (db s)) (db s)\<rparr>)) s"

definition cloudsync_finalize_alter :: "nat \<Rightarrow> state \<Rightarrow> int \<times> state" where
  "cloudsync_finalize_alter ti s =
     (let s = snd (db_version_check_uptodate s); name = t_name (tbl s ti)
      in case next_fault s of (rc, s) \<Rightarrow>
      if rc \<noteq> SQLITE_OK then (rc, s)
      else if key_names name (db s) = [] then (SQLITE_MISUSE, s)
      else and_then
        (if pk_differs (tbl s ti) (''name'' # key_names name (db s)) then drop_metatable name s
         else and_then (exec_meta name True (\<lambda>d. drop_removed_columns (map (col_name \<circ> snd) (table_info name d))) s) (\<lambda>s.
              let s = trigger_columns pk_columns name s
              in exec_meta name (user_table_of name (db s) \<noteq> None) (\<lambda>d. drop_orphans (row_keys name d)) s))
        (\<lambda>s. (SQLITE_OK, snd (dbutils_settings_set_key_value ''pre_alter_dbversion'' (Some (show_int (c_db_version s))) s))))"

definition cloudsync_commit_alter :: "string \<Rightarrow> byte list option \<Rightarrow> bool \<Rightarrow> string \<Rightarrow> state \<Rightarrow> int \<times> state" where
  "cloudsync_commit_alter junk uuid commits name s =
     (let rollback = rollback_release commits ''cloudsync_alter''
      in case cloudsync_context_init uuid s of (ok, s) \<Rightarrow>
      if \<not> ok then (SQLITE_MISUSE, rollback s)
      else case table_lookup name s of
        None \<Rightarrow> (SQLITE_MISUSE, rollback s)
      | Some ti \<Rightarrow>
        if t_pk_name (tbl s ti) = None then (SQLITE_MISUSE, rollback s)
        else (case cloudsync_finalize_alter ti s of (rc, s) \<Rightarrow>
          if rc \<noteq> SQLITE_OK then (rc, upd_tbl ti (t_pk_name_update (\<lambda>_. None)) (rollback s))
          else
            let s = snd (table_remove name s)
            in case dbutils_table_settings_get_algo junk name s of (algo, s) \<Rightarrow>
            case (if algo = table_algo_none then dbutils_table_settings_get_algo junk ''*'' s else (algo, s)) of (algo, s) \<Rightarrow>
            case cloudsync_init_internal junk uuid (Some name) (crdt_algo_name algo) True s of (rc, s) \<Rightarrow>
            if rc \<noteq> SQLITE_OK then (rc, rollback s)
            else case release commits ''cloudsync_alter'' s of (rc, s) \<Rightarrow>
            if rc \<noteq> SQLITE_OK then (rc, rollback s)
            else (SQLITE_OK, snd (dbutils_update_schema_hash s))))"

end
