(* ===== verification/Lifecycle.thy ===== *)
theory Lifecycle
  imports Alter
begin

text \<open>
  What initialising, altering and removing a table keeps and achieves (theories \<open>Init\<close> and \<open>Alter\<close>). The facts kept
  are stated as locales over a predicate of the state, one for each group of fields that the operations write.
\<close>

section \<open>What the library keeps\<close>

text \<open>\<open>tables_frame\<close>: facts that do not look at the registry.\<close>

locale tables_frame = frame +
  assumes keep_tables: "P s \<Longrightarrow> P (s\<lparr>c_tables := ts\<rparr>)" "P s \<Longrightarrow> P (s\<lparr>c_tables_count := n\<rparr>)"
begin

lemma grow_tables_keeps: "P s \<Longrightarrow> P (grow_tables s)"
  by (simp add: grow_tables_def keep_tables)

lemma place_table_keeps: "P s \<Longrightarrow> P (place_table t s)"
  by (auto simp: place_table_def split: option.split intro: keep_tables)

lemma table_add_keeps: "P s \<Longrightarrow> P (snd (table_add_to_context algo name s))"
  unfolding table_add_to_context_def Let_def
  by (intro keeps | assumption | rule grow_tables_keeps place_table_keeps)+

lemma table_remove_keeps: "P s \<Longrightarrow> P (snd (table_remove name s))"
  unfolding table_remove_def by (intro keeps keep_tables)

lemma upd_tbl_keeps: "P s \<Longrightarrow> P (upd_tbl ti f s)"
  by (simp add: upd_tbl_def keep_tables)

lemmas registry_keeps = table_add_keeps table_remove_keeps upd_tbl_keeps

end

text \<open>\<open>load_frame\<close>: facts that loading the settings and preparing the statements keeps; \<open>library_frame\<close>: facts that
  the operations inside a savepoint keep, whatever the engine answers; \<open>context_frame\<close>: facts about the context
  that hold whatever the database holds.\<close>

locale load_frame = clock_frame +
  assumes keep_load:
    "P s \<Longrightarrow> P (snd (table_add_to_context algo name s))" "P s \<Longrightarrow> P (snd (table_remove name s))"
    "P s \<Longrightarrow> P (upd_tbl ti (t_pk_name_update g) s)"
    "P s \<Longrightarrow> P (s\<lparr>c_debug := b\<rparr>)" "P s \<Longrightarrow> P (s\<lparr>ub := True\<rparr>)"
    "P s \<Longrightarrow> P (s\<lparr>c_data_version_stmt := b\<rparr>)" "P s \<Longrightarrow> P (s\<lparr>c_schema_version_stmt := b\<rparr>)"
    "P s \<Longrightarrow> P (s\<lparr>c_getset_siteid_stmt := b\<rparr>)"
begin

lemma fold_keeps: "(\<And>x s. P s \<Longrightarrow> P (f x s)) \<Longrightarrow> P s \<Longrightarrow> P (fold f xs s)"
  by (induction xs arbitrary: s) simp_all

lemma sync_key_keeps: "P s \<Longrightarrow> P (cloudsync_sync_key k v s)"
  by (auto simp: cloudsync_sync_key_def split: option.split intro: keep_load keep_clock)

lemma settings_load_keeps [keeps]: "P s \<Longrightarrow> P (snd (dbutils_settings_load s))"
proof -
  have "P s \<Longrightarrow> P (dbutils_settings_load_callback kv s)" for kv s
    by (simp add: dbutils_settings_load_callback_def sync_key_keeps)
  moreover have "P s \<Longrightarrow> P (dbutils_settings_table_load_callback row s)" for row s
    by (simp add: dbutils_settings_table_load_callback_def keep_load split: prod.split)
  moreover have "P s \<Longrightarrow> (\<And>s. P s \<Longrightarrow> P (f s)) \<Longrightarrow> P (case next_fault s of (rc, s) \<Rightarrow> if rc \<noteq> SQLITE_OK then s else f s)" for s f
    using next_fault_keeps [of s] by (cases "next_fault s") simp
  ultimately show "P s \<Longrightarrow> P (snd (dbutils_settings_load s))"
    unfolding dbutils_settings_load_def Let_def snd_conv by (simp only: fold_keeps)
qed

lemma stmts_add_keeps [keeps]: "P s \<Longrightarrow> P (snd (stmts_add_tocontext s))"
  unfolding stmts_add_tocontext_def by (intro keeps | assumption | rule keep_load)+

lemma exec_ddl_keeps: "P s \<Longrightarrow> (\<And>s. P s \<Longrightarrow> P (s\<lparr>db := f (db s)\<rparr>)) \<Longrightarrow> P (snd (exec_ddl f s))"
  unfolding exec_ddl_def by (intro keeps)

end

locale settings_frame = load_frame +
  assumes keep_settings: "P s \<Longrightarrow> P (s\<lparr>db := (db s)\<lparr>d_settings := x\<rparr>\<rparr>)"
begin

lemma set_key_value_keeps [keeps]: "P s \<Longrightarrow> P (snd (dbutils_settings_set_key_value k v s))"
proof -
  have "P s \<Longrightarrow> P (snd (dbutils_write l n (replace_setting k x) s))" "P s \<Longrightarrow> P (snd (dbutils_write l n (delete_setting k) s))"
    for l n x s
    by (rule write_keeps, assumption, simp add: replace_setting_def delete_setting_def keep_settings)+
  then show "P s \<Longrightarrow> P (snd (dbutils_settings_set_key_value k v s))"
    by (cases v) (simp_all add: dbutils_settings_set_key_value_def split_beta sync_key_keeps)
qed

lemma insert_setting_keeps [keeps]: "P s \<Longrightarrow> P (snd (insert_setting k v s))"
  unfolding insert_setting_def by (intro keeps keep_settings)

end

locale library_frame = write_frame + settings_frame +
  assumes keep_library:
    "P s \<Longrightarrow> P (s\<lparr>c_seq := q\<rparr>)" "P s \<Longrightarrow> P (s\<lparr>c_site_id := b\<rparr>)" "P s \<Longrightarrow> P (s\<lparr>c_schema_hash := h\<rparr>)"
    "P s \<Longrightarrow> P (s\<lparr>db := (db s)\<lparr>d_table_settings := y\<rparr>\<rparr>)"
    "P s \<Longrightarrow> P (s\<lparr>db := (db s)\<lparr>d_schema_versions := z\<rparr>\<rparr>)" "P s \<Longrightarrow> P (s\<lparr>db := (db s)\<lparr>d_triggers := w\<rparr>\<rparr>)"
    "P s \<Longrightarrow> P (s\<lparr>db := (db s)\<lparr>d_meta := m\<rparr>\<rparr>)"
begin

lemma insert_site_id_keeps [keeps]: "P s \<Longrightarrow> P (snd (insert_site_id u s))"
  unfolding insert_site_id_def by (intro keeps keep_write | rule inner_pair_keeps)+

lemma create_keeps:
  "P s \<Longrightarrow> P (s\<lparr>db := create_settings (db s)\<rparr>)" "P s \<Longrightarrow> P (s\<lparr>db := create_site_ids (db s)\<rparr>)"
  "P s \<Longrightarrow> P (s\<lparr>db := create_table_settings (db s)\<rparr>)" "P s \<Longrightarrow> P (s\<lparr>db := create_schema_versions (db s)\<rparr>)"
  by (auto simp: create_settings_def create_site_ids_def create_table_settings_def create_schema_versions_def
      intro: keep_library keep_settings keep_write)

lemma settings_init_keeps [keeps]: "P s \<Longrightarrow> P (snd (dbutils_settings_init uuid s))"
  unfolding dbutils_settings_init_def by (intro keeps exec_ddl_keeps create_keeps | assumption)+

lemma load_siteid_keeps [keeps]: "P s \<Longrightarrow> P (snd (cloudsync_load_siteid s))"
  unfolding cloudsync_load_siteid_def by (intro keeps keep_library | assumption | rule inner_pair_keeps)+

lemma context_init_keeps [keeps]: "P s \<Longrightarrow> P (snd (cloudsync_context_init uuid s))"
  unfolding cloudsync_context_init_def by (intro keeps keep_library)

lemma meta_stmts_keep [keeps]:
  "P s \<Longrightarrow> P (snd (local_update_sentinel ti pk dbv sq s))"
  "P s \<Longrightarrow> P (snd (local_mark_insert_sentinel_meta ti pk dbv sq s))"
  "P s \<Longrightarrow> P (snd (local_mark_insert_or_update_meta ti pk col dbv sq s))"
  by (simp_all only: local_update_sentinel_def local_mark_insert_sentinel_meta_def
      local_mark_insert_or_update_meta_def local_mark_insert_or_update_meta_impl_def)
    (intro keeps; assumption)+

lemma bump_keeps [keeps]: "P s \<Longrightarrow> (\<And>sq s. P s \<Longrightarrow> P (snd (f sq s))) \<Longrightarrow> P (snd (bump f s))"
  by (simp add: bump_def BUMP_SEQ_def keep_library)

lemma insert_columns_keeps [keeps]: "P s \<Longrightarrow> P (snd (insert_columns ti pk dbv cols s))"
proof (induction cols arbitrary: s)
  case (Cons c cols)
  show ?case unfolding insert_columns.simps by (intro keeps Cons)
qed simp

lemma result_of_rc_keeps: "P (snd r) \<Longrightarrow> P (snd (result_of_rc r))"
  by (simp add: result_of_rc_def)

lemma stmt_count_keeps [keeps]: "P s \<Longrightarrow> P (snd (stmt_count r s))"
  unfolding stmt_count_def by (intro keeps)

lemma insert_keeps [keeps]: "P s \<Longrightarrow> P (snd (cloudsync_insert name args s))"
  unfolding cloudsync_insert_def by (intro keeps result_of_rc_keeps)

lemma insert_keys_keeps [keeps]: "P s \<Longrightarrow> P (snd (insert_keys name ks s))"
proof (induction ks arbitrary: s)
  case (Cons k ks)
  show ?case unfolding insert_keys.simps by (intro keeps Cons)
qed simp

lemma undecodable_keeps: "P s \<Longrightarrow> P (mark_undecodable name s)"
  by (simp add: mark_undecodable_def keep_load)

lemma trigger_columns_keeps: "P s \<Longrightarrow> P (trigger_columns cols name s)"
  using text_select_keeps [of s True "\<lambda>d. Some [if cols name d = [] then VNull else VText []]"]
  by (simp add: trigger_columns_def split_beta keep_load)

lemma insert_missing_keeps [keeps]: "P s \<Longrightarrow> P (snd (insert_missing name s))"
  unfolding insert_missing_def by (intro keeps | simp only: undecodable_keeps)+

lemma fill_rows_keeps [keeps]: "P s \<Longrightarrow> P (snd (fill_rows name ti col dbv ks s))"
proof (induction ks arbitrary: s)
  case Nil
  then show ?case by (simp add: next_fault_keeps undecodable_keeps)
next
  case (Cons k ks)
  show ?case unfolding fill_rows.simps by (intro keeps Cons undecodable_keeps keep_load)
qed

lemma fill_columns_keeps [keeps]: "P s \<Longrightarrow> P (snd (fill_columns name ti dbv cols s))"
proof (induction cols arbitrary: s)
  case (Cons c cols)
  show ?case unfolding fill_columns.simps by (intro keeps Cons)
qed simp

lemma refill_keeps [keeps]: "P s \<Longrightarrow> P (snd (cloudsync_refill_metatable name s))"
  unfolding cloudsync_refill_metatable_def by (intro keeps | simp only: trigger_columns_keeps)+

lemma drop_trigger_keeps [keeps]: "P s \<Longrightarrow> P (snd (drop_trigger n s))"
  unfolding drop_trigger_def by (intro keeps keep_library)

lemma delete_triggers_keeps [keeps]: "P s \<Longrightarrow> P (snd (dbutils_delete_triggers n s))"
  unfolding dbutils_delete_triggers_def by (intro keeps)

lemma create_trigger_keeps [keeps]: "P s \<Longrightarrow> P (snd (create_trigger table n s))"
  unfolding create_trigger_def by (intro keeps keep_library)

lemma ensure_trigger_keeps [keeps]:
  "P s \<Longrightarrow> (\<And>s. P s \<Longrightarrow> P (f s)) \<Longrightarrow> P (snd (ensure_trigger f table n s))"
  unfolding ensure_trigger_def by (intro keeps | simp only:)+

lemma check_triggers_keeps [keeps]: "P s \<Longrightarrow> P (snd (dbutils_check_triggers table algo s))"
  unfolding dbutils_check_triggers_def by (intro keeps trigger_columns_keeps)

lemma check_metatable_keeps [keeps]: "P s \<Longrightarrow> P (snd (dbutils_check_metatable table s))"
  unfolding dbutils_check_metatable_def by (intro keeps) (simp_all add: keep_library)

lemma set_table_setting_keeps [keeps]: "P s \<Longrightarrow> P (snd (dbutils_table_settings_set_key_value t c k v s))"
  unfolding dbutils_table_settings_set_key_value_def Let_def map_table_settings_def
  by (intro keeps keep_library)

lemma get_algo_keeps [keeps]: "P s \<Longrightarrow> P (snd (dbutils_table_settings_get_algo junk t s))"
  unfolding dbutils_table_settings_get_algo_def by (intro keeps)

lemma plain_if_keeps: "(c \<Longrightarrow> P x) \<Longrightarrow> (\<not> c \<Longrightarrow> P y) \<Longrightarrow> P (if c then x else y)"
  by simp

lemma init_internal_keeps [keeps]: "P s \<Longrightarrow> P (snd (cloudsync_init_internal junk uuid table algo skip s))"
  unfolding cloudsync_init_internal_def Let_def
  by (intro keeps keep_load plain_if_keeps | assumption)+

text \<open>What was true before is true when the clock table is filled, the last step of a successful initialisation.\<close>

lemma init_internal_refill:
  assumes "P s" "cloudsync_init_internal junk uuid (Some name) algo skip s = (0, s')"
  obtains s1 where "P s1" "cloudsync_refill_metatable name s1 = (0, s')"
proof -
  obtain ok s1 where 1: "dbutils_table_sanity_check (Some name) skip s = (ok, s1)" by fastforce
  obtain ok2 s2 where 2: "cloudsync_context_init uuid s1 = (ok2, s2)" by fastforce
  obtain cur s3 where 3: "dbutils_table_settings_get_algo junk name s2 = (cur, s3)" by fastforce
  define algo_text where "algo_text = (case algo of None \<Rightarrow> CLOUDSYNC_DEFAULT_ALGO | Some a \<Rightarrow> a)"
  define new where "new = crdt_algo_from_name (Some algo_text)"
  define s4 where "s4 = (if new = cur then s3
      else snd (dbutils_table_settings_set_key_value (Some name) (Some ''*'') (Some ''algo'') (Some algo_text) s3))"
  define s5 where "s5 = snd (dbutils_check_metatable name (snd (dbutils_check_triggers name new s4)))"
  obtain rc6 s6 where 6: "stmts_add_tocontext s5 = (rc6, s6)" by fastforce
  obtain ok7 s7 where 7: "table_add_to_context new name s6 = (ok7, s7)" by fastforce
  have p: "P s3" using assms(1) 1 2 3 sanity_check_keeps context_init_keeps get_algo_keeps by (metis snd_conv)
  have "P s4" unfolding s4_def by (intro plain_if_keeps p set_table_setting_keeps)
  then have "P s5" unfolding s5_def by (intro check_metatable_keeps check_triggers_keeps)
  then have "P s7" using 6 7 stmts_add_keeps keep_load(1) by (metis snd_conv)
  moreover have "cloudsync_refill_metatable name s7 = (0, s')"
    using assms(2) 1 2 3 6 7
    by (auto simp: cloudsync_init_internal_def Let_def s4_def s5_def new_def algo_text_def split: if_splits prod.splits)
  ultimately show ?thesis by (rule that)
qed

lemma drop_metatable_keeps [keeps]: "P s \<Longrightarrow> P (snd (drop_metatable name s))"
  unfolding drop_metatable_def by (intro exec_ddl_keeps keep_library)

lemma table_remove_from_context_keeps [keeps]: "P s \<Longrightarrow> P (snd (table_remove_from_context ti s))"
  unfolding table_remove_from_context_def by (intro keeps keep_load)

lemma cleanup_internal_keeps [keeps]: "P s \<Longrightarrow> P (snd (cloudsync_cleanup_internal uuid name s))"
  unfolding cloudsync_cleanup_internal_def Let_def
  by (intro keeps | assumption)+

lemma init_tables_keeps [keeps]: "P s \<Longrightarrow> P (snd (init_tables junk uuid algo skip ns s))"
proof (induction ns arbitrary: s)
  case (Cons n ns)
  show ?case unfolding init_tables.simps by (intro keeps Cons)
qed (simp add: next_fault_keeps)

lemma init_all_keeps [keeps]: "P s \<Longrightarrow> P (snd (cloudsync_init_all junk uuid algo skip s))"
  unfolding cloudsync_init_all_def Let_def by (intro keeps) (simp add: keep_load)

lemma exec_meta_keeps [keeps]: "P s \<Longrightarrow> P (snd (exec_meta name legal f s))"
  unfolding exec_meta_def by (intro keeps keep_write)

lemma finalize_alter_keeps [keeps]: "P s \<Longrightarrow> P (snd (cloudsync_finalize_alter ti s))"
  unfolding cloudsync_finalize_alter_def Let_def by (intro keeps trigger_columns_keeps | assumption)+

lemma get_key_table_keeps [keeps]: "P s \<Longrightarrow> P (snd (get_key_table name s))"
  unfolding get_key_table_def by (intro keeps)

lemma update_schema_hash_keeps [keeps]: "P s \<Longrightarrow> P (snd (dbutils_update_schema_hash s))"
  unfolding dbutils_update_schema_hash_def Let_def put_schema_version_def
  by (intro keeps keep_library plain_if_keeps | assumption)+

lemma settings_cleanup_keeps [keeps]: "P s \<Longrightarrow> P (snd (dbutils_settings_cleanup s))"
  unfolding dbutils_settings_cleanup_def by (intro keeps exec_ddl_keeps keep_library keep_settings keep_write)

lemma cleanup_all_keeps: "P s \<Longrightarrow> P (cloudsync_cleanup_all uuid s)"
proof -
  let ?f = "\<lambda>n (rc, s). case cloudsync_cleanup_internal uuid n s of (rc2, s) \<Rightarrow> (if rc2 \<noteq> SQLITE_OK then rc2 else rc, s)"
  have "P (snd r) \<Longrightarrow> P (snd (fold ?f ns r))" for ns r
    using cleanup_internal_keeps by (induction ns arbitrary: r) (simp_all add: split_beta)
  then show "P s \<Longrightarrow> P (cloudsync_cleanup_all uuid s)"
    using next_fault_keeps [of s]
    by (simp add: cloudsync_cleanup_all_def Let_def split_beta settings_cleanup_keeps keep_library)
qed

lemma cleanup_keeps: "P s \<Longrightarrow> P (cloudsync_cleanup uuid name s)"
  using cleanup_all_keeps [of s uuid] cleanup_internal_keeps [of s uuid name]
  by (simp add: cloudsync_cleanup_def Let_def split_beta table_exists_keeps update_schema_hash_keeps)

end

locale context_frame = library_frame +
  assumes keep_db: "P s \<Longrightarrow> P (s\<lparr>db := d\<rparr>)" "P s \<Longrightarrow> P (s\<lparr>savepoints := sp\<rparr>)"
begin

lemma commit_hook_keeps: "P s \<Longrightarrow> P (cloudsync_commit_hook s)"
  by (simp add: cloudsync_commit_hook_def keep_clock keep_pending keep_library)

lemma release_to_keeps: "P s \<Longrightarrow> P (release_to commits name s)"
  by (simp add: release_to_def Let_def keep_db commit_hook_keeps)

lemma savepoint_keeps [keeps]: "P s \<Longrightarrow> P (snd (savepoint name s))"
  unfolding savepoint_def by (intro keeps keep_db)

lemma release_keeps [keeps]: "P s \<Longrightarrow> P (snd (release commits name s))"
  unfolding release_def by (intro keeps release_to_keeps)

lemma rollback_release_keeps: "P s \<Longrightarrow> P (rollback_release commits name s)"
  unfolding rollback_release_def by (intro keeps release_to_keeps keep_db)

lemma init_keeps [keeps]: "P s \<Longrightarrow> P (snd (cloudsync_init junk uuid commits table algo skip s))"
  unfolding cloudsync_init_def by (intro keeps plain_if_keeps rollback_release_keeps)

lemma begin_alter_keeps [keeps]: "P s \<Longrightarrow> P (snd (cloudsync_begin_alter uuid commits name s))"
  unfolding cloudsync_begin_alter_def by (intro keeps rollback_release_keeps keep_load)

lemma commit_alter_keeps [keeps]: "P s \<Longrightarrow> P (snd (cloudsync_commit_alter junk uuid commits name s))"
  unfolding cloudsync_commit_alter_def Let_def by (intro keeps rollback_release_keeps keep_load | assumption)+

end

section \<open>Facts kept\<close>

interpretation undisturbed: tables_frame "\<lambda>s. faults s = [] \<and> savepoints s = sp \<and> d_users (db s) = us" for sp us
  by unfold_locales (simp_all add: next_fault_def)

text \<open>Without failures of the engine, inside a savepoint: the savepoints and the application's tables stay.\<close>

interpretation undisturbed: library_frame "\<lambda>s. faults s = [] \<and> savepoints s = sp \<and> d_users (db s) = us" for sp us
  by unfold_locales
    (simp_all only: undisturbed.registry_keeps, simp_all add: map_meta_def)

interpretation users_kept: tables_frame "\<lambda>s. d_users (db s) = us" for us
  by unfold_locales simp_all

interpretation users_kept: library_frame "\<lambda>s. d_users (db s) = us" for us
  by unfold_locales (simp_all only: users_kept.registry_keeps, simp_all add: map_meta_def)

interpretation metas_kept: tables_frame "\<lambda>s. d_meta (db s) = m \<and> d_site_ids (db s) = ids" for m ids
  by unfold_locales simp_all

interpretation metas_kept: settings_frame "\<lambda>s. d_meta (db s) = m \<and> d_site_ids (db s) = ids" for m ids
  by unfold_locales (simp_all only: metas_kept.registry_keeps, simp_all)

interpretation insync_kept: tables_frame "\<lambda>s. c_insync s = b" for b
  by unfold_locales simp_all

interpretation insync_kept: context_frame "\<lambda>s. c_insync s = b" for b
  by unfold_locales (simp_all only: insync_kept.registry_keeps, simp_all)

lemma registry_ok_upd_tbl:
  assumes name: "\<And>t. t_name (f t) = t_name t" and ok: "registry_ok s"
  shows "registry_ok (upd_tbl i f s)"
proof -
  let ?s = "upd_tbl i f s"
  have slot: "\<exists>t. c_tables s ! j = Some t \<and> t_name t = t_name t'" if "c_tables ?s ! j = Some t'" "j < length (c_tables s)" for j t'
    using that name by (cases "j = i") (auto simp: upd_tbl_def)
  have free: "c_tables ?s ! j = None" if "c_tables s ! j = None" for j
    using that by (cases "j = i"; cases "i < length (c_tables s)") (auto simp: upd_tbl_def list_update_beyond)
  have c: "c_tables_count ?s = c_tables_count s" "length (c_tables ?s) = length (c_tables s)" by (simp_all add: upd_tbl_def)
  have len: "c_tables_count s \<le> length (c_tables s)" using ok by (simp add: registry_ok_def)
  have "j = k" if "j < c_tables_count s" "k < c_tables_count s" "c_tables ?s ! j = Some t'" "c_tables ?s ! k = Some u'"
      "str_case_eq (t_name t') (t_name u')" for j k t' u'
    using that slot [of j t'] slot [of k u'] len ok unfolding registry_ok_def by (metis order.strict_trans2)
  moreover have "lowercase (t_name t') = t_name t'" if "j < c_tables_count s" "c_tables ?s ! j = Some t'" for j t'
    using that slot [of j t'] len ok unfolding registry_ok_def by (metis order.strict_trans2)
  moreover have "c_tables ?s ! j = None" if "j < length (c_tables s)" "c_tables_count s \<le> j" for j
    using that free ok by (simp add: registry_ok_def)
  ultimately show ?thesis using len unfolding registry_ok_def c by blast
qed

interpretation registry_kept: context_frame registry_ok
proof unfold_locales
  show "registry_ok s \<Longrightarrow> registry_ok (snd (table_add_to_context algo name s))" for algo name s
    using table_add_registry(1) [of s algo name] by (metis prod.collapse)
  show "registry_ok s \<Longrightarrow> registry_ok (upd_tbl ti (t_pk_name_update g) s)" for ti g s
    by (simp add: registry_ok_upd_tbl)
  show "registry_ok s \<Longrightarrow> registry_ok (snd (table_remove name s))" for name s
    by (rule registry_ok_table_remove)
qed (erule registry_ok_cong [THEN iffD2, rotated 2]; simp)+

section \<open>Properties\<close>

text \<open>C18. An initialisation that fails for a reason of its own leaves the database and the stack of savepoints as they
  were; the context is not rolled back.\<close>

theorem failed_init_rolls_back:
  assumes "faults s = []" "cloudsync_init junk uuid commits table algo skip s = (rc, s')" "rc \<noteq> SQLITE_OK"
  shows "db s' = db s \<and> savepoints s' = savepoints s"
proof -
  let ?s = "s\<lparr>savepoints := (''cloudsync_init'', db s) # savepoints s\<rparr>"
  let ?P = "\<lambda>s1. faults s1 = [] \<and> savepoints s1 = (''cloudsync_init'', db s) # savepoints s \<and> d_users (db s1) = d_users (db s)"
  obtain rc1 s1 where body: "(if dbutils_is_star_table table then cloudsync_init_all junk uuid algo skip ?s
      else cloudsync_init_internal junk uuid table algo skip ?s) = (rc1, s1)" by fastforce
  have "?P ?s" using assms(1) by simp
  then have s1: "?P s1"
    using undisturbed.init_all_keeps [of ?s] undisturbed.init_internal_keeps [of ?s] body
    by (metis (no_types, lifting) snd_conv)
  have run: "cloudsync_init junk uuid commits table algo skip s =
      (case and_then (rc1, s1) (release commits ''cloudsync_init'') of (rc, s) \<Rightarrow>
         (rc, if rc = SQLITE_OK then snd (dbutils_update_schema_hash s) else rollback_release commits ''cloudsync_init'' s))"
    using assms(1) body by (simp add: cloudsync_init_def savepoint_def)
  have "rc1 \<noteq> 0"
  proof
    assume "rc1 = 0"
    moreover have "fst (release commits ''cloudsync_init'' s1) = 0" using s1 by (simp add: release_def)
    ultimately show False using run assms(2,3) by (auto split: prod.splits)
  qed
  then have "s' = rollback_release commits ''cloudsync_init'' s1" using run assms(2) by simp
  then show ?thesis using s1
    by (simp add: rollback_release_def release_to_def cloudsync_commit_hook_def Let_def)
qed


theorem failed_init_rolls_back_witness:
  "\<exists>s'. cloudsync_init [] None True (Some ''zz'') None False merge_demo = (21, s') \<and> db s' = db merge_demo"
proof -
  let ?r = "cloudsync_init [] None True (Some ''zz'') None False merge_demo"
  have "fst ?r = 21" "faults merge_demo = []" by code_simp+
  moreover from this have r: "?r = (21, snd ?r)" by (intro prod_eqI) simp_all
  ultimately have "db (snd ?r) = db merge_demo" using failed_init_rolls_back [OF _ r] by simp
  then show ?thesis using r by blast
qed

text \<open>A table with a column called \<open>pk\<close> cannot be augmented, whatever the engine answers: the statement that looks for
  missing clock entries does not compile.\<close>

theorem column_pk_refused:
  assumes "user_table_of name (db s) = Some u" "c \<in> set (u_columns u)" "str_case_eq (col_name c) ''pk''"
  shows "fst (cloudsync_init_internal junk uuid (Some name) algo skip s) \<noteq> SQLITE_OK"
proof
  assume ok: "fst (cloudsync_init_internal junk uuid (Some name) algo skip s) = 0"
  have illegal: "\<not> join_legal name (db s1)" if "d_users (db s1) = d_users (db s)" for s1
  proof -
    have "user_table_of name (db s1) = Some u" using assms(1) that by (simp add: user_table_of_def)
    then show ?thesis using assms(2,3) by (auto simp: join_legal_def list_ex_iff)
  qed
  have refill: "fst (cloudsync_refill_metatable name s1) \<noteq> 0" if s1: "d_users (db s1) = d_users (db s)" for s1
  proof (cases "table_lookup name s1")
    case (Some ti)
    let ?n = "db_version_next (-1) s1"
    let ?t = "trigger_columns pk_columns name (trigger_columns pk_columns name (trigger_columns pk_columns name (snd ?n)))"
    obtain rc s2 where m: "insert_missing name ?t = (rc, s2)" by fastforce
    have "d_users (db (snd ?n)) = d_users (db s)" using s1 users_kept.db_version_next_keeps by blast
    then have "d_users (db ?t) = d_users (db s)" by (intro users_kept.trigger_columns_keeps)
    then have u2: "d_users (db s2) = d_users (db s)" using users_kept.insert_missing_keeps m by (metis snd_conv)
    have "fst (prepare (join_legal name (db s2)) s2) \<noteq> 0"
      using illegal [OF u2] by (simp add: prepare_def step_def split: prod.split)
    then have "fst (and_then (prepare (join_legal name (db s2)) s2) f) \<noteq> 0" for f
      by (cases "prepare (join_legal name (db s2)) s2") simp
    then show ?thesis using m Some
      by (cases "rc = 0") (simp_all add: cloudsync_refill_metatable_def split_beta Let_def)
  qed (simp add: cloudsync_refill_metatable_def)
  obtain s' where "cloudsync_init_internal junk uuid (Some name) algo skip s = (0, s')" using ok by (metis prod.collapse)
  then obtain s1 where "d_users (db s1) = d_users (db s)" "cloudsync_refill_metatable name s1 = (0, s')"
    by (rule users_kept.init_internal_refill [OF refl])
  then show False using refill [of s1] by simp
qed


theorem column_pk_refused_witness:
  "fst (cloudsync_init_internal [] None (Some ''T'') None False (merge_demo\<lparr>db := (db merge_demo)\<lparr>d_users := [(''t'', merge_users\<lparr>u_columns :=
     u_columns merge_users @ [\<lparr>col_name = ''PK'', col_type = [], col_notnull = False, col_dflt = None, col_pk = 0\<rparr>]\<rparr>)]\<rparr>\<rparr>)) \<noteq> 0"
  (is "fst (cloudsync_init_internal _ _ _ _ _ ?s) \<noteq> 0")
proof -
  let ?c = "\<lparr>col_name = ''PK'', col_type = [], col_notnull = False, col_dflt = None, col_pk = 0\<rparr>"
  let ?u = "merge_users\<lparr>u_columns := u_columns merge_users @ [?c]\<rparr>"
  have "user_table_of ''T'' (db ?s) = Some ?u" "str_case_eq (col_name ?c) ''pk'' = True" by code_simp+
  moreover have "?c \<in> set (u_columns ?u)" by simp
  ultimately show ?thesis using column_pk_refused [of "''T''" ?s ?u ?c] by simp
qed

text \<open>The key columns before and after an alteration are compared from the header of the result on, so the last one
  is never looked at: another last key column counts as no change.\<close>

theorem alter_compares_all_but_last:
  assumes "t_pk_name t = Some (''name'' # old)" "length old = t_npks t" "new \<noteq> []"
  shows "pk_differs t (''name'' # new) \<longleftrightarrow> length new \<noteq> length old \<or> butlast new \<noteq> butlast old"
proof (cases "length new = length old")
  case True
  have "(\<forall>i < length new. (''name'' # old) ! i = (''name'' # new) ! i) \<longleftrightarrow>
      (\<forall>i < length new - 1. old ! i = new ! i)"
    using assms(3) by (cases new) (auto simp: nth_Cons' less_Suc_eq_0_disj)
  also have "\<dots> \<longleftrightarrow> butlast new = butlast old"
    using True by (auto simp: list_eq_iff_nth_eq nth_butlast)
  finally show ?thesis using True assms(1,2) by (auto simp: pk_differs_def list_ex_iff)
qed (use assms in \<open>simp add: pk_differs_def\<close>)

theorem alter_compares_all_but_last_witness:
  "\<not> pk_differs (demo_table\<lparr>t_pk_name := Some [''name'', ''id'']\<rparr>) [''name'', ''code'']"
  using alter_compares_all_but_last [of "demo_table\<lparr>t_pk_name := Some [''name'', ''id'']\<rparr>" "[''id'']" "[''code'']"]
  by (simp add: demo_table_def)

text \<open>Compacting the clock table: what is left are entries of present columns, spelt as in the schema, or sentinels,
  and of rows that are there, or tombstones.\<close>

lemma map_of_drop_orphans:
  assumes "distinct (map fst t)"
  shows "map_of (drop_orphans keys (drop_removed_columns names t)) (pk, col) =
    (case map_of t (pk, col) of None \<Rightarrow> None
     | Some r \<Rightarrow> if (col \<in> set names \<or> col = RIP) \<and>
          (list_ex (\<lambda>k. cloudsync_pk_encode k = Some pk) keys \<or> col = RIP \<and> even (m_col_version r)) then Some r else None)"
  using assms
  by (induction t) (auto simp: drop_orphans_def drop_removed_columns_def map_of_eq_None_iff split: option.split)


lemma finalize_alter_run:
  assumes "faults s = []" "cloudsync_finalize_alter ti s = (0, s')" "meta_table_of s ti = Some t"
    and "\<not> pk_differs (tbl s ti) (''name'' # key_names (t_name (tbl s ti)) (db s))"
  shows "meta_of (t_name (tbl s ti)) (db s') = Some (drop_orphans (row_keys (t_name (tbl s ti)) (db s))
      (drop_removed_columns (map (col_name \<circ> snd) (table_info (t_name (tbl s ti)) (db s))) t))"
proof -
  let ?n = "t_name (tbl s ti)" and ?s1 = "snd (db_version_check_uptodate s)"
  let ?names = "map (col_name \<circ> snd) (table_info ?n (db s))"
  have f: "faults ?s1 = []"
    using undisturbed.db_version_check_uptodate_keeps [of s "savepoints s" "d_users (db s)"] assms(1) by simp
  have o: "outside_clock ?s1 = outside_clock s"
    using stamping.db_version_check_uptodate_keeps [of s "outside_clock s"] by simp
  have db1: "db ?s1 = db s" and t1: "tbl ?s1 ti = tbl s ti"
    using o by (simp_all add: outside_clock_def tbl_def)
  let ?s2 = "?s1\<lparr>db := map_meta ?n (drop_removed_columns ?names) (db s)\<rparr>"
  let ?s3 = "?s1\<lparr>db := map_meta ?n (drop_orphans (row_keys ?n (db s)) \<circ> drop_removed_columns ?names) (db s)\<rparr>"
  have u: "user_table_of ?n (map_meta ?n g (db s)) = user_table_of ?n (db s)" for g
    by (simp add: user_table_of_def map_meta_def)
  have r: "row_keys ?n (map_meta ?n g (db s)) = row_keys ?n (db s)" for g by (simp add: row_keys_def u)
  have m0: "meta_of ?n (db s) = Some t" using assms(3) by (simp add: meta_table_of_def)
  have k: "key_names ?n (db s) \<noteq> []"
    using assms(2) f db1 t1 by (auto simp: cloudsync_finalize_alter_def Let_def)
  have e1: "exec_meta ?n True (\<lambda>d. drop_removed_columns (map (col_name \<circ> snd) (table_info ?n d))) ?s1 = (0, ?s2)"
    using f db1 m0 by (simp add: exec_meta_def)
  have e2: "trigger_columns pk_columns ?n ?s2 = ?s2" by (rule trigger_columns_none) (simp add: f)
  have "user_table_of ?n (db s) \<noteq> None"
    using k by (cases "user_table_of ?n (db s)") (simp_all add: key_names_def pk_columns_def table_info_def)
  then have e3: "exec_meta ?n (user_table_of ?n (db ?s2) \<noteq> None) (\<lambda>d. drop_orphans (row_keys ?n d)) ?s2 = (0, ?s3)"
    using f m0 by (simp add: exec_meta_def u r meta_of_map_meta map_meta_comp)
  have "cloudsync_finalize_alter ti s = (0, snd (dbutils_settings_set_key_value ''pre_alter_dbversion''
      (Some (show_int (c_db_version ?s3))) ?s3))"
    using f k assms(4) e1 e2 e3 by (simp add: cloudsync_finalize_alter_def Let_def db1 t1)
  then have "d_meta (db s') = d_meta (db ?s3)"
    using metas_kept.set_key_value_keeps [of ?s3 "d_meta (db ?s3)" "d_site_ids (db ?s3)"] assms(2) by simp
  then have "meta_of ?n (db s') = meta_of ?n (db ?s3)" by (simp add: meta_of_def)
  then show ?thesis using m0 by (simp add: meta_of_map_meta)
qed

text \<open>A table between the two calls of an alteration; its column \<open>C\<close> is spelt with a capital.\<close>

definition alter_demo :: state where
  "alter_demo = merge_demo\<lparr>c_tables := [Some (demo_table\<lparr>t_pk_name := Some [''name'', ''id'']\<rparr>)], db := (db merge_demo)\<lparr>d_users :=
     [(''t'', merge_users\<lparr>u_columns := [\<lparr>col_name = ''id'', col_type = ''TEXT'', col_notnull = True, col_dflt = None, col_pk = 1\<rparr>,
        \<lparr>col_name = ''C'', col_type = ''TEXT'', col_notnull = False, col_dflt = None, col_pk = 0\<rparr>]\<rparr>)]\<rparr>\<rparr>"

lemma alter_demo_facts:
  "fst (cloudsync_finalize_alter 0 alter_demo) = 0" "faults alter_demo = []" "meta_table_of alter_demo 0 = Some demo_meta"
  "pk_differs (tbl alter_demo 0) (''name'' # key_names (t_name (tbl alter_demo 0)) (db alter_demo)) = False"
  "t_name (tbl alter_demo 0) = ''t''" "map (col_name \<circ> snd) (table_info ''t'' (db alter_demo)) = [''id'', ''C'']"
  "user_table_of ''t'' (db alter_demo) = Some (merge_users\<lparr>u_columns :=
     [\<lparr>col_name = ''id'', col_type = ''TEXT'', col_notnull = True, col_dflt = None, col_pk = 1\<rparr>,
      \<lparr>col_name = ''C'', col_type = ''TEXT'', col_notnull = False, col_dflt = None, col_pk = 0\<rparr>]\<rparr>)"
  "row_keys ''t'' (db alter_demo) = []"
  by code_simp+

lemma alter_demo_run: "cloudsync_finalize_alter 0 alter_demo = (0, snd (cloudsync_finalize_alter 0 alter_demo))"
  using alter_demo_facts(1) by (intro prod_eqI) simp_all

lemma demo_meta_keys: "keys_ok demo_meta"
  by (simp add: keys_ok_def demo_meta_def)

text \<open>C27. What an alteration that keeps the key leaves of the clock table: an entry stays exactly when its column is in
  the schema under this spelling, or it is a sentinel, and its row is there or it is a tombstone.\<close>

theorem alter_compacts_clock:
  assumes "faults s = []" "cloudsync_finalize_alter ti s = (0, s')" "meta_table_of s ti = Some t" "keys_ok t"
    and "\<not> pk_differs (tbl s ti) (''name'' # key_names (t_name (tbl s ti)) (db s))"
  shows "\<exists>t'. meta_of (t_name (tbl s ti)) (db s') = Some t' \<and> (\<forall>pk col. map_of t' (pk, col) =
    (case map_of t (pk, col) of None \<Rightarrow> None
     | Some r \<Rightarrow> if (col \<in> set (map (col_name \<circ> snd) (table_info (t_name (tbl s ti)) (db s))) \<or> col = RIP) \<and>
          ((\<exists>k \<in> set (row_keys (t_name (tbl s ti)) (db s)). cloudsync_pk_encode k = Some pk) \<or>
           col = RIP \<and> even (m_col_version r)) then Some r else None))"
  using finalize_alter_run [OF assms(1-3,5)] map_of_drop_orphans [of t] assms(4)
  by (simp only: keys_ok_def list_ex_iff) blast


theorem alter_compacts_clock_witness:
  "\<exists>t'. meta_of ''t'' (db (snd (cloudsync_finalize_alter 0 alter_demo))) = Some t' \<and> map_of t' ([1], ''c'') = None"
  using alter_compacts_clock [OF alter_demo_facts(2) alter_demo_run alter_demo_facts(3) demo_meta_keys] alter_demo_facts
  by (auto simp: demo_meta_def split: if_splits)

text \<open>The library writes the names of columns in lower case and the compaction compares them with the names of the
  schema: every alteration forgets the versions of a column whose name has a capital letter.\<close>

theorem alter_forgets_capitals:
  assumes "faults s = []" "cloudsync_finalize_alter ti s = (0, s')" "meta_table_of s ti = Some t" "keys_ok t"
    and "\<not> pk_differs (tbl s ti) (''name'' # key_names (t_name (tbl s ti)) (db s))"
    and "user_table_of (t_name (tbl s ti)) (db s) = Some u" "c \<in> set (u_columns u)"
    and "\<forall>c' \<in> set (u_columns u). col_name c' \<noteq> lowercase (col_name c)" "lowercase (col_name c) \<noteq> RIP"
  shows "\<exists>t'. meta_of (t_name (tbl s ti)) (db s') = Some t' \<and> (\<forall>pk. map_of t' (pk, lowercase (col_name c)) = None)"
proof -
  have "lowercase (col_name c) \<notin> set (map (col_name \<circ> snd) (table_info (t_name (tbl s ti)) (db s)))"
    using assms(6,8) by (simp add: table_info_def flip: map_map) (metis imageE)
  then show ?thesis
    using finalize_alter_run [OF assms(1-3,5)] map_of_drop_orphans [of t] assms(4,9)
    by (simp add: keys_ok_def split: option.split)
qed

theorem alter_forgets_capitals_witness:
  "\<exists>t'. meta_of ''t'' (db (snd (cloudsync_finalize_alter 0 alter_demo))) = Some t' \<and> (\<forall>pk. map_of t' (pk, ''c'') = None)"
proof -
  let ?u = "merge_users\<lparr>u_columns :=
     [\<lparr>col_name = ''id'', col_type = ''TEXT'', col_notnull = True, col_dflt = None, col_pk = 1\<rparr>,
      \<lparr>col_name = ''C'', col_type = ''TEXT'', col_notnull = False, col_dflt = None, col_pk = 0\<rparr>]\<rparr>"
  let ?c = "\<lparr>col_name = ''C'', col_type = ''TEXT'', col_notnull = False, col_dflt = None, col_pk = 0\<rparr>"
  have "lowercase ''C'' = ''c''" "(''c'' = RIP) = False" by code_simp+
  then show ?thesis
    using alter_forgets_capitals [OF alter_demo_facts(2) alter_demo_run alter_demo_facts(3) demo_meta_keys, of ?u ?c]
      alter_demo_facts by simp
qed

section \<open>The site id\<close>

text \<open>\<open>site_fields\<close>: the site id in both places and the names that the library's tables could clash with.\<close>

definition site_fields where
  "site_fields s = (c_site_id s, d_site_ids (db s), d_users (db s), d_meta (db s))"

interpretation site_kept: tables_frame "\<lambda>s. site_fields s = x" for x
  by unfold_locales (simp_all add: site_fields_def)

interpretation site_kept: settings_frame "\<lambda>s. site_fields s = x" for x
  by unfold_locales (simp_all only: site_kept.registry_keeps, simp_all add: site_fields_def)

lemma and_then_OK: "and_then r f = (0, s') \<Longrightarrow> fst r = 0 \<and> f (snd r) = (0, s')"
  by (cases r) (auto simp: and_then_def split: if_splits)

lemma site_table_missing:
  assumes "site_fields s = (b, None, us, m)" "\<forall>n \<in> fst ` set us. \<not> str_case_eq n ''cloudsync_site_id''"
  shows "fst (dbutils_table_exists ''cloudsync_site_id'' s) = False"
proof -
  have "\<not> str_case_eq (n @ ''_cloudsync'') ''cloudsync_site_id''" for n
  proof
    assume "str_case_eq (n @ ''_cloudsync'') ''cloudsync_site_id''"
    then have "last (lowercase (n @ ''_cloudsync'')) = last (lowercase ''cloudsync_site_id'')" by (simp add: str_case_eq_def)
    then show False by (simp add: lowercase_def c_tolower_def)
  qed
  moreover have "\<not> str_case_eq k ''cloudsync_site_id''" if "k \<in> {''cloudsync_settings'', ''cloudsync_table_settings'', ''cloudsync_schema_versions''}" for k
  proof -
    have "\<forall>k \<in> set [''cloudsync_settings'', ''cloudsync_table_settings'', ''cloudsync_schema_versions'']. \<not> str_case_eq k ''cloudsync_site_id''"
      by code_simp
    with that show ?thesis by auto
  qed
  ultimately have "\<not> list_ex (\<lambda>n. str_case_eq n ''cloudsync_site_id'') (table_names d)"
    if "d_site_ids d = None" "d_users d = us" for d
    using assms(2) that by (auto simp: list_ex_iff table_names_def split: if_splits)
  moreover have "d_site_ids (db s1) = None \<and> d_users (db s1) = us" if "same s s1" for s1
    using that assms(1) by (simp add: same_fields site_fields_def)
  moreover have "same s (snd (and_then (prepare True s) (binds 2)))"
    by (intro keeps same_refl)
  ultimately show ?thesis by (simp add: dbutils_table_exists_def dbutils_system_exists_def split_beta)
qed

lemma exec_write_run:
  assumes "dbutils_exec legal n stmt [] s = ((0, vs), s')"
  obtains s1 rc row where "same s s1" "stmt s1 = ((rc, row), s')"
proof -
  obtain rc1 s1 where 1: "prepare legal s = (rc1, s1)" by fastforce
  obtain rc2 s2 where 2: "binds n s1 = (rc2, s2)" by fastforce
  obtain rc3 s3 where 3: "next_fault s2 = (rc3, s3)" by fastforce
  have "same s s1" using same_frame.prepare_keeps [OF same_refl, of s] 1 by (metis snd_conv)
  then have "same s s2" using same_frame.binds_keeps [of s s1] 2 by (metis snd_conv)
  then have "same s s3" using same_frame.next_fault_keeps [of s s2] 3 by (metis snd_conv)
  moreover obtain rc row s4 where 4: "stmt s3 = ((rc, row), s4)" by (metis prod.collapse)
  moreover have "s' = s4"
    using assms 1 2 3 4 by (auto simp: dbutils_exec_def split: if_splits)
  ultimately show ?thesis using that by blast
qed

lemma same_site_fields: "same s s' \<Longrightarrow> site_fields s' = site_fields s"
  by (simp add: site_fields_def same_fields)

lemma insert_site_id_run:
  assumes "insert_site_id u s = (0, s')" "site_fields s = (b, Some [], us, m)"
  shows "site_fields s' = (b, Some [(0, u)], us, m)"
proof -
  let ?stmt = "\<lambda>s. case d_site_ids (db s) of None \<Rightarrow> ((SQLITE_ERROR, [] :: sqlval list), s)
      | Some ids \<Rightarrow> if list_ex (\<lambda>(i, w). i = 0 \<or> w = u) ids then ((SQLITE_CONSTRAINT, []), s)
          else ((SQLITE_DONE, []), s\<lparr>db := (db s)\<lparr>d_site_ids := Some ((0, u) # ids)\<rparr>\<rparr>)"
  obtain vs where "dbutils_exec (d_site_ids (db s) \<noteq> None) 2 ?stmt [] s = ((0, vs), s')"
    using assms(1) by (auto simp: insert_site_id_def split: prod.splits)
  then obtain s1 rc row where s1: "same s s1" "?stmt s1 = ((rc, row), s')" by (rule exec_write_run)
  have "site_fields s1 = (b, Some [], us, m)" using same_site_fields [OF s1(1)] assms(2) by simp
  then show ?thesis using s1(2) by (auto simp: site_fields_def)
qed

lemma exec_ddl_run:
  assumes "exec_ddl f s = (0, s')"
  obtains s1 where "same s s1" "s' = s1\<lparr>db := f (db s1)\<rparr>"
proof -
  obtain rc s1 where 1: "next_fault s = (rc, s1)" by fastforce
  then have "same s s1" using next_fault_same [of s] by simp
  moreover have "s' = s1\<lparr>db := f (db s1)\<rparr>" using assms 1 by (auto simp: exec_ddl_def step_def split: if_splits)
  ultimately show ?thesis by (rule that)
qed

lemma create_site_table_run:
  assumes "site_fields s = (b, None, us, m)" "\<forall>n \<in> fst ` set us. \<not> str_case_eq n ''cloudsync_site_id''"
    and run: "(case dbutils_table_exists ''cloudsync_site_id'' s of (ex, s) \<Rightarrow>
          if ex then (SQLITE_OK, s)
          else and_then (exec_ddl create_site_ids s) (\<lambda>s.
               case Some u of None \<Rightarrow> (SQLITE_ERROR, s) | Some u \<Rightarrow> insert_site_id u s)) = (0, s')"
  shows "site_fields s' = (b, Some [(0, u)], us, m)"
proof -
  obtain s1 where 1: "dbutils_table_exists ''cloudsync_site_id'' s = (False, s1)"
    using site_table_missing [OF assms(1,2)] by (metis prod.collapse)
  have f1: "site_fields s1 = (b, None, us, m)"
    using site_kept.table_exists_keeps [of s "site_fields s"] 1 assms(1) by (metis snd_conv)
  obtain s2 where 2: "exec_ddl create_site_ids s1 = (0, s2)" "insert_site_id u s2 = (0, s')"
    using and_then_OK [of "exec_ddl create_site_ids s1" "insert_site_id u" s'] run 1
    by (cases "exec_ddl create_site_ids s1") auto
  obtain s3 where "same s1 s3" "s2 = s3\<lparr>db := create_site_ids (db s3)\<rparr>" using 2(1) by (rule exec_ddl_run)
  then have "site_fields s2 = (b, Some [], us, m)"
    using f1 by (auto simp: site_fields_def same_fields create_site_ids_def)
  then show ?thesis by (rule insert_site_id_run [OF 2(2)])
qed

text \<open>After an initialisation that was rolled back the context still holds the site id of that attempt. The next one
  creates another id in the database and does not load it: the two differ from then on.\<close>

theorem site_id_split:
  assumes "siteid_loaded s" "d_site_ids (db s) = None" "\<forall>n \<in> fst ` set (d_users (db s)). \<not> str_case_eq n ''cloudsync_site_id''"
    and "cloudsync_context_init (Some uuid) s = (True, s')"
  shows "c_site_id s' = c_site_id s \<and> (\<exists>ids. d_site_ids (db s') = Some ids \<and> map_of ids 0 = Some uuid)"
proof -
  let ?x = "site_fields s" and ?b = "c_site_id s" and ?us = "d_users (db s)" and ?m = "d_meta (db s)"
  have x: "?x = (?b, None, ?us, ?m)" using assms(2) by (simp add: site_fields_def)
  obtain s1 where 1: "dbutils_table_exists ''cloudsync_site_id'' s = (False, s1)"
    using site_table_missing [OF x assms(3)] by (metis prod.collapse)
  have f1: "site_fields s1 = ?x" using site_kept.table_exists_keeps [of s ?x] 1 by (metis snd_conv)
  obtain s2 where 2: "dbutils_settings_init (Some uuid) s1 = (0, s2)"
    and rest: "\<exists>s3 s4. stmts_add_tocontext s2 = (0, s3) \<and> cloudsync_load_siteid s3 = (0, s4) \<and>
      s' = (snd (dbutils_schema_hash s4))\<lparr>c_schema_hash := fst (dbutils_schema_hash s4)\<rparr>"
    using assms(1,4) 1 by (auto simp: cloudsync_context_init_def and_then_def split: prod.splits if_splits)
  have a: "site_fields s2 = (?b, Some [(0, uuid)], ?us, ?m)"
  proof -
    note run = and_then_OK [OF 2 [unfolded dbutils_settings_init_def]]
    note run2 = and_then_OK [OF conjunct2 [OF run]]
    let ?a1 = "snd (case dbutils_table_exists ''cloudsync_settings'' s1 of (ex, s) \<Rightarrow>
          if ex then (SQLITE_OK, s)
          else and_then (exec_ddl create_settings s) (\<lambda>s.
               and_then (insert_setting KEY_LIBVERSION CLOUDSYNC_VERSION s) (\<lambda>s.
               case dbutils_schema_version s of (v, s) \<Rightarrow> insert_setting KEY_SCHEMAVERSION (show_int v) s)))"
    have a1: "site_fields ?a1 = ?x"
      by (intro keeps site_kept.exec_ddl_keeps f1)
        (auto simp: site_fields_def create_settings_def)
    let ?r2 = "case dbutils_table_exists ''cloudsync_site_id'' ?a1 of (ex, s) \<Rightarrow>
          if ex then (SQLITE_OK, s)
          else and_then (exec_ddl create_site_ids s) (\<lambda>s.
               case Some uuid of None \<Rightarrow> (SQLITE_ERROR, s) | Some u \<Rightarrow> insert_site_id u s)"
    obtain a2 where r2: "?r2 = (0, a2)" using conjunct1 [OF run2] by (cases ?r2) simp
    have a2: "site_fields a2 = (?b, Some [(0, uuid)], ?us, ?m)" "snd ?r2 = a2"
      by (rule create_site_table_run [OF _ assms(3) r2]) (simp_all only: a1 x r2 snd_conv)
    have "site_fields (snd (and_then (case dbutils_table_exists ''cloudsync_table_settings'' a2 of (ex, s) \<Rightarrow>
          if ex then (SQLITE_OK, s) else exec_ddl create_table_settings s) (\<lambda>s.
       and_then (case dbutils_table_exists ''cloudsync_schema_versions'' s of (ex, s) \<Rightarrow>
          if ex then (SQLITE_OK, s) else exec_ddl create_schema_versions s) dbutils_settings_load))) = site_fields a2"
      by (intro keeps site_kept.exec_ddl_keeps refl)
        (auto simp: site_fields_def create_table_settings_def create_schema_versions_def)
    then have "site_fields s2 = site_fields a2" using conjunct2 [OF run2] unfolding a2(2) by simp
    then show ?thesis using a2(1) by simp
  qed
  obtain s3 s4 where 3: "stmts_add_tocontext s2 = (0, s3)" "cloudsync_load_siteid s3 = (0, s4)"
    "s' = (snd (dbutils_schema_hash s4))\<lparr>c_schema_hash := fst (dbutils_schema_hash s4)\<rparr>" using rest by blast
  have f3: "site_fields s3 = (?b, Some [(0, uuid)], ?us, ?m)"
    using site_kept.stmts_add_keeps [of s2 "site_fields s2"] a 3(1) by (metis snd_conv)
  then have "siteid_loaded s3" using assms(1) by (simp add: site_fields_def)
  then have "s4 = s3" using 3(2) by (simp add: cloudsync_load_siteid_def)
  then have "site_fields (snd (dbutils_schema_hash s4)) = site_fields s3"
    using site_kept.schema_hash_keeps [of s3 "site_fields s3"] by simp
  then have "site_fields s' = site_fields s3" using 3(3) by (simp add: site_fields_def)
  then show ?thesis using f3 by (simp add: site_fields_def)
qed
theorem site_id_split_witness:
  "\<exists>s'. cloudsync_context_init (Some (replicate 16 2)) ((cloudsync_context_create (demo_db\<lparr>d_site_ids := None\<rparr>) [])\<lparr>c_site_id := replicate 16 1\<rparr>) = (True, s') \<and>
     c_site_id s' = replicate 16 1 \<and> map_of (the (d_site_ids (db s'))) 0 = Some (replicate 16 2)"
proof -
  let ?s = "(cloudsync_context_create (demo_db\<lparr>d_site_ids := None\<rparr>) [])\<lparr>c_site_id := replicate 16 1\<rparr>"
  let ?r = "cloudsync_context_init (Some (replicate 16 2)) ?s"
  have "fst ?r = True" by code_simp
  then have r: "?r = (True, snd ?r)" by (intro prod_eqI) simp_all
  have "siteid_loaded ?s" "d_site_ids (db ?s) = None" "d_users (db ?s) = []"
    by (simp_all add: cloudsync_context_create_def demo_db_def)
  then show ?thesis using site_id_split [OF _ _ _ r] r by fastforce
qed

text \<open>A database with one table, and a context that is not yet told of it.\<close>

definition init_demo :: "int list \<Rightarrow> state" where
  "init_demo fs = (cloudsync_context_create (demo_db\<lparr>d_meta := [], d_users := [(''t'', merge_users)]\<rparr>) fs)
     \<lparr>c_site_id := replicate 16 1, c_data_version_stmt := True, c_schema_version_stmt := True,
      c_getset_siteid_stmt := True, c_tables := [None, None]\<rparr>"

text \<open>The triggers are created on a best effort: when the first \<open>CREATE TRIGGER\<close> fails, the initialisation reports
  success for a table without triggers, and an insert of the application leaves no trace in the clock table.\<close>

theorem init_without_triggers:
  "\<exists>s1 s2. cloudsync_init_internal [] None (Some ''t'') None False (init_demo (replicate 24 0 @ [1])) = (0, s1) \<and>
     d_triggers (db s1) = [] \<and> table_lookup ''t'' s1 = Some 0 \<and>
     app_insert ''t'' [VText [97]] [(''c'', VInteger 1)] s1 = (SQLITE_DONE, s2) \<and> meta_of ''t'' (db s2) = Some []"
proof -
  let ?r = "cloudsync_init_internal [] None (Some ''t'') None False (init_demo (replicate 24 0 @ [1]))"
  have "(case ?r of (rc, s1) \<Rightarrow> rc = 0 \<and> d_triggers (db s1) = [] \<and> table_lookup ''t'' s1 = Some 0 \<and>
      (case app_insert ''t'' [VText [97]] [(''c'', VInteger 1)] s1 of (rc, s2) \<Rightarrow>
         rc = SQLITE_DONE \<and> meta_of ''t'' (db s2) = Some [])) = True"
    by code_simp
  then show ?thesis by (simp split: prod.splits)
qed

end
