(* ===== verification/Refill.thy ===== *)
theory Refill
  imports Lifecycle
begin

text \<open>
  \<open>cloudsync_refill_metatable\<close> on a table that has rows and no clock entries yet: the history of the table
  starts with one insert for every row.
\<close>

section \<open>Keys and their blobs\<close>

lemma decode_callback_run:
  "run_callback (cloudsync_pk_decode_set_result_callback n) i vs x =
     Inr (if int i < n \<and> n \<le> int (i + length vs) then vs ! (nat n - 1 - i) else x)"
proof (induction vs arbitrary: i x)
  case (Cons v vs)
  show ?case
  proof (cases "n = int i + 1")
    case True
    have "run_callback (cloudsync_pk_decode_set_result_callback n) i (v # vs) x =
        run_callback (cloudsync_pk_decode_set_result_callback n) (i + 1) vs v"
      using True by (simp add: cloudsync_pk_decode_set_result_callback_def)
    then show ?thesis using True Cons by simp
  next
    case False
    then have "int i < n \<Longrightarrow> nat n - 1 - i = Suc (nat n - 1 - Suc i)" by linarith
    moreover have "run_callback (cloudsync_pk_decode_set_result_callback n) i (v # vs) x =
        run_callback (cloudsync_pk_decode_set_result_callback n) (i + 1) vs x"
      using False by (simp add: cloudsync_pk_decode_set_result_callback_def)
    ultimately show ?thesis using False Cons by auto
  qed
qed auto

lemma cloudsync_pk_decode_blob:
  assumes "wf_key n vs" "1 \<le> i" "i \<le> n"
  shows "cloudsync_pk_decode (pk_blob vs) (int i) = Some (vs ! (i - 1))"
  using assms pk_decode_prikey_blob [of vs "[]" "cloudsync_pk_decode_set_result_callback (int i)" VNull]
  by (simp add: cloudsync_pk_decode_def wf_key_def decode_callback_run)

text \<open>The key columns stand in the table in the order of the \<open>PRIMARY KEY\<close> clause.\<close>

definition keys_in_order :: "string \<Rightarrow> nat \<Rightarrow> database \<Rightarrow> bool" where
  "keys_in_order name n d \<longleftrightarrow> map (\<lambda>(_, c). col_pk c) (pk_columns name d) = [1..<n + 1]"

lemma decoded_key_blob:
  assumes "keys_in_order name n d" "wf_key n vs"
  shows "decoded_key name d (pk_blob vs) = Some vs"
proof -
  have "map (\<lambda>(_, c). cloudsync_pk_decode (pk_blob vs) (int (col_pk c))) (pk_columns name d) =
      map (\<lambda>i. cloudsync_pk_decode (pk_blob vs) (int i)) (map (\<lambda>(_, c). col_pk c) (pk_columns name d))"
    by (simp add: split_def)
  also have "\<dots> = map (\<lambda>i. Some (vs ! (i - 1))) [1..<n + 1]"
    using assms by (auto simp: keys_in_order_def cloudsync_pk_decode_blob)
  also have "\<dots> = map Some vs"
    using assms(2) by (intro nth_equalityI) (simp_all add: wf_key_def del: upt_Suc)
  finally have "decoded_key name d (pk_blob vs) = those (map Some vs)" by (simp add: decoded_key_def)
  moreover have "those (map Some vs) = Some vs" by (induction vs) simp_all
  ultimately show ?thesis by simp
qed

lemma pk_blob_inj: "wf_key n vs \<Longrightarrow> wf_key n ws \<Longrightarrow> pk_blob vs = pk_blob ws \<Longrightarrow> vs = ws"
  using pk_decode_prikey_blob [of vs "[]" collect_cb "[]"] pk_decode_prikey_blob [of ws "[]" collect_cb "[]"]
  by (simp add: wf_key_def)

lemma encode_key_blob [simp]: "encode_key vs = Some (pk_blob vs)" "cloudsync_pk_encode vs = Some (pk_blob vs)"
  by (simp_all add: encode_key_def cloudsync_pk_encode_def pk_encode_prikey_def pk_encode_def pk_blob_def Let_def)

section \<open>One insert for every row\<close>

text \<open>The entries an insert leaves for a key that had none.\<close>

definition filled :: "string list \<Rightarrow> int \<Rightarrow> meta_table \<Rightarrow> sqlval list \<Rightarrow> bool" where
  "filled cols dbv t k \<longleftrightarrow>
     meta_local_cl (pk_blob k) t = 1 \<and>
     (\<forall>col \<in> set cols. \<exists>r. map_of t (pk_blob k, col) = Some r \<and>
        m_col_version r = 1 \<and> m_db_version r = dbv \<and> m_site_id r = 0)"

lemma filled_cong:
  "(\<And>c. map_of t' (pk_blob k, c) = map_of t (pk_blob k, c)) \<Longrightarrow> filled cols dbv t' k = filled cols dbv t k"
  using local_cl_other [of t' "pk_blob k" t] by (simp add: filled_def)

lemma filled_insert:
  assumes "\<forall>c. map_of t (pk_blob k, c) = None" "distinct cols" "RIP \<notin> set cols"
  shows "filled cols dbv (insert_meta (pk_blob k) dbv sq cols t) k"
proof -
  have cl: "meta_local_cl (pk_blob k) t = 0" using assms(1) by (simp add: meta_local_cl_def meta_pkexists_iff)
  then have "meta_local_cl (pk_blob k) (insert_meta (pk_blob k) dbv sq cols t) = 1"
    using insert_meta_cl [OF assms(3), of "pk_blob k" t dbv sq] by (simp add: insert_cl_def)
  moreover have "\<exists>r. map_of (insert_meta (pk_blob k) dbv sq cols t) (pk_blob k, col) = Some r \<and>
      m_col_version r = 1 \<and> m_db_version r = dbv \<and> m_site_id r = 0" if col: "col \<in> set cols" for col
  proof -
    obtain i where "i < length cols" "col = cols ! i" using col by (auto simp: in_set_conv_nth)
    then show ?thesis using insert_meta_column [OF assms(2,3), of i "pk_blob k" dbv sq t] assms(1) by auto
  qed
  ultimately show ?thesis by (simp add: filled_def)
qed

text \<open>The version of the transaction has been handed out.\<close>

definition stamping_at :: "int \<Rightarrow> state \<Rightarrow> bool" where
  "stamping_at dbv s \<longleftrightarrow> c_db_version s < dbv \<and> c_pending_db_version s = dbv"

lemma next_stamping:
  assumes "ready ti s" "stamping_at dbv s"
  shows "db_version_next (-1) s = (dbv, s)"
proof -
  have "db_version_check_uptodate s = (0, s)"
    using assms(1) by (simp add: ready_def synced_def db_version_check_uptodate_def stmt_execute_def prepared_def)
  then show ?thesis using assms(2) by (auto simp: db_version_next_def stamping_at_def Let_def)
qed

lemma writes_ready:
  assumes "writes ti g n s s'"
  shows "ready ti s' = ready ti s" "stamping_at dbv s' = stamping_at dbv s"
    "table_lookup name s' = table_lookup name s" "keys_in_order name m (db s') = keys_in_order name m (db s)"
    "row_keys name (db s') = row_keys name (db s)"
  using assms writes_fields [OF assms]
  by (auto simp: writes_def ready_def stamping_at_def synced_def has_trigger_def tbl_def meta_table_of_def meta_of_map_meta
      map_meta_def user_table_of_def row_keys_def keys_in_order_def pk_columns_def table_info_def table_lookup_def)

lemma insert_keys_ok:
  assumes "ready ti s" "stamping_at dbv s" "table_lookup name s = Some ti" "meta_table_of s ti = Some t"
    and "\<forall>k \<in> set ks. wf_key (t_npks (tbl s ti)) k" "distinct ks" "\<forall>k \<in> set ks. \<forall>c. map_of t (pk_blob k, c) = None"
    and cols: "distinct (t_cols (tbl s ti))" "RIP \<notin> set (t_cols (tbl s ti))"
  shows "\<exists>s' t' g n. insert_keys name ks s = (0, s') \<and> writes ti g n s s' \<and> meta_table_of s' ti = Some t' \<and>
    (\<forall>k \<in> set ks. filled (t_cols (tbl s ti)) dbv t' k) \<and>
    (\<forall>key. fst key \<notin> pk_blob ` set ks \<longrightarrow> map_of t' key = map_of t key)"
  using assms
proof (induction ks arbitrary: s t)
  case Nil
  then show ?case using writes_none [of ti s] by (intro exI [of _ s] exI [of _ t] exI [of _ "\<lambda>t. t"] exI [of _ 0]) simp
next
  case (Cons k ks)
  let ?cols = "t_cols (tbl s ti)"
  have k: "wf_key (t_npks (tbl s ti)) k" using Cons.prems(5) by simp
  then have enc: "encode_key (take (t_npks (tbl s ti)) k) = Some (pk_blob k)" by (simp add: wf_key_def)
  have nofault: "faults s = []" using Cons.prems(1) by (simp add: ready_def)
  obtain s1 g n where s1: "cloudsync_insert name k s = (ResNone, s1)" "writes ti g n s s1"
    "g t = insert_meta (pk_blob k) dbv (c_seq s) ?cols t"
    using cloudsync_insert_ok [OF Cons.prems(3) enc next_stamping [OF Cons.prems(1,2)] nofault Cons.prems(4)] .
  let ?t1 = "insert_meta (pk_blob k) dbv (c_seq s) ?cols t"
  note w = writes_fields [OF s1(2)] and w' = writes_ready [OF s1(2)]
  have t1: "meta_table_of s1 ti = Some ?t1" using w(5) Cons.prems(4) s1(3) by simp
  have other: "map_of ?t1 key = map_of t key" if "fst key \<noteq> pk_blob k" for key
    using that by (rule insert_meta_other)
  have ne: "pk_blob k' \<noteq> pk_blob k" if "k' \<in> set ks" for k'
    using that Cons.prems(5,6) pk_blob_inj [of "t_npks (tbl s ti)" k' k] k by auto
  have fresh: "\<forall>k' \<in> set ks. \<forall>c. map_of ?t1 (pk_blob k', c) = None"
    using Cons.prems(7) ne other by simp
  obtain s2 t2 h m where s2: "insert_keys name ks s1 = (0, s2)" "writes ti h m s1 s2" "meta_table_of s2 ti = Some t2"
    "\<forall>k \<in> set ks. filled ?cols dbv t2 k" "\<forall>key. fst key \<notin> pk_blob ` set ks \<longrightarrow> map_of t2 key = map_of ?t1 key"
    using Cons.IH [of s1 ?t1] Cons.prems w w' t1 fresh by auto
  have "filled ?cols dbv ?t1 k" using filled_insert Cons.prems(7) cols Cons.prems(8,9) by simp
  moreover have "map_of t2 (pk_blob k, c) = map_of ?t1 (pk_blob k, c)" for c using s2(5) ne by force
  ultimately have "filled ?cols dbv t2 k" using filled_cong by metis
  moreover have "insert_keys name (k # ks) s = (0, s2)" using s1(1) s2(1) by simp
  moreover have "\<forall>key. fst key \<notin> pk_blob ` set (k # ks) \<longrightarrow> map_of t2 key = map_of t key" using s2(5) other by simp
  ultimately show ?case using s2(3,4) writes_trans [OF s1(2) s2(2)] by fastforce
qed

section \<open>The whole refill\<close>

lemma fill_rows_none:
  assumes "faults s = []" "\<forall>k \<in> set ks. has_clock name col k (db s)"
    and "\<forall>(pk, _) \<in> set (clock_keys name (db s)). decoded_key name (db s) pk \<noteq> None"
  shows "fill_rows name ti col dbv ks s = (0, s)"
proof -
  have "mark_undecodable name s = s" using assms(3) by (auto simp: mark_undecodable_def list_ex_iff)
  then show ?thesis using assms(1,2) by (induction ks) simp_all
qed

lemma fill_columns_none:
  assumes "faults s = []" "\<forall>col \<in> set cols. \<forall>k \<in> set (row_keys name (db s)). has_clock name col k (db s)"
    and "\<forall>(pk, _) \<in> set (clock_keys name (db s)). decoded_key name (db s) pk \<noteq> None"
  shows "fill_columns name ti dbv cols s = (0, s)"
  using assms by (induction cols) (simp_all add: fill_rows_none)

lemma meta_of_case: "str_case_eq a b \<Longrightarrow> meta_of a d = meta_of b d"
proof -
  assume eq: "str_case_eq a b"
  have "assoc_get str_case_eq a xs = assoc_get str_case_eq b xs" for xs :: "(string \<times> meta_table) list"
    using eq by (induction xs) (auto simp: str_case_eq_def)
  then show ?thesis by (simp add: meta_of_def)
qed


definition refill_demo :: state where
  "refill_demo = merge_demo\<lparr>db := (db merge_demo)\<lparr>d_meta := [(''t'', [])],
     d_users := [(''t'', merge_users\<lparr>u_rows := [([VText [97]], [(''c'', VNull)]), ([VText [98]], [(''c'', VNull)])]\<rparr>)]\<rparr>\<rparr>"

lemma refill_demo_ready: "ready 0 refill_demo"
proof -
  have "meta_table_of refill_demo 0 = Some []" "t_name (tbl refill_demo 0) = ''t''"
    "user_table_of ''t'' (db refill_demo) = Some (merge_users\<lparr>u_rows :=
       [([VText [97]], [(''c'', VNull)]), ([VText [98]], [(''c'', VNull)])]\<rparr>)"
    "t_algo (tbl refill_demo 0) = table_algo_crdt_cls"
    by code_simp+
  then show ?thesis
    by (simp add: ready_def)
      (simp add: refill_demo_def merge_demo_def local_demo_def demo_state_def cloudsync_context_create_def demo_db_def
        synced_def has_trigger_def)
qed


text \<open>A column that is new for a row gets its entry under the key up to the first zero byte: a row whose encoded key
  has a zero byte (an integer key 0 or 256, a text with a NUL) stays without an entry, and the entry goes to a
  key that belongs to no row.\<close>

theorem refill_cuts_key:
  assumes "ready ti s" "meta_table_of s ti = Some t" "map_of t (pk_blob k, col) = None" "0 \<in> set (pk_blob k)"
    and "\<not> has_clock name col k (db s)"
  shows "\<exists>rc s' t'. fill_rows name ti col dbv [k] s = (rc, s') \<and> meta_table_of s' ti = Some t' \<and>
    map_of t' (pk_blob k, col) = None \<and> map_of t' (cstr (pk_blob k), col) \<noteq> None \<and> cstr (pk_blob k) \<noteq> pk_blob k"
proof -
  let ?s = "mark_undecodable name s"
  have m: "meta_table_of ?s ti = Some t" "faults ?s = []" "c_seq ?s = c_seq s"
    using assms(1,2) by (simp_all add: mark_undecodable_def meta_table_of_def tbl_def ready_def)
  have cut: "cstr (pk_blob k) \<noteq> pk_blob k" using assms(4) by (auto simp: cstr_def takeWhile_eq_all_conv)
  obtain s1 where s1: "bump (local_mark_insert_or_update_meta ti (cstr (pk_blob k)) col dbv) ?s = (0, s1)"
    "writes ti (meta_row_insert_update (cstr (pk_blob k)) col 1 dbv (c_seq ?s)) 1 ?s s1"
    using bump_ok [of ti "local_mark_insert_or_update_meta ti (cstr (pk_blob k)) col dbv" _ ?s, OF local_stmts_ok(3)] m by blast
  let ?t = "meta_row_insert_update (cstr (pk_blob k)) col 1 dbv (c_seq ?s) t"
  have t1: "meta_table_of s1 ti = Some ?t" using writes_fields(5) [OF s1(2)] m(1) by simp
  obtain rc s2 where s2: "next_fault (mark_undecodable name s1) = (rc, s2)" by fastforce
  have "same (mark_undecodable name s1) s2" using next_fault_same [of "mark_undecodable name s1"] s2 by simp
  then have "meta_table_of s2 ti = meta_table_of s1 ti"
    by (auto simp: meta_table_of_def tbl_def same_fields mark_undecodable_def)
  moreover have "fill_rows name ti col dbv [k] s = (rc, s2)" using assms(5) m(2) s1(1) s2 by simp
  moreover have "map_of ?t (pk_blob k, col) = None" "map_of ?t (cstr (pk_blob k), col) \<noteq> None"
    using assms(3) cut by (simp_all add: map_of_row_insert_update)
  ultimately show ?thesis using t1 cut by auto
qed

theorem refill_cuts_key_witness:
  "\<exists>rc s' t'. fill_rows ''t'' 0 ''c'' 8 [[VText [97, 0]]] refill_demo = (rc, s') \<and> meta_table_of s' 0 = Some t' \<and>
     map_of t' (pk_blob [VText [97, 0]], ''c'') = None \<and> map_of t' ([1, 11, 2, 97], ''c'') \<noteq> None"
proof -
  have h: "meta_table_of refill_demo 0 = Some []" "t_name (tbl refill_demo 0) = ''t''"
    "user_table_of ''t'' (db refill_demo) = Some (merge_users\<lparr>u_rows :=
       [([VText [97]], [(''c'', VNull)]), ([VText [98]], [(''c'', VNull)])]\<rparr>)"
    "t_algo (tbl refill_demo 0) = table_algo_crdt_cls" "has_clock ''t'' ''c'' [VText [97, 0]] (db refill_demo) = False"
    "pk_blob [VText [97, 0]] = [1, 11, 2, 97, 0]" "cstr [1, 11, 2, 97, 0] = [1, 11, 2, 97]"
    by code_simp+
  show ?thesis
    using refill_demo_ready refill_cuts_key [of 0 refill_demo "[]" "[VText [97, 0]]" "''c''" "''t''" 8] h by auto
qed

end
