(* ===== verification/Changes.thy ===== *)
theory Changes
  imports Refill
begin

text \<open>
  The virtual table \<open>cloudsync_changes\<close> (src/src/vtab.c): the text of the \<open>WHERE\<close> and \<open>ORDER BY\<close> clauses that
  \<open>xBestIndex\<close> builds, the rows that the query over all clock tables gives with the current value of each
  column (\<open>cloudsync_col_value\<close>), the cursor that walks through them, and \<open>xUpdate\<close>, which is the entry to
  \<open>cloudsync_merge_insert\<close>.
\<close>

section \<open>Columns and operators\<close>

definition cloudsync_changes_columns :: "string list" where
  "cloudsync_changes_columns =
     [''tbl'', ''pk'', ''col_name'', ''col_value'', ''col_version'', ''db_version'', ''site_id'', ''cl'', ''seq'']"

abbreviation (input) COL_DBVERSION_INDEX :: int where "COL_DBVERSION_INDEX \<equiv> 5"
abbreviation (input) COL_SITEID_INDEX :: int where "COL_SITEID_INDEX \<equiv> 6"

text \<open>\<open>COLNAME_FROM_INDEX\<close>: \<open>None\<close> is a read outside the array.\<close>

definition colname_from_index :: "int \<Rightarrow> string option" where
  "colname_from_index i = (if 0 \<le> i \<and> i < 9 then Some (cloudsync_changes_columns ! nat i) else None)"

text \<open>The codes \<open>SQLITE_INDEX_CONSTRAINT_*\<close> of the operators.\<close>

definition opname_from_value :: "nat \<Rightarrow> string option" where
  "opname_from_value op =
     (if op = 2 then Some ''='' else if op = 4 then Some ''>'' else if op = 8 then Some ''<=''
      else if op = 16 then Some ''<'' else if op = 32 then Some ''>='' else if op = 65 then Some ''LIKE''
      else if op = 66 then Some ''GLOB'' else if op = 68 then Some ''!='' else if op = 69 then Some ''IS NOT''
      else if op = 70 then Some ''IS NOT NULL'' else if op = 71 then Some ''IS NULL''
      else if op = 72 then Some ''IS'' else None)"

definition colname_is_legal :: "string \<Rightarrow> bool" where
  "colname_is_legal name = list_ex (\<lambda>c. str_case_eq c name) cloudsync_changes_columns"

section \<open>xBestIndex\<close>

record index_constraint =
  ic_column :: int
  ic_op :: nat
  ic_usable :: bool

record index_orderby =
  io_column :: int
  io_desc :: bool

text \<open>The outputs: \<open>None\<close> for a constraint that the code leaves as SQLite set it (not used).\<close>

datatype index_cost = OneRow | TenRows | Int32MaxRows | Int64MaxRows

record index_plan =
  ix_str :: string
  ix_num :: int
  ix_usage :: "nat option list"
  ix_ordered :: bool
  ix_cost :: index_cost
  ix_outside :: bool

text \<open>The size of the buffer for the text.\<close>

definition index_size :: "nat \<Rightarrow> nat \<Rightarrow> nat" where
  "index_size count1 count2 = count1 * (11 + 1 + 11 + 1 + 5) + (count2 * 11 + 1 + 5) + 512"

text \<open>
  The loop over the constraints: the index, the next \<open>argvIndex\<close>, \<open>idxnum\<close>, the text and the usage so far. A column
  above 8 cannot occur; column 0 and the rowid \<open>-1\<close> give the name \<open>rowid\<close>.
\<close>

fun index_constraints ::
  "index_constraint list \<Rightarrow> nat \<Rightarrow> nat \<Rightarrow> int \<Rightarrow> string \<Rightarrow> nat option list \<Rightarrow> string \<times> int \<times> nat option list" where
  "index_constraints [] i arg idxnum s usage = (s, idxnum, usage)"
| "index_constraints (c # cs) i arg idxnum s usage =
     (if \<not> ic_usable c then index_constraints cs (i + 1) arg idxnum s (usage @ [None])
      else case opname_from_value (ic_op c) of
        None \<Rightarrow> index_constraints cs (i + 1) arg idxnum s (usage @ [None])
      | Some opname \<Rightarrow>
        let colname = (if ic_column c > 0 then the (colname_from_index (ic_column c)) else ''rowid'');
            s = s @ (if i > 0 then '' AND '' else []);
            no_value = (ic_op c = 71 \<or> ic_op c = 70);
            s = s @ colname @ '' '' @ opname @ (if no_value then [] else '' ?'');
            idxnum = (if ic_column c = COL_DBVERSION_INDEX then idxnum OR 2
                      else if ic_column c = COL_SITEID_INDEX then idxnum OR 4 else idxnum)
        in index_constraints cs (i + 1) (if no_value then arg else arg + 1) idxnum s
             (usage @ [Some (if no_value then 0 else arg)]))"

text \<open>The loop over the \<open>ORDER BY\<close> terms; \<open>None\<close> when a column index is outside the array of names.\<close>

fun index_orders :: "index_orderby list \<Rightarrow> nat \<Rightarrow> bool \<Rightarrow> string \<Rightarrow> (string \<times> bool) option" where
  "index_orders [] i consumed s = Some (s, consumed)"
| "index_orders (x # xs) i consumed s =
     (case colname_from_index (io_column x) of None \<Rightarrow> None
      | Some colname \<Rightarrow>
        index_orders xs (i + 1) (consumed \<and> colname_is_legal colname)
          (s @ (if i > 0 then '', '' else []) @ colname @ '' '' @ (if io_desc x then '' DESC'' else '' ASC'')))"

definition index_cost_of :: "int \<Rightarrow> index_cost" where
  "index_cost_of idxnum =
     (if idxnum AND 6 = 6 then OneRow else if idxnum AND 2 = 2 then TenRows
      else if idxnum AND 4 = 4 then Int32MaxRows else Int64MaxRows)"

text \<open>
  \<open>alloc\<close> says whether the buffer can be allocated. \<open>ix_outside\<close> is set when the text does not fit the buffer: \<open>snprintf\<close>
  then returns more than it wrote, and the size left wraps around.
\<close>

definition cloudsync_changesvtab_best_index ::
  "bool \<Rightarrow> index_constraint list \<Rightarrow> index_orderby list \<Rightarrow> (int + index_plan) option" where
  "cloudsync_changesvtab_best_index alloc cs os =
     (let slen = index_size (length cs) (length os) in
      if \<not> alloc then Some (Inl SQLITE_NOMEM)
      else
       let s = (if cs \<noteq> [] then ''WHERE '' else []) in
       case index_constraints cs 0 1 0 s [] of (s, idxnum, usage) \<Rightarrow>
       let s = s @ (if os \<noteq> [] then '' ORDER BY '' else '' ORDER BY db_version, seq ASC'') in
       case index_orders os 0 True s of None \<Rightarrow> None
       | Some (s, consumed) \<Rightarrow>
           Some (Inr \<lparr>ix_str = s, ix_num = idxnum, ix_usage = usage, ix_ordered = consumed,
             ix_cost = index_cost_of idxnum, ix_outside = (slen \<le> length s)\<rparr>))"

section \<open>The current value of a column\<close>

text \<open>
  \<open>cloudsync_col_value\<close>. The statement of the column is only reset, its bindings stay: with a key of fewer values
  than the table has key columns it runs with values of an earlier call, and \<open>ub\<close> is set.
\<close>

definition cloudsync_col_value :: "string \<Rightarrow> string \<Rightarrow> pkblob \<Rightarrow> state \<Rightarrow> sql_result \<times> state" where
  "cloudsync_col_value table_name name pk s =
     (case table_lookup table_name s of None \<Rightarrow> (ResError SQLITE_ERROR, s)
      | Some ti \<Rightarrow>
        if name = CLOUDSYNC_TOMBSTONE_VALUE then (ResValue VNull, s)
        else let t = tbl s ti in
        case table_column_lookup t name of None \<Rightarrow> (ResError SQLITE_ERROR, s)
        | Some index \<Rightarrow>
          (case bind_key (t_npks t) pk s of ((rc, vm), s) \<Rightarrow>
           if rc \<noteq> SQLITE_OK then (ResError rc, s)
           else let s = (if list_ex (\<lambda>i. map_of vm (i + 1) = None) [0..<t_npks t] then s\<lparr>ub := True\<rparr> else s) in
           case next_fault s of (rc, s) \<Rightarrow>
           if rc \<noteq> SQLITE_OK then (ResError rc, s)
           else if user_table_of (t_name t) (db s) = None then (ResError SQLITE_ERROR, s)
           else (case real_col_value (t_name t) (t_cols t ! index) (key_values (t_npks t) vm) (db s) of
               None \<Rightarrow> (ResValue (VText (text_bytes CLOUDSYNC_RLS_RESTRICTED_VALUE)), s)
             | Some v \<Rightarrow> (ResValue v, s))))"

section \<open>The rows of all clock tables\<close>

text \<open>
  The query of \<open>build_changes_sql\<close>: for every table whose name matches \<open>%_cloudsync\<close> its rows, each with the site it
  came from and the version of the sentinel of its key (1 without one), without those whose value is the marker of
  a row that is not visible. The \<open>_\<close> of \<open>LIKE\<close> is a wildcard: an application's table with such a name is taken for
  a clock table and the query does not compile.
\<close>

definition site_of_ordinal :: "int \<Rightarrow> database \<Rightarrow> sqlval" where
  "site_of_ordinal ord d =
     (case map_of (the (d_site_ids d)) ord of Some b \<Rightarrow> VBlob b | None \<Rightarrow> VNull)"

definition change_values :: "string \<Rightarrow> meta_table \<Rightarrow> pkblob \<Rightarrow> string \<Rightarrow> meta_row \<Rightarrow> sqlval \<Rightarrow> database \<Rightarrow> sqlval list" where
  "change_values name t pk col m v d =
     [VText (text_bytes name), VBlob pk, VText (text_bytes col), v, VInteger (word_of_int (m_col_version m)),
      VInteger (word_of_int (m_db_version m)), site_of_ordinal (m_site_id m) d,
      VInteger (word_of_int (case map_of t (pk, CLOUDSYNC_TOMBSTONE_VALUE) of Some r \<Rightarrow> m_col_version r | None \<Rightarrow> 1)),
      VInteger (word_of_int (m_seq m))]"

fun table_changes :: "string \<Rightarrow> meta_table \<Rightarrow> meta_table \<Rightarrow> state \<Rightarrow> sqlval list list option \<times> state" where
  "table_changes name t [] s = (Some [], s)"
| "table_changes name t (((pk, col), m) # rows) s =
     (case cloudsync_col_value name col pk s of
        (ResValue v, s) \<Rightarrow>
          (case table_changes name t rows s of
             (None, s) \<Rightarrow> (None, s)
           | (Some rest, s) \<Rightarrow>
               (Some (if v = VText (text_bytes CLOUDSYNC_RLS_RESTRICTED_VALUE) then rest
                      else change_values name t pk col m v (db s) # rest), s))
      | (_, s) \<Rightarrow> (None, s))"

fun all_changes :: "(string \<times> meta_table) list \<Rightarrow> state \<Rightarrow> sqlval list list option \<times> state" where
  "all_changes [] s = (Some [], s)"
| "all_changes ((name, t) # ts) s =
     (case table_changes name t t s of
        (None, s) \<Rightarrow> (None, s)
      | (Some rows, s) \<Rightarrow>
          (case all_changes ts s of (None, s) \<Rightarrow> (None, s) | (Some rest, s) \<Rightarrow> (Some (rows @ rest), s)))"

definition changes_compile :: "database \<Rightarrow> bool" where
  "changes_compile d \<longleftrightarrow> d_site_ids d \<noteq> None \<and> list_all (\<lambda>(n, _). \<not> like_suffix ''cloudsync'' n) (d_users d)"

section \<open>The cursor\<close>

text \<open>
  \<open>vm\<close> of the cursor is the list of the rows that are left, the current one first. The engine's evaluation of
  \<open>SELECT ... FROM (rows) idxs\<close> is the argument \<open>select_from\<close>: \<open>None\<close> when the text does not compile.
\<close>

type_synonym engine = "string \<Rightarrow> sqlval list \<Rightarrow> sqlval list list \<Rightarrow> sqlval list list option"

record changes_cursor =
  cur_vm :: "sqlval list list option"

definition cloudsync_changesvtab_open :: "bool \<Rightarrow> int \<times> changes_cursor option" where
  "cloudsync_changesvtab_open alloc = (if alloc then (SQLITE_OK, Some \<lparr>cur_vm = None\<rparr>) else (SQLITE_NOMEM, None))"

text \<open>
  \<open>build_changes_sql\<close> is a query of the engine (\<open>dbutils_text_select\<close>) whose result is the text of the next one; the
  model keeps the clauses at its end. A failure gives NULL, which \<open>xFilter\<close> reports as \<open>SQLITE_NOMEM\<close>. Without a
  clock table \<open>GROUP_CONCAT\<close> is NULL and only the clauses are left: that text does not compile.
\<close>

definition build_changes_sql :: "string \<Rightarrow> state \<Rightarrow> byte list option \<times> state" where
  "build_changes_sql idxs s =
     dbutils_text_select True (\<lambda>d. Some [VText (text_bytes (idxs @ '';''))]) s"

definition cloudsync_changesvtab_filter ::
  "engine \<Rightarrow> changes_cursor \<Rightarrow> string \<Rightarrow> sqlval list \<Rightarrow> state \<Rightarrow> (int \<times> changes_cursor) \<times> state" where
  "cloudsync_changesvtab_filter select_from c idxs args s =
     (case build_changes_sql idxs s of (None, s) \<Rightarrow> ((SQLITE_NOMEM, c), s)
      | (Some _, s) \<Rightarrow>
        let c = c\<lparr>cur_vm := None\<rparr> in
        case prepare (d_meta (db s) \<noteq> [] \<and> changes_compile (db s) \<and> select_from idxs args [] \<noteq> None) s of (rc, s) \<Rightarrow>
        if rc \<noteq> SQLITE_OK then ((rc, c), s)
        else case binds (length args) s of (rc, s) \<Rightarrow>
        if rc \<noteq> SQLITE_OK then ((rc, c), s)
        else case next_fault s of (rc, s) \<Rightarrow>
        if rc \<noteq> SQLITE_OK then ((rc, c), s)
        else case all_changes (d_meta (db s)) s of (None, s) \<Rightarrow> ((SQLITE_ERROR, c), s)
        | (Some rows, s) \<Rightarrow>
          (case the (select_from idxs args rows) of [] \<Rightarrow> ((SQLITE_OK, c), s)
           | r # rs \<Rightarrow> ((SQLITE_OK, c\<lparr>cur_vm := Some (r # rs)\<rparr>), s)))"

text \<open>\<open>sqlite3_step(NULL)\<close> is a misuse. A refused step leaves the cursor on its row.\<close>

definition cloudsync_changesvtab_next :: "changes_cursor \<Rightarrow> state \<Rightarrow> (int \<times> changes_cursor) \<times> state" where
  "cloudsync_changesvtab_next c s =
     (case cur_vm c of None \<Rightarrow> ((SQLITE_MISUSE, c), s)
      | Some rows \<Rightarrow>
        (case next_fault s of (rc, s) \<Rightarrow>
         if rc \<noteq> SQLITE_OK then ((rc, c), s)
         else ((SQLITE_OK, c\<lparr>cur_vm := (if tl rows = [] then None else Some (tl rows))\<rparr>), s)))"

definition cloudsync_changesvtab_eof :: "changes_cursor \<Rightarrow> bool" where
  "cloudsync_changesvtab_eof c \<longleftrightarrow> cur_vm c = None"

definition cloudsync_changesvtab_column :: "changes_cursor \<Rightarrow> nat \<Rightarrow> sqlval" where
  "cloudsync_changesvtab_column c col =
     (case cur_vm c of Some (row # _) \<Rightarrow> if col < length row then row ! col else VNull | _ \<Rightarrow> VNull)"

text \<open>\<open>sqlite3_column_int64\<close> on a column of integers.\<close>

definition column_int64 :: "sqlval \<Rightarrow> i64" where
  "column_int64 v = (case v of VInteger n \<Rightarrow> n | _ \<Rightarrow> 0)"

definition cloudsync_changesvtab_rowid :: "changes_cursor \<Rightarrow> i64" where
  "cloudsync_changesvtab_rowid c =
     rowid_encode (column_int64 (cloudsync_changesvtab_column c 5)) (column_int64 (cloudsync_changesvtab_column c 8))"

text \<open>Everything a query sees: \<open>xFilter\<close>, then \<open>xColumn\<close> on all columns and \<open>xNext\<close> until \<open>xEof\<close>.\<close>

fun fetch :: "nat \<Rightarrow> changes_cursor \<Rightarrow> state \<Rightarrow> (int \<times> sqlval list list) \<times> state" where
  "fetch 0 c s = ((SQLITE_OK, []), s)"
| "fetch (Suc n) c s =
     (if cloudsync_changesvtab_eof c then ((SQLITE_OK, []), s)
      else let row = map (cloudsync_changesvtab_column c) [0..<9] in
      case cloudsync_changesvtab_next c s of ((rc, c), s) \<Rightarrow>
      if rc \<noteq> SQLITE_OK then ((rc, [row]), s)
      else case fetch n c s of ((rc, rows), s) \<Rightarrow> ((rc, row # rows), s))"

section \<open>xUpdate\<close>

text \<open>
  What \<open>sqlite3_value_text\<close> and \<open>sqlite3_value_int64\<close> give for a value of another type is up to the engine:
  \<open>to_text\<close>, \<open>to_int\<close> and \<open>to_blob\<close>. Names are ASCII strings.
\<close>

record conversions =
  to_text :: "sqlval \<Rightarrow> byte list"
  to_int :: "sqlval \<Rightarrow> i64"
  to_blob :: "sqlval \<Rightarrow> byte list"

definition value_text :: "conversions \<Rightarrow> sqlval \<Rightarrow> string" where
  "value_text cv v = map (\<lambda>b. char_of (unat b)) (cstr (case v of VText bs \<Rightarrow> bs | _ \<Rightarrow> to_text cv v))"

definition value_int64 :: "conversions \<Rightarrow> sqlval \<Rightarrow> int" where
  "value_int64 cv v = sint (case v of VInteger n \<Rightarrow> n | _ \<Rightarrow> to_int cv v)"

definition value_blob :: "conversions \<Rightarrow> sqlval \<Rightarrow> byte list" where
  "value_blob cv v = (case v of VBlob bs \<Rightarrow> bs | VText bs \<Rightarrow> bs | _ \<Rightarrow> to_blob cv v)"

text \<open>The arguments of \<open>cloudsync_merge_insert\<close>; a NULL column name is the sentinel.\<close>

definition change_of :: "conversions \<Rightarrow> sqlval list \<Rightarrow> change" where
  "change_of cv argv =
     \<lparr>ch_tbl = value_text cv (argv ! 0), ch_pk = value_blob cv (argv ! 1),
      ch_name = (if argv ! 2 = VNull then None else Some (value_text cv (argv ! 2))), ch_value = argv ! 3,
      ch_col_version = value_int64 cv (argv ! 4), ch_db_version = value_int64 cv (argv ! 5),
      ch_site_id = value_blob cv (argv ! 6), ch_cl = value_int64 cv (argv ! 7), ch_seq = value_int64 cv (argv ! 8)\<rparr>"

definition cloudsync_changesvtab_update :: "conversions \<Rightarrow> sqlval list \<Rightarrow> i64 \<Rightarrow> state \<Rightarrow> (int \<times> i64) \<times> state" where
  "cloudsync_changesvtab_update cv argv r s =
     (if \<not> (length argv > 1 \<and> argv ! 0 = VNull) then ((SQLITE_MISUSE, r), s)
      else cloudsync_merge_insert (change_of cv (drop 2 argv)) r s)"

section \<open>The text of the clauses\<close>

lemma length_opname:
  "opname_from_value op = Some n \<Longrightarrow> length n \<le> (if op = 70 \<or> op = 71 then 11 else 6)"
  by (auto simp: opname_from_value_def split: if_splits)

lemma length_changes_column: "i < 9 \<Longrightarrow> length (cloudsync_changes_columns ! i) \<le> 11"
  by (auto simp: cloudsync_changes_columns_def less_Suc_eq numeral_eq_Suc nth_Cons')

lemma length_colname: "colname_from_index i = Some n \<Longrightarrow> length n \<le> 11"
  by (auto simp: colname_from_index_def length_changes_column split: if_splits)

lemma length_index_constraints:
  "\<forall>c \<in> set cs. ic_column c < 9 \<Longrightarrow>
   length (fst (index_constraints cs i arg n s usage)) \<le> length s + 28 * length cs"
proof (induction cs arbitrary: i arg n s usage)
  case (Cons c cs)
  show ?case
  proof (cases "ic_usable c \<and> opname_from_value (ic_op c) \<noteq> None")
    case False
    then show ?thesis
      using Cons.IH [of "i + 1" arg n s "usage @ [None]"] Cons.prems by (auto split: option.split)
  next
    case True
    then obtain opn where op: "opname_from_value (ic_op c) = Some opn" by auto
    let ?col = "if ic_column c > 0 then the (colname_from_index (ic_column c)) else ''rowid''"
    have "length ?col \<le> 11"
      using Cons.prems by (auto simp: colname_from_index_def intro: length_changes_column)
    then show ?thesis
      using True op length_opname [OF op] Cons.prems
        Cons.IH [of "i + 1" _ _ "s @ (if i > 0 then '' AND '' else []) @ ?col @ '' '' @ opn @ (if ic_op c = 71 \<or> ic_op c = 70 then [] else '' ?'')"]
      by (fastforce simp: Let_def intro: order_trans)
  qed
qed simp

lemma length_index_orders:
  "index_orders os i cons s = Some (t, cons') \<Longrightarrow> length t \<le> length s + 19 * length os"
proof (induction os arbitrary: i cons s)
  case (Cons x os)
  obtain col where col: "colname_from_index (io_column x) = Some col"
    using Cons.prems by (auto split: option.splits)
  then show ?case using Cons.prems Cons.IH length_colname [OF col] by (fastforce split: if_splits)
qed simp

text \<open>C33. The text of the clauses fits the buffer for queries with at most 62 \<open>ORDER BY\<close> terms, however many
  constraints there are.\<close>

theorem best_index_fits:
  assumes "cloudsync_changesvtab_best_index alloc cs os = Some (Inr plan)"
    and "\<forall>c \<in> set cs. ic_column c < 9" "length os \<le> 62"
  shows "\<not> ix_outside plan \<and> length (ix_str plan) < index_size (length cs) (length os)"
proof -
  let ?w = "if cs \<noteq> [] then ''WHERE '' else []"
  let ?o = "if os \<noteq> [] then '' ORDER BY '' else '' ORDER BY db_version, seq ASC''"
  obtain s n usage where c: "index_constraints cs 0 1 0 ?w [] = (s, n, usage)" by (cases "index_constraints cs 0 1 0 ?w []")
  obtain t consumed where o: "index_orders os 0 True (s @ ?o) = Some (t, consumed)"
    using assms(1) c by (auto simp: cloudsync_changesvtab_best_index_def Let_def split: if_splits option.splits)
  have len: "length t < index_size (length cs) (length os)"
    using length_index_constraints [OF assms(2), of 0 1 0 ?w "[]"] length_index_orders [OF o] c assms(3)
    by (auto simp: index_size_def split: if_splits)
  have "ix_str plan = t" "ix_outside plan = (index_size (length cs) (length os) \<le> length t)"
    using assms(1) c o by (auto simp: cloudsync_changesvtab_best_index_def Let_def split: if_splits)
  with len show ?thesis by simp
qed

theorem best_index_fits_witness:
  "\<not> ix_outside \<lparr>ix_str = ''WHERE db_version > ? ORDER BY seq  ASC'', ix_num = 2, ix_usage = [Some 1],
     ix_ordered = True, ix_cost = TenRows, ix_outside = False\<rparr> \<and>
   length (ix_str \<lparr>ix_str = ''WHERE db_version > ? ORDER BY seq  ASC'', ix_num = 2, ix_usage = [Some 1],
     ix_ordered = True, ix_cost = TenRows, ix_outside = False\<rparr>) <
   index_size (length [\<lparr>ic_column = 5, ic_op = 4, ic_usable = True\<rparr>]) (length [\<lparr>io_column = 8, io_desc = False\<rparr>])"
proof -
  have "cloudsync_changesvtab_best_index True [\<lparr>ic_column = 5, ic_op = 4, ic_usable = True\<rparr>]
      [\<lparr>io_column = 8, io_desc = False\<rparr>] =
    Some (Inr \<lparr>ix_str = ''WHERE db_version > ? ORDER BY seq  ASC'', ix_num = 2, ix_usage = [Some 1],
      ix_ordered = True, ix_cost = TenRows, ix_outside = False\<rparr>)"
    by code_simp
  then show ?thesis by (rule best_index_fits) simp_all
qed

text \<open>Behind that bound the buffer is too small: from 64 terms on the longest column name in descending
  order on, the text is written outside it.\<close>

lemma index_orders_replicate:
  "\<exists>t. index_orders (replicate n \<lparr>io_column = 4, io_desc = True\<rparr>) i True s = Some (t, True) \<and>
     length t = length s + 19 * n - (if i = 0 \<and> n > 0 then 2 else 0)"
proof (induction n arbitrary: i s)
  case (Suc n)
  let ?s = "s @ (if i > 0 then '', '' else []) @ ''col_version'' @ '' '' @ '' DESC''"
  have "colname_from_index 4 = Some ''col_version''" "colname_is_legal ''col_version''" by code_simp+
  then have "index_orders (replicate (Suc n) \<lparr>io_column = 4, io_desc = True\<rparr>) i True s =
      index_orders (replicate n \<lparr>io_column = 4, io_desc = True\<rparr>) (i + 1) True ?s"
    by simp
  then show ?case using Suc.IH [of "i + 1" ?s] by auto
qed simp

theorem best_index_overflows:
  assumes "64 \<le> n"
  shows "\<exists>plan. cloudsync_changesvtab_best_index True [] (replicate n \<lparr>io_column = 4, io_desc = True\<rparr>) =
    Some (Inr plan) \<and> ix_outside plan"
  using assms index_orders_replicate [of n 0 "'' ORDER BY ''"]
  by (auto simp: cloudsync_changesvtab_best_index_def index_size_def)

theorem best_index_overflows_witness:
  "\<exists>plan. cloudsync_changesvtab_best_index True [] (replicate 100 \<lparr>io_column = 4, io_desc = True\<rparr>) =
    Some (Inr plan) \<and> ix_outside plan"
  by (rule best_index_overflows) simp

text \<open>Queries that SQLite refuses because of the text the code builds: a constraint on the first column, \<open>tbl\<close>, is
  written on \<open>rowid\<close>; when the first constraint is not usable (or is a \<open>LIMIT\<close>, operator 73) the text starts with
  \<open>WHERE AND\<close>, and with no usable constraint nothing follows \<open>WHERE\<close>.
\<close>

definition index_text :: "index_constraint list \<Rightarrow> string option" where
  "index_text cs =
     (case cloudsync_changesvtab_best_index True cs [] of Some (Inr plan) \<Rightarrow> Some (ix_str plan) | _ \<Rightarrow> None)"

theorem best_index_wrong_text:
  "index_text [\<lparr>ic_column = 0, ic_op = 2, ic_usable = True\<rparr>] =
     Some ''WHERE rowid = ? ORDER BY db_version, seq ASC'' \<and>
   index_text [\<lparr>ic_column = 0, ic_op = 2, ic_usable = False\<rparr>, \<lparr>ic_column = 5, ic_op = 4, ic_usable = True\<rparr>] =
     Some ''WHERE  AND db_version > ? ORDER BY db_version, seq ASC'' \<and>
   index_text [\<lparr>ic_column = 0, ic_op = 73, ic_usable = True\<rparr>] =
     Some ''WHERE  ORDER BY db_version, seq ASC''"
  by (simp add: index_text_def cloudsync_changesvtab_best_index_def Let_def opname_from_value_def
      colname_from_index_def cloudsync_changes_columns_def)

section \<open>Reading the changes\<close>

context write_frame
begin

lemma col_value_keeps [keeps]: "P s \<Longrightarrow> P (snd (cloudsync_col_value name col pk s))"
  unfolding cloudsync_col_value_def by (intro keeps keep_write | assumption | rule inner_pair_keeps)+ (simp add: keep_write)

end

text \<open>Without failures the value of a column is read and the state does not change.\<close>

definition shown_value :: "nat \<Rightarrow> sqlval list \<Rightarrow> string \<Rightarrow> state \<Rightarrow> sqlval option" where
  "shown_value ti vs col s =
     (if col = CLOUDSYNC_TOMBSTONE_VALUE then Some VNull
      else case row_of (t_name (tbl s ti)) vs (db s) of None \<Rightarrow> None
      | Some r \<Rightarrow>
        (case table_column_lookup (tbl s ti) col of None \<Rightarrow> None
         | Some index \<Rightarrow>
           let v = get_col (t_cols (tbl s ti) ! index) r
           in if v = VText (text_bytes CLOUDSYNC_RLS_RESTRICTED_VALUE) then None else Some v))"

definition readable :: "string \<Rightarrow> sqlval list \<Rightarrow> string \<Rightarrow> state \<Rightarrow> bool" where
  "readable name vs col s \<longleftrightarrow>
     (case table_lookup name s of None \<Rightarrow> False
      | Some ti \<Rightarrow> wf_key (t_npks (tbl s ti)) vs \<and> user_table_of (t_name (tbl s ti)) (db s) \<noteq> None \<and>
          (col = CLOUDSYNC_TOMBSTONE_VALUE \<or> table_column_lookup (tbl s ti) col \<noteq> None))"

lemma key_values_bound:
  assumes "key_values n vm = vs" "VNull \<notin> set vs"
  shows "\<not> list_ex (\<lambda>i. map_of vm (i + 1) = None) [0..<n]"
proof
  assume "list_ex (\<lambda>i. map_of vm (i + 1) = None) [0..<n]"
  then obtain i where "i < n" "map_of vm (i + 1) = None" by (auto simp: list_ex_iff)
  then have "VNull \<in> set vs" using assms(1) by (force simp: key_values_def bound_def)
  with assms(2) show False by simp
qed

lemma cloudsync_col_value_ok:
  assumes "faults s = []" "table_lookup name s = Some ti" "readable name vs col s"
  shows "cloudsync_col_value name col (pk_blob vs) s =
    (ResValue (case shown_value ti vs col s of Some v \<Rightarrow> v | None \<Rightarrow> VText (text_bytes CLOUDSYNC_RLS_RESTRICTED_VALUE)), s)"
proof (cases "col = CLOUDSYNC_TOMBSTONE_VALUE")
  case False
  let ?t = "tbl s ti"
  obtain index where ix: "table_column_lookup ?t col = Some index" and wf: "wf_key (t_npks ?t) vs"
    and u: "user_table_of (t_name ?t) (db s) \<noteq> None"
    using assms(2,3) False by (auto simp: readable_def)
  obtain vm where vm: "bind_key (t_npks ?t) (pk_blob vs) s = ((0, vm), s)" "key_values (t_npks ?t) vm = vs"
    using bind_key_ok [OF assms(1) wf order_refl] .
  have "\<not> list_ex (\<lambda>i. map_of vm (i + 1) = None) [0..<t_npks ?t]"
    using key_values_bound [OF vm(2)] wf by (simp add: wf_key_def)
  then show ?thesis
    using False assms(1,2) ix vm u
    by (auto simp: cloudsync_col_value_def shown_value_def real_col_value_def Let_def split: option.split)
qed (use assms in \<open>simp add: cloudsync_col_value_def shown_value_def\<close>)

text \<open>
  What the query promises: of a history, the entries of one clock table with their keys decoded, the visible ones
  in order, each with its current value.
\<close>

type_synonym history = "((sqlval list \<times> string) \<times> meta_row) list"

definition clock_of :: "history \<Rightarrow> meta_table" where
  "clock_of h = map (\<lambda>((vs, col), m). ((pk_blob vs, col), m)) h"

definition shown_changes :: "string \<Rightarrow> nat \<Rightarrow> meta_table \<Rightarrow> history \<Rightarrow> state \<Rightarrow> sqlval list list" where
  "shown_changes name ti t h s =
     List.map_filter (\<lambda>((vs, col), m).
       map_option (\<lambda>v. change_values name t (pk_blob vs) col m v (db s)) (shown_value ti vs col s)) h"

lemma shown_value_not_marker:
  "shown_value ti vs col s \<noteq> Some (VText (text_bytes CLOUDSYNC_RLS_RESTRICTED_VALUE))"
  by (auto simp: shown_value_def Let_def split: option.splits)

lemma table_changes_shown:
  assumes "faults s = []" "table_lookup name s = Some ti" "\<forall>((vs, col), m) \<in> set h. readable name vs col s"
  shows "table_changes name t (clock_of h) s = (Some (shown_changes name ti t h s), s)"
  using assms(3)
proof (induction h)
  case (Cons e h)
  obtain vs col m where e: "e = ((vs, col), m)" by (metis prod.exhaust)
  have v: "cloudsync_col_value name col (pk_blob vs) s =
      (ResValue (case shown_value ti vs col s of Some v \<Rightarrow> v | None \<Rightarrow> VText (text_bytes CLOUDSYNC_RLS_RESTRICTED_VALUE)), s)"
    using cloudsync_col_value_ok [OF assms(1,2)] Cons.prems e by simp
  then show ?case
    using Cons e shown_value_not_marker [of ti vs col s]
    by (auto simp: clock_of_def shown_changes_def List.map_filter_simps split: option.split)
qed (simp add: clock_of_def shown_changes_def List.map_filter_simps)

definition shown_history :: "(string \<times> history) list \<Rightarrow> state \<Rightarrow> sqlval list list" where
  "shown_history hs s =
     concat (map (\<lambda>(name, h). shown_changes name (the (table_lookup name s)) (clock_of h) h s) hs)"

definition readable_history :: "(string \<times> history) list \<Rightarrow> state \<Rightarrow> bool" where
  "readable_history hs s \<longleftrightarrow>
     faults s = [] \<and> d_meta (db s) = map (\<lambda>(name, h). (name, clock_of h)) hs \<and>
     (\<forall>(name, h) \<in> set hs. table_lookup name s \<noteq> None \<and> (\<forall>((vs, col), m) \<in> set h. readable name vs col s))"

lemma all_changes_shown:
  assumes "faults s = []"
    and "\<forall>(name, h) \<in> set hs. table_lookup name s \<noteq> None \<and> (\<forall>((vs, col), m) \<in> set h. readable name vs col s)"
  shows "all_changes (map (\<lambda>(name, h). (name, clock_of h)) hs) s = (Some (shown_history hs s), s)"
  using assms(2)
proof (induction hs)
  case (Cons x hs)
  obtain name h ti where x: "x = (name, h)" "table_lookup name s = Some ti"
    using Cons.prems by (cases x) auto
  then have "table_changes name (clock_of h) (clock_of h) s = (Some (shown_changes name ti (clock_of h) h s), s)"
    using Cons.prems by (intro table_changes_shown assms(1)) auto
  then show ?case using Cons x by (simp add: shown_history_def)
qed (simp add: shown_history_def)

lemma column_row:
  assumes "cur_vm c = Some (row # rows)" "length row = 9"
  shows "map (cloudsync_changesvtab_column c) [0..<9] = row"
proof (rule nth_equalityI)
  fix i
  assume "i < length (map (cloudsync_changesvtab_column c) [0..<9])"
  then show "map (cloudsync_changesvtab_column c) [0..<9] ! i = row ! i"
    using assms by (simp add: cloudsync_changesvtab_column_def del: upt_Suc)
qed (simp add: assms)

lemma fetch_all:
  "faults s = [] \<Longrightarrow> \<forall>row \<in> set rows. length row = 9 \<Longrightarrow> length rows \<le> n \<Longrightarrow>
   fetch n \<lparr>cur_vm = (if rows = [] then None else Some rows)\<rparr> s = ((0, rows), s)"
proof (induction rows arbitrary: n)
  case Nil
  then show ?case by (cases n) (simp_all add: cloudsync_changesvtab_eof_def)
next
  case (Cons row rows)
  then obtain k where n: "n = Suc k" by (cases n) auto
  let ?c = "\<lparr>cur_vm = Some (row # rows)\<rparr>"
  have row: "map (cloudsync_changesvtab_column ?c) [0..<9] = row"
    using column_row [of ?c row rows] Cons.prems by simp
  have "fetch k \<lparr>cur_vm = (if rows = [] then None else Some rows)\<rparr> s = ((0, rows), s)"
    using Cons by (simp add: n)
  then show ?case using Cons.prems row
    by (cases "rows = []")
      (simp_all add: n cloudsync_changesvtab_eof_def cloudsync_changesvtab_next_def Let_def del: upt_Suc)
qed

lemma build_changes_sql_none: "faults s = [] \<Longrightarrow> build_changes_sql idxs s = (Some (text_bytes (idxs @ '';'')), s)"
  by (simp add: build_changes_sql_def dbutils_text_select_def select_def dbutils_exec_def first_result_def)

lemma length_shown_history: "\<forall>row \<in> set (shown_history hs s). length row = 9"
  by (auto simp: shown_history_def shown_changes_def List.map_filter_def change_values_def split: if_splits)

lemma filter_and_fetch:
  fixes select_from hs s and idxs :: string and args :: "sqlval list"
  defines "rows \<equiv> the (select_from idxs args (shown_history hs s))"
  assumes "readable_history hs s" "hs \<noteq> []" "changes_compile (db s)"
    and "\<forall>rows. \<exists>rs. select_from idxs args rows = Some rs \<and> set rs \<subseteq> set rows"
  shows "cloudsync_changesvtab_filter select_from c0 idxs args s =
      ((0, \<lparr>cur_vm = (if rows = [] then None else Some rows)\<rparr>), s)"
    and "length rows \<le> n \<Longrightarrow> fetch n \<lparr>cur_vm = (if rows = [] then None else Some rows)\<rparr> s = ((0, rows), s)"
proof -
  note h = assms(2) [unfolded readable_history_def]
  have s: "faults s = []" and meta: "d_meta (db s) = map (\<lambda>(name, h). (name, clock_of h)) hs" using h by blast+
  have all: "all_changes (d_meta (db s)) s = (Some (shown_history hs s), s)"
    unfolding meta using h by (intro all_changes_shown) blast+
  have "set rows \<subseteq> set (shown_history hs s)" using assms(5) unfolding rows_def by (metis option.sel)
  then have len: "\<forall>row \<in> set rows. length row = 9" using length_shown_history [of hs s] by blast
  have compiles: "select_from idxs args x \<noteq> None" for x using assms(5) by (metis option.distinct(1))
  then have answer: "select_from idxs args (shown_history hs s) = Some rows" by (simp add: rows_def)
  show "cloudsync_changesvtab_filter select_from c0 idxs args s =
      ((0, \<lparr>cur_vm = (if rows = [] then None else Some rows)\<rparr>), s)"
    using s all assms(3,4) meta compiles
    by (cases c0) (auto simp: cloudsync_changesvtab_filter_def build_changes_sql_none Let_def answer split: list.split)
  show "length rows \<le> n \<Longrightarrow> fetch n \<lparr>cur_vm = (if rows = [] then None else Some rows)\<rparr> s = ((0, rows), s)"
    using fetch_all [OF s len] by blast
qed

text \<open>C13. A query of \<open>cloudsync_changes\<close> returns what the clauses (\<open>sel\<close>) select of the history: for every augmented
  table the visible clock entries, each with the current value of its column, its site and the causal length of its
  key. The cursor gives each row once, and reading changes nothing.\<close>

theorem changes_list_history:
  assumes "readable_history hs s" "hs \<noteq> []" "changes_compile (db s)"
    and "\<forall>rows. select_from idxs args rows = Some (sel rows) \<and> set (sel rows) \<subseteq> set rows"
    and "length (sel (shown_history hs s)) \<le> n"
  shows "\<exists>c. cloudsync_changesvtab_filter select_from c0 idxs args s = ((0, c), s) \<and>
    fetch n c s = ((0, sel (shown_history hs s)), s)"
proof -
  have "\<forall>rows. \<exists>rs. select_from idxs args rows = Some rs \<and> set rs \<subseteq> set rows" using assms(4) by blast
  note rows = filter_and_fetch [of hs s select_from idxs args, OF assms(1-3) this]
  show ?thesis using rows(1) [of c0] rows(2) [of n] assms(4,5) by auto
qed

definition changes_demo_history :: history where
  "changes_demo_history =
     [(([VText [97]], ''c''), \<lparr>m_col_version = 2, m_db_version = 7, m_site_id = 0, m_seq = 0\<rparr>),
      (([VText [98]], ''c''), \<lparr>m_col_version = 1, m_db_version = 8, m_site_id = 0, m_seq = 1\<rparr>)]"

definition changes_demo :: state where
  "changes_demo = merge_demo\<lparr>db := demo_db\<lparr>d_meta := [(''t'', clock_of changes_demo_history)],
     d_users := [(''t'', merge_users\<lparr>u_rows := [([VText [97]], [(''c'', VInteger 5)]), ([VText [98]], [])]\<rparr>)]\<rparr>\<rparr>"

lemma changes_demo_facts:
  "tbl changes_demo 0 = demo_table" "table_lookup ''t'' changes_demo = Some 0" "faults changes_demo = []"
  "changes_compile (db changes_demo)" "user_table_of ''t'' (db changes_demo) \<noteq> None"
  "table_column_lookup demo_table ''c'' = Some 0"
  by code_simp+

lemma demo_columns: "t_cols demo_table = [''c'']" "t_npks demo_table = 1" "t_name demo_table = ''t''" "lowercase ''c'' = ''c''"
  by (simp_all add: demo_table_def) code_simp

lemma changes_demo_readable: "readable_history [(''t'', changes_demo_history)] changes_demo"
proof -
  have meta: "d_meta (db changes_demo) = [(''t'', clock_of changes_demo_history)]" by (simp add: changes_demo_def)
  have user: "user_table_of (t_name demo_table) (db changes_demo) \<noteq> None"
    using changes_demo_facts(5) by (simp add: demo_table_def)
  have "wf_key (t_npks demo_table) [VText [b]]" for b by (simp add: wf_key_def demo_table_def)
  then have "readable ''t'' [VText [b]] ''c'' changes_demo" for b
    using user by (simp add: readable_def changes_demo_facts)
  then show ?thesis
    using user by (simp add: readable_history_def changes_demo_facts meta changes_demo_history_def)
qed

theorem changes_list_history_witness:
  "\<exists>c. cloudsync_changesvtab_filter (\<lambda>_ _ rows. Some (filter (\<lambda>row. row ! 5 \<noteq> VInteger 8) rows)) \<lparr>cur_vm = None\<rparr>
      ''WHERE db_version != ?'' [VInteger 8] changes_demo = ((0, c), changes_demo) \<and>
    fetch 1 c changes_demo =
      ((0, [[VText [116], VBlob (pk_blob [VText [97]]), VText [99], VInteger 5, VInteger 2, VInteger 7, VBlob [1],
             VInteger 1, VInteger 0]]), changes_demo)"
proof -
  let ?sel = "filter (\<lambda>row. row ! 5 \<noteq> VInteger 8)"
  have rows: "?sel (shown_history [(''t'', changes_demo_history)] changes_demo) =
      [[VText [116], VBlob (pk_blob [VText [97]]), VText [99], VInteger 5, VInteger 2, VInteger 7, VBlob [1],
        VInteger 1, VInteger 0]]"
    by code_simp
  show ?thesis
    using changes_list_history [OF changes_demo_readable _ changes_demo_facts(4), of _ _ _ ?sel 1 "\<lparr>cur_vm = None\<rparr>"]
    by (simp add: rows)
qed

text \<open>A row whose column holds the text that marks invisible rows is never sent: the change stays in the clock
  table and no query returns it.\<close>

theorem marker_value_hidden:
  assumes "map_of (u_rows u) vs = Some r" "user_table_of (t_name (tbl s ti)) (db s) = Some u"
    and "table_column_lookup (tbl s ti) col = Some index" "col \<noteq> CLOUDSYNC_TOMBSTONE_VALUE"
    and "get_col (t_cols (tbl s ti) ! index) r = VText (text_bytes CLOUDSYNC_RLS_RESTRICTED_VALUE)"
    and "faults s = []" "table_lookup name s = Some ti" "wf_key (t_npks (tbl s ti)) vs"
  shows "fst (table_changes name t [((pk_blob vs, col), m)] s) = Some []"
proof -
  have "shown_value ti vs col s = None" using assms(1-5) by (simp add: shown_value_def row_of_def)
  moreover have "readable name vs col s" using assms(2,3,7,8) by (simp add: readable_def)
  ultimately show ?thesis
    using table_changes_shown [OF assms(6,7), of "[((vs, col), m)]" t]
    by (simp add: clock_of_def shown_changes_def List.map_filter_simps)
qed

theorem marker_value_hidden_witness:
  "fst (table_changes ''t'' [] [((pk_blob [VText [97]], ''c''), \<lparr>m_col_version = 1, m_db_version = 8, m_site_id = 0, m_seq = 1\<rparr>)]
     (changes_demo\<lparr>db := demo_db\<lparr>d_users := [(''t'', merge_users\<lparr>u_rows :=
        [([VText [97]], [(''c'', VText (text_bytes ''__[RLS]__''))])]\<rparr>)]\<rparr>\<rparr>)) = Some []"
proof -
  let ?u = "merge_users\<lparr>u_rows := [([VText [97]], [(''c'', VText (text_bytes ''__[RLS]__''))])]\<rparr>"
  let ?s = "changes_demo\<lparr>db := demo_db\<lparr>d_users := [(''t'', ?u)]\<rparr>\<rparr>"
  have f: "tbl ?s 0 = demo_table" "table_lookup ''t'' ?s = Some 0" "faults ?s = []"
    using changes_demo_facts by (simp_all add: tbl_def table_lookup_def)
  have u: "user_table_of (t_name (tbl ?s 0)) (db ?s) = Some ?u"
    unfolding f by (simp add: demo_table_def user_table_of_def)
  have "wf_key (t_npks (tbl ?s 0)) [VText [97]]" unfolding f by (simp add: wf_key_def demo_table_def)
  then show ?thesis
    by (intro marker_value_hidden [where u = ?u and r = "[(''c'', VText (text_bytes ''__[RLS]__''))]" and index = 0, OF _ u])
      (simp_all add: f changes_demo_facts demo_columns get_col_def CLOUDSYNC_TOMBSTONE_VALUE_def CLOUDSYNC_RLS_RESTRICTED_VALUE_def)
qed

end
