(* ===== verification/Payload.thy ===== *)
theory Payload
  imports Changes
begin

text \<open>
  Payloads (src/src/cloudsync.c, "Payload Encode / Decode"): the aggregate function \<open>cloudsync_payload_encode\<close>
  writes rows of \<open>cloudsync_changes\<close> one behind the other, compresses them and puts a header in front;
  \<open>cloudsync_payload_apply\<close> reads them back and inserts each into \<open>cloudsync_changes\<close>.

  LZ4 is an argument: \<open>compress src bound\<close> gives the bytes written (none when it fails), \<open>decompress z n\<close> the bytes
  it expands to (\<open>None\<close> for an error). \<open>alloc\<close> says whether an allocation of that many bytes succeeds.
\<close>

section \<open>The buffer\<close>

text \<open>
  \<open>p_rows\<close> are the bytes behind the place of the header. \<open>p_outside\<close> is set when a row was written behind the end of
  the allocated buffer.
\<close>

record network_payload =
  p_rows :: "byte list"
  p_balloc :: nat
  p_bused :: nat
  p_nrows :: nat
  p_ncols :: "16 word"
  p_outside :: bool

abbreviation (input) CLOUDSYNC_PAYLOAD_MINBUF_SIZE :: nat where "CLOUDSYNC_PAYLOAD_MINBUF_SIZE \<equiv> 524288"
abbreviation (input) HEADER_SIZE :: nat where "HEADER_SIZE \<equiv> 32"

definition empty_payload :: network_payload where
  "empty_payload = \<lparr>p_rows = [], p_balloc = 0, p_bused = 0, p_nrows = 0, p_ncols = 0, p_outside = False\<rparr>"

definition cloudsync_buffer_free :: "network_payload \<Rightarrow> bool \<times> network_payload" where
  "cloudsync_buffer_free payload = (False, empty_payload\<lparr>p_outside := p_outside payload\<rparr>)"

definition cloudsync_buffer_check :: "(nat \<Rightarrow> bool) \<Rightarrow> network_payload \<Rightarrow> nat \<Rightarrow> bool \<times> network_payload" where
  "cloudsync_buffer_check alloc payload needed =
     (if p_bused payload + needed > p_balloc payload then
        let needed = (if needed < CLOUDSYNC_PAYLOAD_MINBUF_SIZE then CLOUDSYNC_PAYLOAD_MINBUF_SIZE else needed);
            balloc = p_balloc payload + needed
        in if \<not> alloc balloc then cloudsync_buffer_free payload
           else (True, payload\<lparr>p_balloc := balloc,
                  p_bused := (if p_nrows payload = 0 then HEADER_SIZE else p_bused payload)\<rparr>)
      else (True, payload))"

definition cloudsync_payload_encode_step :: "(nat \<Rightarrow> bool) \<Rightarrow> sqlval list \<Rightarrow> network_payload \<Rightarrow> network_payload" where
  "cloudsync_payload_encode_step alloc argv payload =
     (let payload = (if p_nrows payload = 0 then payload\<lparr>p_ncols := word_of_nat (length argv)\<rparr> else payload);
          breq = pk_encode_size argv 0
      in case cloudsync_buffer_check alloc payload breq of
           (False, payload) \<Rightarrow> payload
         | (True, payload) \<Rightarrow>
             payload\<lparr>p_rows := p_rows payload @ pk_encode_values [] argv, p_bused := p_bused payload + breq,
               p_nrows := p_nrows payload + 1,
               p_outside := (p_outside payload \<or> p_balloc payload < p_bused payload + breq)\<rparr>)"

section \<open>The header\<close>

record network_header =
  h_signature :: "32 word"
  h_version :: byte
  h_libversion :: "byte list"
  h_expanded_size :: "32 word"
  h_ncols :: "16 word"
  h_nrows :: "32 word"
  h_schema_hash :: i64

text \<open>\<open>'CLSY'\<close>\<close>

definition CLOUDSYNC_PAYLOAD_SIGNATURE :: "32 word" where
  "CLOUDSYNC_PAYLOAD_SIGNATURE = 0x434C5359"

text \<open>\<open>sscanf(CLOUDSYNC_VERSION, "%d.%d.%d", ...)\<close> on digits and dots.\<close>

fun version_numbers :: "string \<Rightarrow> nat \<Rightarrow> nat list" where
  "version_numbers [] acc = [acc]"
| "version_numbers (c # cs) acc =
     (if c = CHR ''.'' then acc # version_numbers cs 0 else version_numbers cs (10 * acc + (of_char c - 48)))"

definition cloudsync_network_header_init :: "32 word \<Rightarrow> 16 word \<Rightarrow> 32 word \<Rightarrow> i64 \<Rightarrow> network_header" where
  "cloudsync_network_header_init expanded_size ncols nrows hash =
     \<lparr>h_signature = CLOUDSYNC_PAYLOAD_SIGNATURE, h_version = 1,
      h_libversion = map word_of_nat (version_numbers CLOUDSYNC_VERSION 0),
      h_expanded_size = expanded_size, h_ncols = ncols, h_nrows = nrows, h_schema_hash = hash\<rparr>"

text \<open>The \<open>n\<close> bytes of a number in network order, and back (\<open>htonl\<close>, \<open>ntohl\<close> and the like on the memory of a struct).\<close>

fun net_bytes :: "nat \<Rightarrow> nat \<Rightarrow> byte list" where
  "net_bytes 0 v = []"
| "net_bytes (Suc n) v = word_of_nat (v div 256 ^ n) # net_bytes n v"

definition net_value :: "byte list \<Rightarrow> nat" where
  "net_value bs = foldl (\<lambda>v b. v * 256 + unat b) 0 bs"

definition header_bytes :: "network_header \<Rightarrow> byte list" where
  "header_bytes h =
     net_bytes 4 (unat (h_signature h)) @ h_version h # h_libversion h @ net_bytes 4 (unat (h_expanded_size h)) @
     net_bytes 2 (unat (h_ncols h)) @ net_bytes 4 (unat (h_nrows h)) @ net_bytes 8 (unat (h_schema_hash h)) @
     replicate 6 0"

definition field :: "byte list \<Rightarrow> nat \<Rightarrow> nat \<Rightarrow> byte list" where
  "field bs offset n = take n (drop offset bs)"

definition header_of :: "byte list \<Rightarrow> network_header" where
  "header_of bs =
     \<lparr>h_signature = word_of_nat (net_value (field bs 0 4)), h_version = bs ! 4, h_libversion = field bs 5 3,
      h_expanded_size = word_of_nat (net_value (field bs 8 4)), h_ncols = word_of_nat (net_value (field bs 12 2)),
      h_nrows = word_of_nat (net_value (field bs 14 4)), h_schema_hash = word_of_nat (net_value (field bs 18 8))\<rparr>"

section \<open>The end of the aggregate\<close>

record lz4 =
  LZ4_compressBound :: "int \<Rightarrow> int"
  LZ4_compress_default :: "byte list \<Rightarrow> int \<Rightarrow> byte list"
  LZ4_decompress_safe :: "byte list \<Rightarrow> nat \<Rightarrow> byte list option"

text \<open>\<open>None\<close> when the size of the rows does not fit the \<open>int\<close> that holds it.\<close>

definition cloudsync_payload_encode_final ::
  "(nat \<Rightarrow> bool) \<Rightarrow> lz4 \<Rightarrow> i64 \<Rightarrow> network_payload \<Rightarrow> (sql_result \<times> network_payload) option" where
  "cloudsync_payload_encode_final alloc z schema_hash payload =
     (if p_nrows payload = 0 then Some (ResValue VNull, payload)
      else if p_bused payload < HEADER_SIZE \<or> 2 ^ 31 + HEADER_SIZE \<le> p_bused payload then None
      else
       let real_buffer_size = int (p_bused payload - HEADER_SIZE);
           zbound = LZ4_compressBound z real_buffer_size
       in if \<not> alloc (nat (zbound + int HEADER_SIZE)) then Some (ResError SQLITE_NOMEM, snd (cloudsync_buffer_free payload))
       else
        let buffer = LZ4_compress_default z (p_rows payload) zbound;
            zused = int (length buffer);
            use_uncompressed_buffer = (zused = 0 \<or> zused > real_buffer_size);
            header = cloudsync_network_header_init (if use_uncompressed_buffer then 0 else word_of_int real_buffer_size)
              (p_ncols payload) (word_of_nat (p_nrows payload)) schema_hash;
            buffer = (if use_uncompressed_buffer then p_rows payload else buffer)
        in Some (ResValue (VBlob (header_bytes header @ buffer)), snd (cloudsync_buffer_free payload)))"

section \<open>Decoding a row\<close>

text \<open>A pointer with its length is an option of bytes. Fields of a row that is not decoded again keep their values.\<close>

record decode_context =
  dc_vm :: bindings
  dc_tbl :: "byte list option"
  dc_pk :: "byte list option"
  dc_col_name :: "byte list option"
  dc_col_version :: int
  dc_db_version :: int
  dc_site_id :: "byte list option"
  dc_cl :: int
  dc_seq :: int

definition empty_decode_context :: decode_context where
  "empty_decode_context = \<lparr>dc_vm = [], dc_tbl = None, dc_pk = None, dc_col_name = None, dc_col_version = 0,
     dc_db_version = 0, dc_site_id = None, dc_cl = 0, dc_seq = 0\<rparr>"

definition save_field :: "nat \<Rightarrow> sqlval \<Rightarrow> decode_context \<Rightarrow> decode_context" where
  "save_field index v dc =
     (case v of
        VText bs \<Rightarrow> if index = 0 then dc\<lparr>dc_tbl := Some bs\<rparr> else if index = 2 then dc\<lparr>dc_col_name := Some bs\<rparr> else dc
      | VBlob bs \<Rightarrow> if index = 1 then dc\<lparr>dc_pk := Some bs\<rparr> else if index = 6 then dc\<lparr>dc_site_id := Some bs\<rparr> else dc
      | VInteger n \<Rightarrow>
          if index = 4 then dc\<lparr>dc_col_version := sint n\<rparr> else if index = 5 then dc\<lparr>dc_db_version := sint n\<rparr>
          else if index = 7 then dc\<lparr>dc_cl := sint n\<rparr> else if index = 8 then dc\<lparr>dc_seq := sint n\<rparr> else dc
      | _ \<Rightarrow> dc)"

text \<open>The insert statement has nine parameters; a bind is a call of the engine.\<close>

definition cloudsync_pk_decode_bind_callback ::
  "decode_context \<times> state \<Rightarrow> nat \<Rightarrow> sqlval \<Rightarrow> int \<times> (decode_context \<times> state)" where
  "cloudsync_pk_decode_bind_callback acc index v =
     (case acc of (dc, s) \<Rightarrow>
      case next_fault s of (rc, s) \<Rightarrow>
      case pk_decode_bind_callback (\<lambda>k _. if rc \<noteq> SQLITE_OK then rc else if k \<le> 9 then SQLITE_OK else SQLITE_RANGE)
             (dc_vm dc) index v of (rc, vm) \<Rightarrow>
        (rc, (if rc = SQLITE_OK then save_field index v (dc\<lparr>dc_vm := vm\<rparr>) else dc\<lparr>dc_vm := vm\<rparr>, s)))"

section \<open>Applying a payload\<close>

text \<open>
  \<open>INSERT INTO cloudsync_changes(...) VALUES (?,?,?,?,?,?,?,?,?)\<close>. Outside a transaction (\<open>auto\<close>) the statement is one of
  its own: the engine commits it and calls the commit hook, or undoes its writes and calls the rollback hook. The
  statement is prepared with the old \<open>sqlite3_prepare\<close>, whose step reports every error as \<open>SQLITE_ERROR\<close>.
\<close>

definition changes_insert :: "conversions \<Rightarrow> bool \<Rightarrow> sqlval list \<Rightarrow> state \<Rightarrow> int \<times> state" where
  "changes_insert cv auto vals s0 =
     step (\<lambda>s. case cloudsync_changesvtab_update cv (VNull # VNull # vals) 0 s of ((rc, _), s1) \<Rightarrow>
       if rc = SQLITE_OK then (SQLITE_DONE, if auto then cloudsync_commit_hook s1 else s1)
       else (SQLITE_ERROR, if auto then cloudsync_rollback_hook (s1\<lparr>db := db s\<rparr>) else s1)) s0"

text \<open>
  The callback of an application: its data, the decoded change, the step (1 before, 2 after the insert, 3 at the end),
  the result code and the state; it says whether to insert.
\<close>

type_synonym 'x apply_callback = "'x \<Rightarrow> decode_context \<Rightarrow> int \<Rightarrow> int \<Rightarrow> state \<Rightarrow> bool \<times> 'x \<times> state"

definition call_back ::
  "'x apply_callback option \<Rightarrow> 'x \<Rightarrow> decode_context \<Rightarrow> int \<Rightarrow> int \<Rightarrow> state \<Rightarrow> bool \<times> 'x \<times> state" where
  "call_back cb x dc st rc s = (case cb of None \<Rightarrow> (True, x, s) | Some f \<Rightarrow> f x dc st rc s)"

text \<open>The loop over the rows, with \<open>n\<close> rows left; reading outside the buffer ends it and sets \<open>ub\<close>.\<close>

fun apply_rows ::
  "conversions \<Rightarrow> bool \<Rightarrow> 'x apply_callback option \<Rightarrow> nat \<Rightarrow> nat \<Rightarrow> byte list \<Rightarrow> int \<times> decode_context \<times> 'x \<Rightarrow> state \<Rightarrow>
   (int \<times> decode_context \<times> 'x) \<times> state" where
  "apply_rows cv auto cb ncols 0 buffer acc s = (acc, s)"
| "apply_rows cv auto cb ncols (Suc n) buffer (rc, dc, x) s =
     (case pk_decode buffer (Some ncols) 0 (Some cloudsync_pk_decode_bind_callback) (dc, s) of
        None \<Rightarrow> ((rc, dc, x), s\<lparr>ub := True\<rparr>)
      | Some (_, seek, dc, s) \<Rightarrow>
        (case call_back cb x dc 1 SQLITE_OK s of (approved, x, s) \<Rightarrow>
         case (if approved then changes_insert cv auto (key_values 9 (dc_vm dc)) s else (rc, s)) of (rc, s) \<Rightarrow>
         case call_back cb x dc 2 rc s of (_, x, s) \<Rightarrow>
         apply_rows cv auto cb ncols n (drop seek buffer) (rc, dc\<lparr>dc_vm := []\<rparr>, x) s))"

text \<open>After the loop: the position of the last row that was decoded is remembered in the settings.\<close>

definition remember_position :: "int \<Rightarrow> int \<Rightarrow> decode_context \<Rightarrow> state \<Rightarrow> state" where
  "remember_position dbversion sq dc s =
     (if dc_db_version dc \<ge> dbversion then
        let s = snd (dbutils_settings_set_key_value ''check_dbversion'' (Some (show_int (dc_db_version dc))) s)
        in if dc_seq dc \<noteq> sq
           then snd (dbutils_settings_set_key_value ''check_seq'' (Some (show_int (dc_seq dc))) s) else s
      else s)"

definition apply_expanded ::
  "conversions \<Rightarrow> bool \<Rightarrow> 'x apply_callback option \<Rightarrow> 'x \<Rightarrow> network_header \<Rightarrow> byte list \<Rightarrow> state \<Rightarrow> sql_result \<times> state" where
  "apply_expanded cv auto cb x header buffer s =
     (case prepare True s of (rc, s) \<Rightarrow>
      if rc \<noteq> SQLITE_OK then (ResError SQLITE_ERROR, s)
      else case dbutils_settings_get_int_value ''check_dbversion'' s of (dbversion, s) \<Rightarrow>
      case dbutils_settings_get_int_value ''check_seq'' s of (sq, s) \<Rightarrow>
      case apply_rows cv auto cb (unat (h_ncols header)) (unat (h_nrows header)) buffer (SQLITE_OK, empty_decode_context, x) s of
        ((rc, dc, x), s) \<Rightarrow>
      case call_back cb x dc 3 rc s of (_, _, s) \<Rightarrow>
      if rc \<noteq> SQLITE_OK \<and> rc \<noteq> SQLITE_DONE then (ResError SQLITE_MISUSE, s)
      else (ResInt (sint (h_nrows header)), remember_position dbversion sq dc s))"

definition cloudsync_payload_apply ::
  "conversions \<Rightarrow> bool \<Rightarrow> (nat \<Rightarrow> bool) \<Rightarrow> lz4 \<Rightarrow> 'x apply_callback option \<Rightarrow> 'x \<Rightarrow> byte list \<Rightarrow> state \<Rightarrow> sql_result \<times> state" where
  "cloudsync_payload_apply cv auto alloc z cb x payload s =
     (if length payload < HEADER_SIZE then (ResNone, s\<lparr>ub := True\<rparr>)
      else
       let header = header_of payload; buffer = drop HEADER_SIZE payload in
       case (if h_schema_hash header \<noteq> c_schema_hash s then dbutils_check_schema_hash (h_schema_hash header) s else (True, s)) of
         (known, s) \<Rightarrow>
       if \<not> known then (ResError SQLITE_MISMATCH, s)
       else if h_signature header \<noteq> CLOUDSYNC_PAYLOAD_SIGNATURE \<or> h_ncols header = 0 then (ResError SQLITE_MISUSE, s)
       else if h_expanded_size header = 0 then apply_expanded cv auto cb x header buffer s
       else if \<not> alloc (unat (h_expanded_size header)) then (ResError SQLITE_NOMEM, s)
       else case LZ4_decompress_safe z buffer (unat (h_expanded_size header)) of
         None \<Rightarrow> (ResError SQLITE_MISUSE, s)
       | Some clone \<Rightarrow>
           if length clone \<noteq> unat (h_expanded_size header) then (ResError SQLITE_MISUSE, s)
           else apply_expanded cv auto cb x header clone s)"

definition cloudsync_payload_decode ::
  "conversions \<Rightarrow> bool \<Rightarrow> (nat \<Rightarrow> bool) \<Rightarrow> lz4 \<Rightarrow> 'x apply_callback option \<Rightarrow> 'x \<Rightarrow> sqlval \<Rightarrow> state \<Rightarrow> sql_result \<times> state" where
  "cloudsync_payload_decode cv auto alloc z cb x v s =
     (case v of VBlob payload \<Rightarrow>
        if length payload < HEADER_SIZE then (ResError SQLITE_MISUSE, s)
        else cloudsync_payload_apply cv auto alloc z cb x payload s
      | _ \<Rightarrow> (ResError SQLITE_MISUSE, s))"

section \<open>The bytes of a header\<close>

lemma length_net_bytes [simp]: "length (net_bytes n v) = n"
  by (induction n) simp_all

lemma foldl_net_bytes:
  "foldl (\<lambda>v b. v * 256 + unat b) a (net_bytes n v) = a * 256 ^ n + v mod 256 ^ n"
proof (induction n arbitrary: a)
  case (Suc n)
  have "unat (word_of_nat (v div 256 ^ n) :: byte) = (v div 256 ^ n) mod 256"
    by (simp add: unat_of_nat take_bit_eq_mod)
  moreover have "v mod (256 ^ n * 256) = (v div 256 ^ n) mod 256 * 256 ^ n + v mod 256 ^ n"
    by (simp add: mod_mult2_eq)
  ultimately show ?case by (simp add: Suc.IH) (simp add: algebra_simps)
qed simp

lemma net_value_net_bytes: "v < 256 ^ n \<Longrightarrow> net_value (net_bytes n v) = v"
  by (simp add: net_value_def foldl_net_bytes)

lemma net_word:
  fixes w :: "'a::len word"
  assumes "2 ^ LENGTH('a) = (256 :: nat) ^ n"
  shows "word_of_nat (net_value (net_bytes n (unat w))) = w"
proof -
  have "unat w < 256 ^ n" using unsigned_less [of w, where ?'a = nat] assms by simp
  then show ?thesis by (simp add: net_value_net_bytes)
qed

lemma header_roundtrip:
  assumes "length (h_libversion h) = 3"
  shows "header_of (header_bytes h @ rest) = h" "length (header_bytes h) = HEADER_SIZE"
proof -
  obtain a b c where lib: "h_libversion h = [a, b, c]"
    using assms by (auto simp: length_Suc_conv numeral_3_eq_3)
  let ?b = "header_bytes h @ rest"
  have "field ?b 0 4 = net_bytes 4 (unat (h_signature h))" "?b ! 4 = h_version h" "field ?b 5 3 = h_libversion h"
    "field ?b 8 4 = net_bytes 4 (unat (h_expanded_size h))" "field ?b 12 2 = net_bytes 2 (unat (h_ncols h))"
    "field ?b 14 4 = net_bytes 4 (unat (h_nrows h))" "field ?b 18 8 = net_bytes 8 (unat (h_schema_hash h))"
    by (simp_all add: field_def header_bytes_def lib nth_append drop_Cons')
  then show "header_of (header_bytes h @ rest) = h" by (simp add: header_of_def net_word)
  show "length (header_bytes h) = HEADER_SIZE" by (simp add: header_bytes_def assms)
qed

text \<open>A header that is written and read again is the same header.\<close>

theorem payload_header_roundtrip:
  assumes "length (h_libversion h) = 3"
  shows "header_of (header_bytes h @ rest) = h \<and> length (header_bytes h) = HEADER_SIZE"
  using header_roundtrip [OF assms] by blast

theorem payload_header_roundtrip_witness:
  "let h = cloudsync_network_header_init 70000 9 12 0xFEDCBA9876543210 in
   header_of (header_bytes h @ [1, 2]) = h \<and> length (header_bytes h) = HEADER_SIZE"
  unfolding Let_def by (rule payload_header_roundtrip) code_simp

section \<open>The rows of a payload\<close>

text \<open>The aggregate over a list of rows.\<close>

definition encode_rows :: "(nat \<Rightarrow> bool) \<Rightarrow> sqlval list list \<Rightarrow> network_payload" where
  "encode_rows alloc rows = fold (cloudsync_payload_encode_step alloc) rows empty_payload"

definition row_bytes :: "sqlval list list \<Rightarrow> byte list" where
  "row_bytes rows = concat (map (pk_encode_values []) rows)"

lemma encode_rows_snoc: "encode_rows alloc (rows @ [row]) = cloudsync_payload_encode_step alloc row (encode_rows alloc rows)"
  by (simp add: encode_rows_def)

lemma row_bytes_simps [simp]:
  "row_bytes [] = []" "row_bytes (row # rows) = pk_encode_values [] row @ row_bytes rows"
  "row_bytes (rows @ rows') = row_bytes rows @ row_bytes rows'"
  by (simp_all add: row_bytes_def)

lemma pk_encode_size_row: "pk_encode_size row 0 = length (pk_encode_values [] row)"
  by (simp add: pk_encode_size_sum pk_encode_values_concat length_enc_list)

lemma row_size_pos: "row \<noteq> [] \<Longrightarrow> 0 < pk_encode_size row 0"
proof -
  have "0 < pk_encode_value_size v" for v by (cases v) (simp_all add: Let_def)
  then show "row \<noteq> [] \<Longrightarrow> 0 < pk_encode_size row 0" by (cases row) (simp_all add: pk_encode_size_sum)
qed

lemma encode_fields:
  assumes "\<forall>n. alloc n" "[] \<notin> set rows" "rows \<noteq> []"
  shows "p_rows (encode_rows alloc rows) = row_bytes rows \<and>
    p_bused (encode_rows alloc rows) = HEADER_SIZE + length (row_bytes rows) \<and>
    p_nrows (encode_rows alloc rows) = length rows \<and>
    p_ncols (encode_rows alloc rows) = word_of_nat (length (hd rows))"
  using assms(2,3)
proof (induction rows rule: rev_induct)
  case (snoc row rows)
  have pos: "0 < pk_encode_size row 0" using snoc.prems by (auto intro: row_size_pos)
  show ?case
  proof (cases "rows = []")
    case True
    then show ?thesis using pos assms(1)
      by (simp add: encode_rows_def cloudsync_payload_encode_step_def cloudsync_buffer_check_def empty_payload_def Let_def
          pk_encode_size_row)
  next
    case False
    then show ?thesis using snoc pos assms(1)
      by (auto simp: encode_rows_snoc cloudsync_payload_encode_step_def cloudsync_buffer_check_def Let_def
          pk_encode_size_row)
  qed
qed simp

text \<open>When every allocation succeeds, the buffer holds the encoded rows one behind the other, behind the place of the
  header; and when no row is larger than the minimal buffer less the header, nothing is written outside it.\<close>

theorem encode_rows_buffer:
  assumes "\<forall>n. alloc n" "[] \<notin> set rows" "rows \<noteq> []"
  shows "p_rows (encode_rows alloc rows) = row_bytes rows \<and>
    p_bused (encode_rows alloc rows) = HEADER_SIZE + length (row_bytes rows) \<and>
    p_nrows (encode_rows alloc rows) = length rows \<and>
    p_ncols (encode_rows alloc rows) = word_of_nat (length (hd rows)) \<and>
    ((\<forall>row \<in> set rows. pk_encode_size row 0 \<le> CLOUDSYNC_PAYLOAD_MINBUF_SIZE - HEADER_SIZE) \<longrightarrow>
       \<not> p_outside (encode_rows alloc rows) \<and> p_bused (encode_rows alloc rows) \<le> p_balloc (encode_rows alloc rows))"
  using assms(2,3)
proof (induction rows rule: rev_induct)
  case (snoc row rows)
  have pos: "0 < pk_encode_size row 0" using snoc.prems by (auto intro: row_size_pos)
  show ?case
  proof (cases "rows = []")
    case True
    then show ?thesis using pos assms(1)
      by (simp add: encode_rows_def cloudsync_payload_encode_step_def cloudsync_buffer_check_def empty_payload_def Let_def
          pk_encode_size_row)
  next
    case False
    then show ?thesis using snoc pos assms(1)
      by (auto simp: encode_rows_snoc cloudsync_payload_encode_step_def cloudsync_buffer_check_def Let_def
          pk_encode_size_row)
  qed
qed simp

theorem encode_rows_buffer_witness:
  "p_bused (encode_rows (\<lambda>_. True) [[VInteger 5, VNull], [VText [97], VNull]]) = 39 \<and>
   \<not> p_outside (encode_rows (\<lambda>_. True) [[VInteger 5, VNull], [VText [97], VNull]])"
proof -
  have "length (row_bytes [[VInteger 5, VNull], [VText [97], VNull]]) = 7" by code_simp
  then show ?thesis
    using encode_rows_buffer [of "\<lambda>_. True" "[[VInteger 5, VNull], [VText [97], VNull]]"]
    by (simp add: INT64_MIN_def pk_encode_nbytes_needed_def)
qed

text \<open>The first row reserves only the larger of its own size and 512 KB, with the header inside: when it takes more
  than that less the 32 bytes of the header, its end is written behind the buffer.\<close>

theorem large_first_row_overflows:
  assumes "\<forall>n. alloc n" "CLOUDSYNC_PAYLOAD_MINBUF_SIZE - HEADER_SIZE < pk_encode_size row 0"
  shows "p_outside (encode_rows alloc [row])"
  using assms
  by (auto simp: encode_rows_def cloudsync_payload_encode_step_def cloudsync_buffer_check_def empty_payload_def Let_def)

theorem large_first_row_overflows_witness:
  "p_outside (encode_rows (\<lambda>_. True) [[VBlob (replicate 524288 0)]])"
  by (rule large_first_row_overflows) simp_all

text \<open>When the buffer cannot grow, the rows encoded so far are dropped without an error and the payload goes on with
  the rows that follow.\<close>

theorem failed_growth_drops_rows:
  assumes "fst (cloudsync_buffer_check alloc (encode_rows alloc rows) (pk_encode_size row 0)) = False"
    and "\<not> p_outside (encode_rows alloc rows)"
  shows "encode_rows alloc (rows @ row # later) = encode_rows alloc later"
proof -
  have "cloudsync_payload_encode_step alloc row (encode_rows alloc rows) = empty_payload"
    using assms
    by (auto simp: cloudsync_payload_encode_step_def cloudsync_buffer_check_def cloudsync_buffer_free_def Let_def
        empty_payload_def split: if_splits)
  then show ?thesis by (simp add: encode_rows_def)
qed

theorem failed_growth_drops_rows_witness:
  "encode_rows (\<lambda>n. n \<le> 600000) ([[VInteger 5]] @ [VBlob (replicate 600000 0)] # [[VInteger 6]]) =
   encode_rows (\<lambda>n. n \<le> 600000) [[VInteger 6]]"
  by (rule failed_growth_drops_rows)
    (simp_all add: encode_rows_def cloudsync_payload_encode_step_def cloudsync_buffer_check_def empty_payload_def
      cloudsync_buffer_free_def INT64_MIN_def pk_encode_nbytes_needed_def)

section \<open>What applying keeps\<close>

lemma decode_loop_invariant:
  assumes "\<And>x i v. Q x \<Longrightarrow> Q (snd (f x i v))" "Q x" "pk_decode_loop (Some f) buf i n sk x = Some r"
  shows "Q (case r of Inl y \<Rightarrow> y | Inr (_, y) \<Rightarrow> y)"
  using assms(2,3)
proof (induction n arbitrary: i sk x)
  case (Suc n)
  obtain v sk' where v: "pk_decode_value buf sk = Some (v, sk')" using Suc.prems(2) by (auto split: option.splits)
  obtain rc y where y: "f x i v = (rc, y)" by fastforce
  then have "Q y" using assms(1) [OF Suc.prems(1), of i v] by simp
  then show ?case using Suc v y by (auto split: if_splits)
qed auto

text \<open>The facts kept by everything the library does.\<close>

locale system_frame = context_frame + merge_frame
begin

lemma decode_bind_keeps: "P (snd acc) \<Longrightarrow> P (snd (snd (cloudsync_pk_decode_bind_callback acc i v)))"
  by (cases acc) (auto simp: cloudsync_pk_decode_bind_callback_def split: prod.split dest: next_fault_keeps)

lemma decode_row_keeps:
  "pk_decode buf (Some n) 0 (Some cloudsync_pk_decode_bind_callback) (dc, s) = Some (rc, sk, dc', s') \<Longrightarrow> P s \<Longrightarrow> P s'"
  using decode_loop_invariant [of "\<lambda>x. P (snd x)" cloudsync_pk_decode_bind_callback "(dc, s)" buf 0 n 0] decode_bind_keeps
  by (fastforce simp: pk_decode_def split: option.splits sum.splits)

lemma update_keeps [keeps]: "P s \<Longrightarrow> P (snd (cloudsync_changesvtab_update cv argv r s))"
  unfolding cloudsync_changesvtab_update_def by (intro keeps)

lemma rollback_hook_keeps: "P s \<Longrightarrow> P (cloudsync_rollback_hook s)"
  by (simp add: cloudsync_rollback_hook_def keep_pending keep_library)

lemma changes_insert_keeps [keeps]: "P s \<Longrightarrow> P (snd (changes_insert cv auto vals s))"
proof -
  assume "P s"
  then show ?thesis unfolding changes_insert_def
  proof (rule step_keeps)
    fix s assume "P s"
    then have "P (snd (cloudsync_changesvtab_update cv (VNull # VNull # vals) 0 s))" by (rule update_keeps)
    then show "P (snd (case cloudsync_changesvtab_update cv (VNull # VNull # vals) 0 s of ((rc, _), s1) \<Rightarrow>
        if rc = SQLITE_OK then (SQLITE_DONE, if auto then cloudsync_commit_hook s1 else s1)
        else (SQLITE_ERROR, if auto then cloudsync_rollback_hook (s1\<lparr>db := db s\<rparr>) else s1)))"
      by (auto simp: commit_hook_keeps rollback_hook_keeps keep_db split: prod.split)
  qed
qed

text \<open>The callback of the application has to keep the fact too.\<close>

definition callback_keeps :: "'x apply_callback option \<Rightarrow> bool" where
  "callback_keeps cb \<longleftrightarrow> (\<forall>f x dc st rc s. cb = Some f \<longrightarrow> P s \<longrightarrow> P (snd (snd (f x dc st rc s))))"

lemma call_back_keeps: "callback_keeps cb \<Longrightarrow> P s \<Longrightarrow> P (snd (snd (call_back cb x dc st rc s)))"
  by (auto simp: callback_keeps_def call_back_def split: option.split)

lemma apply_rows_keeps:
  assumes "callback_keeps cb"
  shows "P s \<Longrightarrow> P (snd (apply_rows cv auto cb ncols n buf acc s))"
proof (induction n arbitrary: buf acc s)
  case (Suc n)
  obtain rc dc x where acc: "acc = (rc, dc, x)" by (metis prod.exhaust)
  show ?case
  proof (cases "pk_decode buf (Some ncols) 0 (Some cloudsync_pk_decode_bind_callback) (dc, s)")
    case None
    then show ?thesis using Suc.prems by (simp add: acc keep_write)
  next
    case (Some y)
    then obtain rc1 sk dc1 s1 where y: "y = (rc1, sk, dc1, s1)" by (metis prod.exhaust)
    have s1: "P s1" using decode_row_keeps Some y Suc.prems by blast
    obtain ap x2 s2 where 2: "call_back cb x dc1 1 0 s1 = (ap, x2, s2)" by (metis prod.exhaust)
    have s2: "P s2" using call_back_keeps [OF assms s1, of x dc1 1 0] 2 by simp
    obtain rc3 s3 where 3: "(if ap then changes_insert cv auto (key_values 9 (dc_vm dc1)) s2 else (rc, s2)) = (rc3, s3)"
      by fastforce
    have s3: "P s3" using changes_insert_keeps [OF s2, of cv auto "key_values 9 (dc_vm dc1)"] 3 s2 by (auto split: if_splits)
    obtain b x4 s4 where 4: "call_back cb x2 dc1 2 rc3 s3 = (b, x4, s4)" by (metis prod.exhaust)
    have "P s4" using call_back_keeps [OF assms s3, of x2 dc1 2 rc3] 4 by simp
    then show ?thesis using Suc.IH acc Some y 2 3 4 by simp
  qed
qed simp

lemma remember_position_keeps: "P s \<Longrightarrow> P (remember_position v q dc s)"
  by (simp add: remember_position_def Let_def set_key_value_keeps)

lemma get_int_value_keeps [keeps]: "P s \<Longrightarrow> P (snd (dbutils_settings_get_int_value k s))"
  unfolding dbutils_settings_get_int_value_def by (intro keeps)

lemma triple_keeps:
  "P (snd (snd r)) \<Longrightarrow> (\<And>a b s. P s \<Longrightarrow> P (snd (f a b s))) \<Longrightarrow> P (snd (case r of (a, b, s) \<Rightarrow> f a b s))"
  by (cases r) auto

lemma apply_expanded_keeps:
  assumes "callback_keeps cb" "P s"
  shows "P (snd (apply_expanded cv auto cb x header buf s))"
  unfolding apply_expanded_def
proof (rule case_prod_keeps)
  fix rc s assume s: "P s"
  show "P (snd (if rc \<noteq> SQLITE_OK then (ResError SQLITE_ERROR, s)
      else case dbutils_settings_get_int_value ''check_dbversion'' s of (dbversion, s) \<Rightarrow>
        case dbutils_settings_get_int_value ''check_seq'' s of (sq, s) \<Rightarrow>
        case apply_rows cv auto cb (unat (h_ncols header)) (unat (h_nrows header)) buf (SQLITE_OK, empty_decode_context, x) s of
          ((rc, dc, x), s) \<Rightarrow>
        case call_back cb x dc 3 rc s of (_, _, s) \<Rightarrow>
        if rc \<noteq> SQLITE_OK \<and> rc \<noteq> SQLITE_DONE then (ResError SQLITE_MISUSE, s)
        else (ResInt (sint (h_nrows header)), remember_position dbversion sq dc s)))"
    by (intro if_keeps pair_keeps case_prod_keeps get_int_value_keeps apply_rows_keeps inner_pair_keeps triple_keeps
        call_back_keeps remember_position_keeps assms(1) s)
qed (rule prepare_keeps [OF assms(2)])

lemma check_schema_hash_keeps [keeps]: "P s \<Longrightarrow> P (snd (dbutils_check_schema_hash h s))"
  unfolding dbutils_check_schema_hash_def by (intro keeps)

lemma payload_apply_keeps:
  assumes "callback_keeps cb" "P s"
  shows "P (snd (cloudsync_payload_apply cv auto alloc z cb x payload s))"
  unfolding cloudsync_payload_apply_def
  by (intro keeps keep_write apply_expanded_keeps assms | assumption)+

lemma payload_decode_keeps:
  assumes "callback_keeps cb" "P s"
  shows "P (snd (cloudsync_payload_decode cv auto alloc z cb x v s))"
  using payload_apply_keeps [OF assms] assms(2)
  by (cases v) (simp_all add: cloudsync_payload_decode_def)

end

interpretation insync_off: system_frame "\<lambda>s. c_insync s = False"
  by unfold_locales (simp_all add: upd_tbl_def)

interpretation unfailing_tables: tables_frame "\<lambda>s. faults s = []"
  by unfold_locales simp_all

interpretation unfailing: context_frame "\<lambda>s. faults s = []"
  by unfold_locales (simp_all only: unfailing_tables.registry_keeps, simp_all)

lemma next_fault_unfailing: "faults s = [] \<Longrightarrow> faults (s\<lparr>c_insync := b\<rparr>) = []"
  by simp

interpretation unfailing: system_frame "\<lambda>s. faults s = []"
proof unfold_locales
  have in_sync_faults: "faults (snd (in_sync stmt s)) = []"
    if "faults s = []" "\<And>s. c_insync s \<Longrightarrow> faults (snd (stmt s)) = faults s" for stmt s
    using that by (simp add: in_sync_def split_beta)
  have rows: "faults (snd (real_merge_upsert n c k v w s)) = faults s" "faults (snd (real_merge_delete n k s)) = faults s"
    "faults (snd (real_merge_sentinel n k s)) = faults s" if "c_insync s" for n c k v w s
    using real_stmt_rows [OF that, of faults] by simp_all
  show "faults s = [] \<Longrightarrow> faults (snd (in_sync (real_merge_upsert n c k v v) s)) = []" for n c k v s
    by (rule in_sync_faults) (simp_all add: rows)
  show "faults s = [] \<Longrightarrow> faults (snd (in_sync (real_merge_delete n k) s)) = []" for n k s
    by (rule in_sync_faults) (simp_all add: rows)
  show "faults s = [] \<Longrightarrow> faults (snd (in_sync (real_merge_sentinel n k) s)) = []" for n k s
    by (rule in_sync_faults) (simp_all add: rows)
qed (simp add: upd_tbl_def)

interpretation registry_kept: system_frame registry_ok
proof unfold_locales
  show "registry_ok s \<Longrightarrow> registry_ok (upd_tbl ti (t_enabled_update g) s)" for ti g s
    by (simp add: registry_ok_upd_tbl)
  have same: "c_tables (snd (in_sync (real_merge_upsert n c k v w) s)) = c_tables s \<and>
      c_tables_count (snd (in_sync (real_merge_upsert n c k v w) s)) = c_tables_count s"
    "c_tables (snd (in_sync (real_merge_delete n k) s)) = c_tables s \<and>
      c_tables_count (snd (in_sync (real_merge_delete n k) s)) = c_tables_count s"
    "c_tables (snd (in_sync (real_merge_sentinel n k) s)) = c_tables s \<and>
      c_tables_count (snd (in_sync (real_merge_sentinel n k) s)) = c_tables_count s" for n c k v w s
    using in_sync_rows [of "\<lambda>s. (c_tables s, c_tables_count s)"] by simp_all
  show "registry_ok s \<Longrightarrow> registry_ok (snd (in_sync (real_merge_upsert n c k v v) s))" for n c k v s
    using registry_ok_cong same(1) by blast
  show "registry_ok s \<Longrightarrow> registry_ok (snd (in_sync (real_merge_delete n k) s))" for n k s
    using registry_ok_cong same(2) by blast
  show "registry_ok s \<Longrightarrow> registry_ok (snd (in_sync (real_merge_sentinel n k) s))" for n k s
    using registry_ok_cong same(3) by blast
qed

section \<open>Applying what was encoded\<close>

definition save_fields :: "nat \<Rightarrow> sqlval list \<Rightarrow> decode_context \<Rightarrow> decode_context" where
  "save_fields i vs dc = fold (\<lambda>(k, v). save_field k v) (List.enumerate i vs) dc"

lemma save_field_vm [simp]: "dc_vm (save_field k v dc) = dc_vm dc"
  by (simp add: save_field_def split: sqlval.split)

lemma save_field_set_vm: "save_field k v (dc\<lparr>dc_vm := vm\<rparr>) = (save_field k v dc)\<lparr>dc_vm := vm\<rparr>"
  by (simp add: save_field_def split: sqlval.split)

lemma save_fields_simps [simp]:
  "save_fields i [] dc = dc" "save_fields i (v # vs) dc = save_fields (i + 1) vs (save_field i v dc)"
  by (simp_all add: save_fields_def)

lemma save_fields_vm [simp]: "dc_vm (save_fields i vs dc) = dc_vm dc"
  by (induction vs arbitrary: i dc) simp_all

lemma save_fields_set_vm: "save_fields i vs (dc\<lparr>dc_vm := vm\<rparr>) = (save_fields i vs dc)\<lparr>dc_vm := vm\<rparr>"
  by (induction vs arbitrary: i dc) (simp_all add: save_field_set_vm)

lemma run_payload_callback:
  assumes "faults s = []" "i + length vs \<le> 9"
  shows "\<exists>vm'. run_callback cloudsync_pk_decode_bind_callback i vs (dc, s) =
      Inr ((save_fields i vs dc)\<lparr>dc_vm := vm'\<rparr>, s) \<and>
    (\<forall>k. map_of vm' k = (if i < k \<and> k \<le> i + length vs then Some (vs ! (k - i - 1)) else map_of (dc_vm dc) k))"
  using assms(2)
proof (induction vs arbitrary: i dc)
  case Nil
  then show ?case by (intro exI [of _ "dc_vm dc"]) auto
next
  case (Cons v vs)
  let ?dc = "save_field i v (dc\<lparr>dc_vm := AList.update (i + 1) v (dc_vm dc)\<rparr>)"
  have b: "cloudsync_pk_decode_bind_callback (dc, s) i v = (0, (?dc, s))"
    using assms(1) Cons.prems by (simp add: cloudsync_pk_decode_bind_callback_def pk_decode_bind_callback_def)
  obtain vm' where vm': "run_callback cloudsync_pk_decode_bind_callback (i + 1) vs (?dc, s) =
      Inr ((save_fields (i + 1) vs ?dc)\<lparr>dc_vm := vm'\<rparr>, s)"
    "\<And>k. map_of vm' k = (if i + 1 < k \<and> k \<le> i + 1 + length vs then Some (vs ! (k - (i + 1) - 1))
       else map_of (AList.update (i + 1) v (dc_vm dc)) k)"
    using Cons.IH [of "i + 1" ?dc] Cons.prems by auto
  have "map_of vm' k = (if i < k \<and> k \<le> i + length (v # vs) then Some ((v # vs) ! (k - i - 1)) else map_of (dc_vm dc) k)" for k
    unfolding vm'(2) by (cases "k = i + 1") (auto simp: update_conv' nth_Cons')
  moreover have "run_callback cloudsync_pk_decode_bind_callback i (v # vs) (dc, s) =
      Inr ((save_fields i (v # vs) dc)\<lparr>dc_vm := vm'\<rparr>, s)"
    using b vm'(1) by (simp add: save_field_set_vm save_fields_set_vm)
  ultimately show ?case by blast
qed

definition row_context :: "sqlval list \<Rightarrow> decode_context \<Rightarrow> decode_context" where
  "row_context row dc = (save_fields 0 row dc)\<lparr>dc_vm := []\<rparr>"

text \<open>The rows one after the other: the code of the last insert and the fields of the last row.\<close>

fun insert_all :: "conversions \<Rightarrow> bool \<Rightarrow> sqlval list list \<Rightarrow> int \<times> decode_context \<Rightarrow> state \<Rightarrow> (int \<times> decode_context) \<times> state" where
  "insert_all cv auto [] acc s = (acc, s)"
| "insert_all cv auto (row # rows) acc s =
     (case changes_insert cv auto row s of (rc, s) \<Rightarrow> insert_all cv auto rows (rc, row_context row (snd acc)) s)"

definition wf_row :: "sqlval list \<Rightarrow> bool" where
  "wf_row row \<longleftrightarrow> length row = 9 \<and> (\<forall>v \<in> set row. wf_val v)"

lemma decode_row:
  assumes "faults s = []" "wf_row row" "dc_vm dc = []"
  shows "\<exists>vm. pk_decode (pk_encode_values [] row @ rest) (Some 9) 0 (Some cloudsync_pk_decode_bind_callback) (dc, s) =
      Some (9, length (pk_encode_values [] row), (save_fields 0 row dc)\<lparr>dc_vm := vm\<rparr>, s) \<and> key_values 9 vm = row"
proof -
  obtain vm where vm: "run_callback cloudsync_pk_decode_bind_callback 0 row (dc, s) = Inr ((save_fields 0 row dc)\<lparr>dc_vm := vm\<rparr>, s)"
    "\<forall>k. map_of vm k = (if 0 < k \<and> k \<le> length row then Some (row ! (k - 1)) else None)"
    using run_payload_callback [OF assms(1), of 0 row dc] assms(2,3) by (auto simp: wf_row_def)
  have "key_values 9 vm = row"
    using vm(2) assms(2) by (intro nth_equalityI) (simp_all add: key_values_def bound_def wf_row_def del: upt_Suc)
  then show ?thesis
    using pk_decode_encoded_row [of row "[]" rest cloudsync_pk_decode_bind_callback "(dc, s)"] vm(1) assms(2)
    by (auto simp: wf_row_def)
qed

lemma apply_rows_encoded:
  assumes "\<forall>row \<in> set rows. wf_row row"
  shows "faults s = [] \<Longrightarrow> dc_vm dc = [] \<Longrightarrow>
    apply_rows cv auto None 9 (length rows) (row_bytes rows @ rest) (rc, dc, x) s =
      (case insert_all cv auto rows (rc, dc) s of ((rc, dc), s) \<Rightarrow> ((rc, dc, x), s))"
  using assms
proof (induction rows arbitrary: rc dc s)
  case (Cons row rows)
  obtain vm where d: "pk_decode (pk_encode_values [] row @ row_bytes rows @ rest) (Some 9) 0
      (Some cloudsync_pk_decode_bind_callback) (dc, s) =
      Some (9, length (pk_encode_values [] row), (save_fields 0 row dc)\<lparr>dc_vm := vm\<rparr>, s)" "key_values 9 vm = row"
    using decode_row [OF Cons.prems(1), of row dc "row_bytes rows @ rest"] Cons.prems by auto
  obtain rc1 s1 where i: "changes_insert cv auto row s = (rc1, s1)" by fastforce
  have s1: "faults s1 = []" using unfailing.changes_insert_keeps [OF Cons.prems(1), of cv auto row] i by simp
  have "apply_rows cv auto None 9 (length rows) (row_bytes rows @ rest) (rc1, row_context row dc, x) s1 =
      (case insert_all cv auto rows (rc1, row_context row dc) s1 of ((rc, dc), s) \<Rightarrow> ((rc, dc, x), s))"
    using Cons by (simp add: s1 row_context_def)
  then show ?case using d i by (simp add: call_back_def row_context_def)
qed simp

lemma get_int_value_unfailing:
  assumes "faults s = []"
  shows "dbutils_settings_get_int_value k s = (fst (dbutils_settings_get_int_value k s), s)"
proof -
  have "same s (snd (dbutils_settings_get_int_value k s))"
    unfolding dbutils_settings_get_int_value_def by (intro keeps same_refl)
  moreover have "faults (snd (dbutils_settings_get_int_value k s)) = []"
    using unfailing.get_int_value_keeps [OF assms] .
  ultimately have "snd (dbutils_settings_get_int_value k s) = s" using assms by (auto simp: same_def)
  then show ?thesis by (metis prod.collapse)
qed

text \<open>What the code relies on from LZ4: what was compressed expands to the source, when its length is given.\<close>

definition lz4_ok :: "lz4 \<Rightarrow> bool" where
  "lz4_ok z \<longleftrightarrow> (\<forall>src n. LZ4_compress_default z src n \<noteq> [] \<longrightarrow>
     LZ4_decompress_safe z (LZ4_compress_default z src n) (length src) = Some src)"

text \<open>After the rows: the report of the last one.\<close>

definition report :: "nat \<Rightarrow> int \<Rightarrow> int \<Rightarrow> (int \<times> decode_context) \<times> state \<Rightarrow> sql_result \<times> state" where
  "report n dbversion sq r =
     (case r of ((rc, dc), s) \<Rightarrow>
        if rc \<noteq> SQLITE_DONE then (ResError SQLITE_MISUSE, s) else (ResInt (int n), remember_position dbversion sq dc s))"

lemma insert_all_rc: "rows \<noteq> [] \<Longrightarrow> faults s = [] \<Longrightarrow> fst (fst (insert_all cv auto rows acc s)) \<in> {SQLITE_DONE, SQLITE_ERROR}"
proof (induction rows arbitrary: acc s)
  case (Cons row rows)
  obtain rc1 s1 where i: "changes_insert cv auto row s = (rc1, s1)" by fastforce
  have "faults s1 = []" using unfailing.changes_insert_keeps [OF Cons.prems(2), of cv auto row] i by simp
  moreover have "rc1 \<in> {SQLITE_DONE, SQLITE_ERROR}"
    using i Cons.prems(2) by (auto simp: changes_insert_def split: prod.splits if_splits)
  ultimately show ?case
    using Cons.IH [of s1 "(rc1, row_context row (snd acc))"] i by (cases "rows = []") simp_all
qed simp

lemma row_bytes_pos: "rows \<noteq> [] \<Longrightarrow> \<forall>row \<in> set rows. wf_row row \<Longrightarrow> 0 < length (row_bytes rows)"
proof -
  assume "rows \<noteq> []" and wf: "\<forall>row \<in> set rows. wf_row row"
  then obtain row later where rows: "rows = row # later" by (cases rows) auto
  then have "row \<noteq> []" using wf by (auto simp: wf_row_def)
  then show ?thesis using row_size_pos [of row] rows by (simp add: pk_encode_size_row)
qed

lemma apply_expanded_rows:
  assumes "faults s = []" "rows \<noteq> []" "\<forall>row \<in> set rows. wf_row row" "length rows < 2 ^ 31"
    and "h_ncols header = 9" "h_nrows header = word_of_nat (length rows)"
  shows "apply_expanded cv auto None x header (row_bytes rows) s =
    report (length rows) (fst (dbutils_settings_get_int_value ''check_dbversion'' s))
      (fst (dbutils_settings_get_int_value ''check_seq'' s)) (insert_all cv auto rows (SQLITE_OK, empty_decode_context) s)"
proof -
  have n: "unat (h_nrows header) = length rows" "sint (h_nrows header) = int (length rows)"
    using assms(4,6) by (simp_all add: unat_of_nat take_bit_nat_eq_self signed_of_nat signed_take_bit_int_eq_self)
  obtain rc dc s1 where i: "insert_all cv auto rows (SQLITE_OK, empty_decode_context) s = ((rc, dc), s1)"
    by (metis prod.exhaust)
  have rc: "rc \<in> {SQLITE_DONE, SQLITE_ERROR}" using insert_all_rc [OF assms(2,1)] i by (metis fst_conv)
  have "apply_rows cv auto None 9 (length rows) (row_bytes rows @ []) (SQLITE_OK, empty_decode_context, x) s = ((rc, dc, x), s1)"
    using apply_rows_encoded [OF assms(3,1), of empty_decode_context cv auto "[]" SQLITE_OK x] i
    by (simp add: empty_decode_context_def)
  moreover obtain v where "dbutils_settings_get_int_value ''check_dbversion'' s = (v, s)"
    using get_int_value_unfailing [OF assms(1)] by metis
  moreover obtain w where "dbutils_settings_get_int_value ''check_seq'' s = (w, s)"
    using get_int_value_unfailing [OF assms(1)] by metis
  ultimately show ?thesis using assms(1,5) n rc i by (auto simp: apply_expanded_def call_back_def report_def)
qed

lemma payload_decode_rows:
  assumes rows: "rows \<noteq> []" "\<forall>row \<in> set rows. wf_row row" "length (row_bytes rows) < 2 ^ 31" "\<forall>n. alloc n"
    and z: "lz4_ok z" and s: "faults s = []" "c_schema_hash s = hash"
    and enc: "cloudsync_payload_encode_final alloc z hash (encode_rows alloc rows) = Some (ResValue (VBlob blob), p)"
  shows "cloudsync_payload_decode cv auto alloc z None x (VBlob blob) s =
    report (length rows) (fst (dbutils_settings_get_int_value ''check_dbversion'' s))
      (fst (dbutils_settings_get_int_value ''check_seq'' s)) (insert_all cv auto rows (SQLITE_OK, empty_decode_context) s)"
proof -
  have nil: "[] \<notin> set rows" using rows(2) by (auto simp: wf_row_def)
  have len: "length rows \<le> length (row_bytes rows)"
    using rows(2)
  proof (induction rows)
    case (Cons row rows)
    then have "row \<noteq> []" by (auto simp: wf_row_def)
    then have "0 < length (pk_encode_values [] row)" using row_size_pos [of row] by (metis pk_encode_size_row)
    with Cons show ?case by (simp del: length_greater_0_conv)
  qed simp
  have hd: "length (hd rows) = 9" using rows(1,2) by (cases rows) (auto simp: wf_row_def)
  have al: "alloc = (\<lambda>_. True)" using rows(4) by auto
  note e = encode_fields [of "\<lambda>_. True", OF _ nil rows(1), simplified]
  let ?n = "length (row_bytes rows)"
  let ?buf = "LZ4_compress_default z (row_bytes rows) (LZ4_compressBound z (int ?n))"
  let ?unc = "int (length ?buf) = 0 \<or> int (length ?buf) > int ?n"
  let ?h = "cloudsync_network_header_init (if ?unc then 0 else word_of_int (int ?n)) 9 (word_of_nat (length rows)) hash"
  have blob: "blob = header_bytes ?h @ (if ?unc then row_bytes rows else ?buf)"
    using enc [unfolded al] rows(1,3) e hd by (auto simp: cloudsync_payload_encode_final_def Let_def split: if_splits)
  have lib: "length (h_libversion ?h) = 3" unfolding cloudsync_network_header_init_def by code_simp
  note hdr = header_roundtrip [OF lib]
  have sz: "unat (word_of_int (int ?n) :: 32 word) = ?n" using rows(3) by (simp add: unat_of_nat take_bit_nat_eq_self)
  have exp: "apply_expanded cv auto None x ?h (row_bytes rows) s =
      report (length rows) (fst (dbutils_settings_get_int_value ''check_dbversion'' s))
        (fst (dbutils_settings_get_int_value ''check_seq'' s)) (insert_all cv auto rows (SQLITE_OK, empty_decode_context) s)"
    using rows len by (intro apply_expanded_rows s(1)) (simp_all add: cloudsync_network_header_init_def)
  have "cloudsync_payload_decode cv auto alloc z None x (VBlob blob) s = apply_expanded cv auto None x ?h (row_bytes rows) s"
  proof (cases ?unc)
    case True
    then show ?thesis using hdr(1) [of "row_bytes rows"] hdr(2) s(2)
      by (auto simp: cloudsync_payload_decode_def cloudsync_payload_apply_def blob Let_def cloudsync_network_header_init_def)
  next
    case False
    then have "LZ4_decompress_safe z ?buf ?n = Some (row_bytes rows)" using z by (auto simp: lz4_ok_def)
    then show ?thesis using False hdr(1) [of ?buf] hdr(2) s(2) sz rows(4) row_bytes_pos [OF rows(1,2)]
      by (auto simp: cloudsync_payload_decode_def cloudsync_payload_apply_def blob Let_def cloudsync_network_header_init_def)
  qed
  with exp show ?thesis by simp
qed


definition mirror_lz4 :: lz4 where
  "mirror_lz4 = \<lparr>LZ4_compressBound = (\<lambda>n. n + 16), LZ4_compress_default = (\<lambda>src _. rev src),
     LZ4_decompress_safe = (\<lambda>z _. Some (rev z))\<rparr>"

lemma mirror_lz4_ok: "lz4_ok mirror_lz4"
  by (simp add: lz4_ok_def mirror_lz4_def)

definition plain_conversions :: conversions where
  "plain_conversions = \<lparr>to_text = (\<lambda>_. []), to_int = (\<lambda>_. 0), to_blob = (\<lambda>_. [])\<rparr>"

definition payload_demo_row :: "i64 \<Rightarrow> sqlval list" where
  "payload_demo_row n = [VText [116], VBlob (pk_blob [VText [97]]), VText [99], VInteger n, VInteger 1, VInteger 40,
     VBlob [1, 2], VInteger 1, VInteger 3]"

lemma payload_demo_row_wf: "wf_row (payload_demo_row n)"
proof -
  have "pk_blob [VText [97]] = [1, 11, 1, 97]" by code_simp
  then show ?thesis by (simp add: wf_row_def payload_demo_row_def)
qed


text \<open>A column of one key while the rows are applied inside a transaction: merged one after the other.\<close>

lemma insert_all_merges:
  assumes "accepting ti vs s" "\<forall>row \<in> set rows. change_ok ti vs col s (change_of cv row)" "rows \<noteq> []"
  shows "\<exists>dc. insert_all cv False rows acc s = ((SQLITE_DONE, dc), merge_all (map (change_of cv) rows) s)"
  using assms
proof (induction rows arbitrary: acc s)
  case (Cons row rows)
  obtain r' s' where s': "cloudsync_merge_insert (change_of cv row) 0 s = ((0, r'), s')" "accepting ti vs s'"
    "\<And>c'. change_ok ti vs col s c' \<Longrightarrow> change_ok ti vs col s' c'"
    "stamp_of ti vs col s' = stamps.keep_greater (stamp_of ti vs col s) (change_stamp (change_of cv row))"
    using merge_refines [OF Cons.prems(1), of col "change_of cv row" 0] Cons.prems(2) by auto
  have f: "faults s = []" using Cons.prems(1) by (simp add: accepting_def ready_def)
  have i: "changes_insert cv False row s = (SQLITE_DONE, s')"
    using s'(1) f by (simp add: changes_insert_def cloudsync_changesvtab_update_def)
  show ?case
  proof (cases "rows = []")
    case False
    then show ?thesis using Cons.IH [OF s'(2), of "(SQLITE_DONE, row_context row (snd acc))"] Cons.prems(2) s'(1,3) i by simp
  qed (use i s'(1) in simp)
qed simp

interpretation rows_kept: frame "\<lambda>s. (c_tables s, d_meta (db s), d_users (db s)) = x" for x
  by unfold_locales simp

lemma set_key_value_rows:
  "c_tables (snd (dbutils_settings_set_key_value k v s)) = c_tables s \<and>
   d_meta (db (snd (dbutils_settings_set_key_value k v s))) = d_meta (db s) \<and>
   d_users (db (snd (dbutils_settings_set_key_value k v s))) = d_users (db s)"
proof -
  have w: "(c_tables (snd (dbutils_write l n f s)), d_meta (db (snd (dbutils_write l n f s))), d_users (db (snd (dbutils_write l n f s)))) =
      (c_tables s, d_meta (db s), d_users (db s))"
    if "\<And>d. d_meta (f d) = d_meta d \<and> d_users (f d) = d_users d" for l n f
    by (rule rows_kept.write_keeps) (simp_all add: that)
  have y: "c_tables (cloudsync_sync_key k v s1) = c_tables s1 \<and> db (cloudsync_sync_key k v s1) = db s1" for s1
    by (simp add: cloudsync_sync_key_def split: option.split)
  show ?thesis
    using w [of "replace_setting k x" l n for x l n] w [of "delete_setting k" l n for l n] y
    by (auto simp: dbutils_settings_set_key_value_def replace_setting_def delete_setting_def split_beta split: option.split)
qed

lemma remember_position_rows:
  "c_tables (remember_position v q dc s) = c_tables s \<and> d_meta (db (remember_position v q dc s)) = d_meta (db s) \<and>
   d_users (db (remember_position v q dc s)) = d_users (db s)"
  by (simp add: remember_position_def Let_def set_key_value_rows)

lemma stamp_of_cong:
  "c_tables s' = c_tables s \<Longrightarrow> d_meta (db s') = d_meta (db s) \<Longrightarrow> d_users (db s') = d_users (db s) \<Longrightarrow>
   stamp_of ti vs col s' = stamp_of ti vs col s"
  by (simp add: stamp_of_def meta_table_of_def meta_of_def tbl_def real_col_value_def row_of_def user_table_of_def
      split: option.split)


lemma payload_demo_change: "change_of plain_conversions (payload_demo_row n) = merge_change 1 1 (VInteger n)"
proof -
  have c: "map (\<lambda>b. char_of (unat b)) (cstr [116]) = ''t''" "map (\<lambda>b. char_of (unat b)) (cstr [99]) = ''c''" by code_simp+
  show ?thesis
    by (simp add: change_of_def payload_demo_row_def merge_change_def value_text_def value_int64_def value_blob_def c)
qed

lemma payload_demo_accepting:
  "accepting 0 [VText [97]] (merge_demo\<lparr>c_schema_hash := 7\<rparr>)"
  "change_ok 0 [VText [97]] ''c'' (merge_demo\<lparr>c_schema_hash := 7\<rparr>) (change_of plain_conversions (payload_demo_row n))"
proof -
  let ?s = "merge_demo\<lparr>c_schema_hash := 7\<rparr>"
  have same: "tbl ?s 0 = tbl merge_demo 0" "meta_table_of ?s 0 = meta_table_of merge_demo 0"
    "table_lookup m ?s = table_lookup m merge_demo" for m
    by (simp_all add: tbl_def meta_table_of_def table_lookup_def)
  show "accepting 0 [VText [97]] ?s"
    using merge_demo_accepting by (simp add: accepting_def ready_def same synced_def)
  show "change_ok 0 [VText [97]] ''c'' ?s (change_of plain_conversions (payload_demo_row n))"
    using merge_change_ok [of "VInteger n" 1 1] by (simp add: payload_demo_change change_ok_def same)
qed

lemma payload_demo_encoded:
  assumes "rows \<noteq> []" "\<forall>row \<in> set rows. wf_row row" "length (row_bytes rows) < 2 ^ 31"
  obtains blob p where "cloudsync_payload_encode_final (\<lambda>_. True) mirror_lz4 hash (encode_rows (\<lambda>_. True) rows) =
    Some (ResValue (VBlob blob), p)"
proof -
  have "[] \<notin> set rows" using assms(2) by (auto simp: wf_row_def)
  then show ?thesis
    using encode_fields [of "\<lambda>_. True" rows] assms(1,3) that by (simp add: cloudsync_payload_encode_final_def Let_def)
qed


text \<open>Only the last row decides what the caller is told: when its insert succeeds the payload counts as applied and
  its position is remembered, whatever happened to the rows before it.\<close>

theorem payload_reports_last_row:
  assumes rows: "\<forall>row \<in> set (rows @ [last_row]). wf_row row" "length (row_bytes (rows @ [last_row])) < 2 ^ 31" "\<forall>n. alloc n"
    and z: "lz4_ok z" and s: "faults s = []" "c_schema_hash s = hash"
    and enc: "cloudsync_payload_encode_final alloc z hash (encode_rows alloc (rows @ [last_row])) = Some (ResValue (VBlob blob), p)"
    and run: "insert_all cv auto rows (SQLITE_OK, empty_decode_context) s = ((rc, dc), s1)"
      "changes_insert cv auto last_row s1 = (SQLITE_DONE, s2)"
  shows "cloudsync_payload_decode cv auto alloc z None x (VBlob blob) s =
    (ResInt (int (length rows + 1)), remember_position (fst (dbutils_settings_get_int_value ''check_dbversion'' s))
       (fst (dbutils_settings_get_int_value ''check_seq'' s)) (row_context last_row dc) s2)"
proof -
  have "insert_all cv auto (rows @ [r]) acc s = (case insert_all cv auto rows acc s of ((rc, dc), s) \<Rightarrow>
      case changes_insert cv auto r s of (rc, s) \<Rightarrow> ((rc, row_context r dc), s))" for r acc s
    by (induction rows arbitrary: acc s) (auto split: prod.split)
  then have "insert_all cv auto (rows @ [last_row]) (SQLITE_OK, empty_decode_context) s =
      ((SQLITE_DONE, row_context last_row dc), s2)"
    using run by simp
  then show ?thesis using payload_decode_rows [OF _ rows z s enc, of cv auto x] by (simp add: report_def)
qed

theorem payload_reports_last_row_witness:
  "\<exists>blob. map_option fst (cloudsync_payload_encode_final (\<lambda>_. True) mirror_lz4 7
       (encode_rows (\<lambda>_. True) [(payload_demo_row 5)[0 := VText [120]], payload_demo_row 6])) = Some (ResValue (VBlob blob)) \<and>
     fst (changes_insert plain_conversions False ((payload_demo_row 5)[0 := VText [120]]) (merge_demo\<lparr>c_schema_hash := 7\<rparr>)) = SQLITE_ERROR \<and>
     fst (cloudsync_payload_decode plain_conversions False (\<lambda>_. True) mirror_lz4 None ()
       (VBlob blob) (merge_demo\<lparr>c_schema_hash := 7\<rparr>)) = ResInt 2"
proof -
  let ?bad = "(payload_demo_row 5)[0 := VText [120]]" and ?s = "merge_demo\<lparr>c_schema_hash := 7\<rparr>"
  let ?rows = "[?bad] @ [payload_demo_row 6]"
  have wf: "\<forall>row \<in> set ?rows. wf_row row"
    using payload_demo_row_wf [of 5] payload_demo_row_wf [of 6] by (auto simp: wf_row_def payload_demo_row_def)
  have len: "length (row_bytes ?rows) = 52" by code_simp
  obtain blob p where enc: "cloudsync_payload_encode_final (\<lambda>_. True) mirror_lz4 7 (encode_rows (\<lambda>_. True) ?rows) =
      Some (ResValue (VBlob blob), p)"
    using payload_demo_encoded [OF _ wf, of 7] len by auto
  have f: "faults ?s = []" using merge_demo_accepting by (simp add: accepting_def ready_def)
  have "table_lookup (value_text plain_conversions (VText [120])) ?s = None" by code_simp
  then have bad: "changes_insert plain_conversions False ?bad ?s = (SQLITE_ERROR, ?s)"
    using f by (simp add: changes_insert_def cloudsync_changesvtab_update_def change_of_def payload_demo_row_def
        cloudsync_merge_insert_def)
  have "\<exists>dc s2. insert_all plain_conversions False [payload_demo_row 6] (SQLITE_OK, empty_decode_context) ?s = ((SQLITE_DONE, dc), s2)"
    using insert_all_merges [OF payload_demo_accepting(1), of "[payload_demo_row 6]" "''c''" plain_conversions
        "(SQLITE_OK, empty_decode_context)"] payload_demo_accepting(2)
    by (metis empty_iff empty_set list.distinct(1) set_ConsD)
  then have "fst (changes_insert plain_conversions False (payload_demo_row 6) ?s) = SQLITE_DONE" by (auto split: prod.splits)
  then obtain s2 where good: "changes_insert plain_conversions False (payload_demo_row 6) ?s = (SQLITE_DONE, s2)"
    by (metis prod.collapse)
  have run: "insert_all plain_conversions False [?bad] (SQLITE_OK, empty_decode_context) ?s =
      ((SQLITE_ERROR, row_context ?bad empty_decode_context), ?s)"
    by (simp only: insert_all.simps bad prod.case snd_conv)
  have hash: "c_schema_hash ?s = 7" by simp
  have "length (row_bytes ?rows) < 2 ^ 31" unfolding len by simp
  note res = payload_reports_last_row [OF wf this _ mirror_lz4_ok f hash enc run good, of "()"]
  have "fst (cloudsync_payload_decode plain_conversions False (\<lambda>_. True) mirror_lz4 None () (VBlob blob) ?s) = ResInt 2"
    by (subst res) simp_all
  moreover have "map_option fst (cloudsync_payload_encode_final (\<lambda>_. True) mirror_lz4 7 (encode_rows (\<lambda>_. True) [?bad, payload_demo_row 6])) =
      Some (ResValue (VBlob blob))"
    using enc by simp
  ultimately show ?thesis unfolding bad fst_conv by blast
qed

text \<open>C31. A payload that is refused before its rows are read (not a blob, too short, unknown schema hash, wrong signature or
  no columns, no memory, a text that does not expand) leaves everything as it was, except for the failures of the
  engine that were used up.\<close>

theorem refused_payload_changes_nothing:
  assumes "cloudsync_payload_decode cv auto alloc z cb x v s = (ResError rc, s')"
    and "\<forall>payload. v = VBlob payload \<longrightarrow>
      h_signature (header_of payload) \<noteq> CLOUDSYNC_PAYLOAD_SIGNATURE \<or> h_ncols (header_of payload) = 0 \<or>
      rc = SQLITE_MISMATCH \<or> rc = SQLITE_NOMEM \<or> length payload < HEADER_SIZE \<or>
      (h_expanded_size (header_of payload) \<noteq> 0 \<and>
       map_option length (LZ4_decompress_safe z (drop HEADER_SIZE payload) (unat (h_expanded_size (header_of payload)))) \<noteq>
         Some (unat (h_expanded_size (header_of payload))))"
  shows "same s s'"
proof (cases v)
  case (VBlob payload)
  let ?h = "header_of payload"
  obtain known s1 where k: "(if h_schema_hash ?h \<noteq> c_schema_hash s then dbutils_check_schema_hash (h_schema_hash ?h) s else (True, s)) = (known, s1)"
    by fastforce
  have "same s (snd (dbutils_check_schema_hash (h_schema_hash ?h) s))"
    unfolding dbutils_check_schema_hash_def by (intro keeps same_refl)
  then have s1: "same s s1" using k by (auto split: if_splits)
  have exp: "rc \<noteq> SQLITE_MISMATCH \<and> rc \<noteq> SQLITE_NOMEM" if "apply_expanded cv auto cb x ?h buf s1 = (ResError rc, s')" for buf
    using that by (auto simp: apply_expanded_def split: prod.splits if_splits)
  show ?thesis
    using assms VBlob k s1 exp
    by (auto simp: cloudsync_payload_decode_def cloudsync_payload_apply_def Let_def split: if_splits option.splits)
qed (use assms in \<open>simp_all add: cloudsync_payload_decode_def\<close>)

theorem refused_payload_changes_nothing_witness:
  "same merge_demo (snd (cloudsync_payload_decode plain_conversions False (\<lambda>_. True) mirror_lz4 None () (VBlob [1, 2]) merge_demo))"
  by (rule refused_payload_changes_nothing [of plain_conversions False "\<lambda>_. True" mirror_lz4 None "()" "VBlob [1, 2]" merge_demo SQLITE_MISUSE])
    (simp_all add: cloudsync_payload_decode_def)

end
