(* ===== verification/Transport.thy ===== *)
theory Transport
  imports Payload
begin

text \<open>
  The transport under the network functions (src/src/network.c): the buffer that curl fills, the reader of an
  upload, requests and their results, the parameters of the connection string and the endpoints.

  curl is an argument. \<open>http\<close> answers a request: \<open>None\<close> when curl cannot be initialised, otherwise the result code, the
  chunks of the body as they arrive, the status and the text of an error; \<open>put\<close> says whether an upload succeeds;
  \<open>parse_url\<close> gives the parts of a URL or curl's error code. Both requests thread the state \<open>'w\<close> of the world.
\<close>

section \<open>Receiving\<close>

text \<open>\<open>nb_bytes\<close> are the \<open>bused\<close> bytes; \<open>nb_outside\<close> is set when a byte is written behind the allocated ones.\<close>

record network_buffer =
  nb_bytes :: "byte list"
  nb_balloc :: nat
  nb_zero_term :: bool
  nb_outside :: bool

abbreviation (input) CLOUDSYNC_NETWORK_MINBUF_SIZE :: nat where "CLOUDSYNC_NETWORK_MINBUF_SIZE \<equiv> 512"
abbreviation (input) CURLE_WRITE_ERROR :: int where "CURLE_WRITE_ERROR \<equiv> 23"

definition network_buffer_check :: "(nat \<Rightarrow> bool) \<Rightarrow> network_buffer \<Rightarrow> nat \<Rightarrow> bool \<times> network_buffer" where
  "network_buffer_check alloc data needed =
     (if length (nb_bytes data) + needed > nb_balloc data then
        let needed = (if needed < CLOUDSYNC_NETWORK_MINBUF_SIZE then CLOUDSYNC_NETWORK_MINBUF_SIZE else needed);
            balloc = nb_balloc data + needed
        in if \<not> alloc balloc then (False, data) else (True, data\<lparr>nb_balloc := balloc\<rparr>)
      else (True, data))"

text \<open>The result is the number of bytes taken; \<open>None\<close> stands for \<open>(size_t) -1\<close>.\<close>

definition network_receive_callback :: "(nat \<Rightarrow> bool) \<Rightarrow> byte list \<Rightarrow> network_buffer \<Rightarrow> nat option \<times> network_buffer" where
  "network_receive_callback alloc chunk data =
     (case network_buffer_check alloc data (length chunk + (if nb_zero_term data then 1 else 0)) of
        (False, data) \<Rightarrow> (None, data)
      | (True, data) \<Rightarrow>
          let data = data\<lparr>nb_bytes := nb_bytes data @ chunk\<rparr>;
              last = length (nb_bytes data) + (if nb_zero_term data then 1 else 0)
          in (Some (length chunk), data\<lparr>nb_outside := (nb_outside data \<or> nb_balloc data < last)\<rparr>))"

text \<open>curl calls it for each chunk and stops with a write error when it takes less than it was given.\<close>

fun receive_chunks :: "(nat \<Rightarrow> bool) \<Rightarrow> byte list list \<Rightarrow> network_buffer \<Rightarrow> bool \<times> network_buffer" where
  "receive_chunks alloc [] data = (True, data)"
| "receive_chunks alloc (chunk # chunks) data =
     (case network_receive_callback alloc chunk data of
        (None, data) \<Rightarrow> (False, data) | (Some _, data) \<Rightarrow> receive_chunks alloc chunks data)"

datatype network_code = CLOUDSYNC_NETWORK_OK | CLOUDSYNC_NETWORK_ERROR | CLOUDSYNC_NETWORK_BUFFER

record network_result =
  nr_code :: network_code
  nr_buffer :: "byte list option"
  nr_blen :: int

record request =
  rq_url :: string
  rq_headers :: "string list"
  rq_post :: bool
  rq_json :: "string option"

record response =
  rs_rc :: int
  rs_chunks :: "byte list list"
  rs_status :: int
  rs_error :: "byte list"

type_synonym 'w http = "request \<Rightarrow> 'w \<Rightarrow> response option \<times> 'w"
type_synonym 'w put = "request \<Rightarrow> byte list \<Rightarrow> 'w \<Rightarrow> bool \<times> 'w"

text \<open>The authorization header is written into 4096 bytes.\<close>

definition auth_header :: "string \<Rightarrow> string" where
  "auth_header authentication = take 4095 (''Authorization: Bearer '' @ authentication)"

definition request_headers :: "string option \<Rightarrow> string option \<Rightarrow> string option \<Rightarrow> string list" where
  "request_headers custom_header authentication json_payload =
     (case custom_header of Some h \<Rightarrow> [h] | None \<Rightarrow> []) @
     (case authentication of None \<Rightarrow> []
      | Some a \<Rightarrow> auth_header a # (if json_payload \<noteq> None then [''Content-Type: application/json''] else []))"

definition network_receive_buffer ::
  "(nat \<Rightarrow> bool) \<Rightarrow> 'w http \<Rightarrow> string \<Rightarrow> string option \<Rightarrow> bool \<Rightarrow> bool \<Rightarrow> string option \<Rightarrow> string option \<Rightarrow> 'w \<Rightarrow>
   network_result \<times> 'w" where
  "network_receive_buffer alloc http endpoint authentication zero_terminated is_post_request json_payload custom_header w =
     (case http \<lparr>rq_url = endpoint, rq_headers = request_headers custom_header authentication json_payload,
          rq_post = (json_payload \<noteq> None \<or> is_post_request), rq_json = json_payload\<rparr> w of
        (None, w) \<Rightarrow> (\<lparr>nr_code = CLOUDSYNC_NETWORK_ERROR, nr_buffer = None, nr_blen = 0\<rparr>, w)
      | (Some r, w) \<Rightarrow>
        (case receive_chunks alloc (rs_chunks r)
            \<lparr>nb_bytes = [], nb_balloc = 0, nb_zero_term = zero_terminated, nb_outside = False\<rparr> of (ok, data) \<Rightarrow>
         let rc = (if ok then rs_rc r else CURLE_WRITE_ERROR);
             buffer = (if rc = 0 \<and> nb_balloc data \<noteq> 0 then Some (nb_bytes data) else None);
             blen = (if rc = 0 then int (length (nb_bytes data)) else 0)
         in (if rc = 0 \<and> rs_status r < 400 then
               \<lparr>nr_code = (if buffer \<noteq> None \<and> blen \<noteq> 0 then CLOUDSYNC_NETWORK_BUFFER else CLOUDSYNC_NETWORK_OK),
                nr_buffer = buffer, nr_blen = blen\<rparr>
             else
               \<lparr>nr_code = CLOUDSYNC_NETWORK_ERROR,
                nr_buffer = (if buffer \<noteq> None then buffer
                             else if rs_error r \<noteq> [] then Some (rs_error r) else None),
                nr_blen = (if buffer \<noteq> None then blen else rc)\<rparr>, w)))"

section \<open>Sending\<close>

text \<open>The bytes copied and the new position.\<close>

definition network_read_callback :: "nat \<Rightarrow> byte list \<Rightarrow> nat \<Rightarrow> byte list \<times> nat" where
  "network_read_callback max_read data read_pos =
     (let bytes_left = length data - read_pos;
          to_copy = (if bytes_left < max_read then bytes_left else max_read)
      in (take to_copy (drop read_pos data), read_pos + to_copy))"

text \<open>The reads of one upload, with the sizes curl asks for.\<close>

fun upload_reads :: "nat list \<Rightarrow> byte list \<Rightarrow> nat \<Rightarrow> byte list" where
  "upload_reads [] data read_pos = []"
| "upload_reads (n # ns) data read_pos =
     (case network_read_callback n data read_pos of (bs, pos) \<Rightarrow> bs @ upload_reads ns data pos)"

text \<open>The authorization header takes the token of the context whenever an authentication is asked for.\<close>

definition network_send_buffer ::
  "'w put \<Rightarrow> string option \<Rightarrow> string \<Rightarrow> string option \<Rightarrow> byte list \<Rightarrow> 'w \<Rightarrow> bool \<times> 'w" where
  "network_send_buffer put data_authentication endpoint authentication blob w =
     put \<lparr>rq_url = endpoint,
          rq_headers = [''Accept: text/plain''] @
            (if authentication \<noteq> None then [auth_header (case data_authentication of Some a \<Rightarrow> a | None \<Rightarrow> ''(null)'')] else []) @
            [''Content-Type: application/octet-stream''],
          rq_post = False, rq_json = None\<rparr> blob w"

section \<open>Results\<close>

text \<open>The value or error given to SQLite, and the return code.\<close>

definition network_set_sqlite_result :: "network_result \<Rightarrow> sql_result \<times> int" where
  "network_set_sqlite_result r =
     (case nr_code r of
        CLOUDSYNC_NETWORK_OK \<Rightarrow> (ResInt 0, 0)
      | CLOUDSYNC_NETWORK_ERROR \<Rightarrow> (ResError SQLITE_ERROR, -1)
      | CLOUDSYNC_NETWORK_BUFFER \<Rightarrow> (ResValue (VText (the (nr_buffer r))), c_int (nr_blen r)))"

section \<open>The connection string\<close>

definition network_authentication_token :: "(nat \<Rightarrow> bool) \<Rightarrow> string \<Rightarrow> string \<Rightarrow> string option" where
  "network_authentication_token alloc key v =
     (if alloc (length key + length v + 64) then Some v else None)"

text \<open>
  \<open>network_extract_query_param\<close>: the value, or the negative result code. \<open>p\<close> is the string behind the pointer of the loop.
\<close>

function extract_param :: "string \<Rightarrow> string \<Rightarrow> nat \<Rightarrow> int + string" where
  "extract_param key p output_size =
     (if p = [] \<or> CHR ''='' \<notin> set p then Inl (-3)
      else if takeWhile (\<lambda>c. c \<noteq> CHR ''='') p = key then
        (let v = takeWhile (\<lambda>c. c \<noteq> CHR ''&'') (tl (dropWhile (\<lambda>c. c \<noteq> CHR ''='') p))
         in if output_size \<le> length v then Inl (-2) else Inr v)
      else (case dropWhile (\<lambda>c. c \<noteq> CHR ''&'') p of [] \<Rightarrow> Inl (-3) | _ # q \<Rightarrow> extract_param key q output_size))"
  by pat_completeness auto

termination
proof (relation "measure (\<lambda>(_, p, _). length p)")
  fix key p :: string and n x q
  assume "dropWhile (\<lambda>c. c \<noteq> CHR ''&'') p = x # q"
  then have "length (x # q) \<le> length p" using length_dropWhile_le by metis
  then show "((key, q, n), key, p, n) \<in> measure (\<lambda>(_, p, _). length p)" by simp
qed simp

declare extract_param.simps [simp del]

definition network_extract_query_param :: "string option \<Rightarrow> string option \<Rightarrow> nat \<Rightarrow> int + string" where
  "network_extract_query_param query key output_size =
     (case (query, key) of
        (Some q, Some k) \<Rightarrow> if output_size = 0 then Inl (-1) else extract_param k q output_size
      | _ \<Rightarrow> Inl (-1))"

section \<open>The endpoints\<close>

record network_data =
  nd_site_id :: string
  nd_authentication :: "string option"
  nd_check_endpoint :: "string option"
  nd_upload_endpoint :: "string option"

definition empty_network_data :: network_data where
  "empty_network_data = \<lparr>nd_site_id = [], nd_authentication = None, nd_check_endpoint = None, nd_upload_endpoint = None\<rparr>"

record url_parts =
  up_scheme :: string
  up_host :: string
  up_port :: "string option"
  up_path :: string
  up_query :: "string option"

definition query_authentication :: "(nat \<Rightarrow> bool) \<Rightarrow> string option \<Rightarrow> string option" where
  "query_authentication alloc query =
     (case network_extract_query_param query (Some ''apikey'') 256 of
        Inr v \<Rightarrow>
          (case network_authentication_token alloc ''apikey'' v of
             Some t \<Rightarrow> Some t
           | None \<Rightarrow> (case network_extract_query_param query (Some ''token'') 256 of
               Inr v \<Rightarrow> network_authentication_token alloc ''token'' v | Inl _ \<Rightarrow> None))
      | Inl _ \<Rightarrow> (case network_extract_query_param query (Some ''token'') 256 of
               Inr v \<Rightarrow> network_authentication_token alloc ''token'' v | Inl _ \<Rightarrow> None))"

definition endpoint_text :: "url_parts \<Rightarrow> string \<Rightarrow> string" where
  "endpoint_text u site_id =
     up_scheme u @ ''://'' @ up_host u @ '':'' @
     (case up_port u of Some p \<Rightarrow> if p \<noteq> ''8860'' then p else ''443'' | None \<Rightarrow> ''443'') @ ''/'' @ ''v1/cloudsync'' @ up_path u @
     ''/'' @ site_id"

definition endpoint_size :: "url_parts \<Rightarrow> nat" where
  "endpoint_size u =
     length (up_scheme u) + length (up_host u) +
     length (case up_port u of Some p \<Rightarrow> if p \<noteq> ''8860'' then p else ''443'' | None \<Rightarrow> ''443'') +
     length ''v1/cloudsync'' + length (up_path u) + 64"

text \<open>
  \<open>network_compute_endpoints\<close>: \<open>None\<close> on success, otherwise the error code for SQLite. Without memory for the connection
  string curl is given a NULL pointer. Texts are cut at the size of their buffer.
\<close>

definition network_compute_endpoints ::
  "(nat \<Rightarrow> bool) \<Rightarrow> (string option \<Rightarrow> int + url_parts) \<Rightarrow> string \<Rightarrow> network_data \<Rightarrow> int option \<times> network_data" where
  "network_compute_endpoints alloc parse_url conn_string data =
     (case parse_url (cloudsync_string_replace_prefix alloc conn_string ''sqlitecloud://'' ''https://'') of
        Inl _ \<Rightarrow> (Some SQLITE_ERROR, data)
      | Inr u \<Rightarrow>
        let authentication = query_authentication alloc (up_query u); requested = endpoint_size u in
        if \<not> alloc requested then (Some SQLITE_NOMEM, data)
        else
         (None, data\<lparr>nd_authentication := (if authentication \<noteq> None then authentication else nd_authentication data),
            nd_check_endpoint := Some (take (requested - 1) (endpoint_text u (nd_site_id data))),
            nd_upload_endpoint := Some (take (requested - 1) (endpoint_text u (nd_site_id data) @ ''/'' @ ''upload''))\<rparr>))"

section \<open>What receiving and sending do\<close>

lemma network_buffer_check_ok:
  assumes "\<forall>n. alloc n"
  obtains m where "network_buffer_check alloc data n = (True, data\<lparr>nb_balloc := m\<rparr>)"
    "length (nb_bytes data) \<le> nb_balloc data \<Longrightarrow> length (nb_bytes data) + n \<le> m"
proof -
  let ?m = "if length (nb_bytes data) + n > nb_balloc data then nb_balloc data + (if n < 512 then 512 else n) else nb_balloc data"
  show ?thesis by (rule that [of ?m]) (use assms in \<open>auto simp: network_buffer_check_def Let_def\<close>)
qed

lemma receive_chunks_fields:
  assumes "\<forall>n. alloc n" "\<not> nb_outside data" "length (nb_bytes data) \<le> nb_balloc data"
  shows "fst (receive_chunks alloc chunks data) \<and>
    nb_bytes (snd (receive_chunks alloc chunks data)) = nb_bytes data @ concat chunks \<and>
    \<not> nb_outside (snd (receive_chunks alloc chunks data)) \<and>
    nb_balloc (snd (receive_chunks alloc chunks data)) \<ge> length (nb_bytes data @ concat chunks)"
  using assms(2,3)
proof (induction chunks arbitrary: data)
  case (Cons chunk chunks)
  let ?n = "length chunk + (if nb_zero_term data then 1 else 0)"
  obtain m where m: "network_buffer_check alloc data ?n = (True, data\<lparr>nb_balloc := m\<rparr>)" "length (nb_bytes data) + ?n \<le> m"
    using network_buffer_check_ok [OF assms(1), of data ?n] Cons.prems(2) by metis
  let ?data = "data\<lparr>nb_balloc := m, nb_bytes := nb_bytes data @ chunk\<rparr>"
  have c: "network_receive_callback alloc chunk data = (Some (length chunk), ?data)"
    using m Cons.prems(1) by (simp add: network_receive_callback_def Let_def split: if_splits)
  show ?case using Cons.IH [of ?data] c m(2) Cons.prems(1) by simp
qed simp

text \<open>C32. Whatever pieces the body of a response arrives in, the buffer ends with all of them in order and no byte, the
  final NUL included, was written outside it.\<close>

theorem receive_collects_body:
  assumes "\<forall>n. alloc n"
    and "receive_chunks alloc chunks \<lparr>nb_bytes = [], nb_balloc = 0, nb_zero_term = z, nb_outside = False\<rparr> = (ok, data)"
  shows "ok \<and> nb_bytes data = concat chunks \<and> \<not> nb_outside data"
  using receive_chunks_fields [OF assms(1), of "\<lparr>nb_bytes = [], nb_balloc = 0, nb_zero_term = z, nb_outside = False\<rparr>" chunks]
    assms(2) by simp

theorem receive_collects_body_witness:
  "nb_bytes (snd (receive_chunks (\<lambda>_. True) [[1, 2], [], [3]]
     \<lparr>nb_bytes = [], nb_balloc = 0, nb_zero_term = True, nb_outside = False\<rparr>)) = [1, 2, 3]"
  using receive_collects_body [of "\<lambda>_. True" "[[1, 2], [], [3]]" True] by (metis concat.simps append.simps prod.collapse)

lemma upload_reads_take:
  "read_pos \<le> length data \<Longrightarrow> upload_reads ns data read_pos = take (sum_list ns) (drop read_pos data)"
proof (induction ns arbitrary: read_pos)
  case (Cons n ns)
  let ?k = "if length data - read_pos < n then length data - read_pos else n"
  have "upload_reads ns data (read_pos + ?k) = take (sum_list ns) (drop (read_pos + ?k) data)"
    using Cons.prems by (intro Cons.IH) (auto simp: not_less)
  moreover have "take ?k (drop read_pos data) @ take (sum_list ns) (drop (read_pos + ?k) data) =
      take (n + sum_list ns) (drop read_pos data)"
    using Cons.prems by (cases "length data - read_pos < n") (auto simp: take_add add.commute)
  ultimately show ?case by (simp add: network_read_callback_def Let_def)
qed simp

text \<open>However curl sizes its reads, an upload sends the bytes of the blob in order, once, and all of them when enough
  is asked for.\<close>

theorem upload_sends_blob:
  assumes "length blob \<le> sum_list ns"
  shows "upload_reads ns blob 0 = blob"
  using upload_reads_take [of 0 blob ns] assms by simp

theorem upload_sends_blob_witness: "upload_reads [2, 0, 2, 2] [1, 2, 3, 4, 5] 0 = [1, 2, 3, 4, 5]"
  by (rule upload_sends_blob) simp

section \<open>Query parameters\<close>

text \<open>The meaning of a query string: parameters between \<open>&\<close>, each a name, \<open>=\<close> and a value.\<close>

fun split_on :: "'a \<Rightarrow> 'a list \<Rightarrow> 'a list list" where
  "split_on c [] = [[]]"
| "split_on c (x # xs) =
     (if x = c then [] # split_on c xs
      else case split_on c xs of [] \<Rightarrow> [[x]] | p # ps \<Rightarrow> (x # p) # ps)"

definition param_name :: "string \<Rightarrow> string option" where
  "param_name p = (if CHR ''='' \<in> set p then Some (takeWhile (\<lambda>c. c \<noteq> CHR ''='') p) else None)"

definition param_value :: "string \<Rightarrow> string" where
  "param_value p = tl (dropWhile (\<lambda>c. c \<noteq> CHR ''='') p)"

definition lookup_param :: "string \<Rightarrow> string \<Rightarrow> nat \<Rightarrow> int + string" where
  "lookup_param key query output_size =
     (case List.find (\<lambda>p. param_name p = Some key) (split_on (CHR ''&'') query) of
        None \<Rightarrow> Inl (-3)
      | Some p \<Rightarrow> if output_size \<le> length (param_value p) then Inl (-2) else Inr (param_value p))"

lemma split_on_ne [simp]: "split_on c xs \<noteq> []"
  by (induction xs) (auto split: list.split)

lemma split_on_step:
  "split_on c xs = takeWhile (\<lambda>x. x \<noteq> c) xs #
     (case dropWhile (\<lambda>x. x \<noteq> c) xs of [] \<Rightarrow> [] | _ # ys \<Rightarrow> split_on c ys)"
  by (induction xs) auto

lemma in_split_on: "p \<in> set (split_on c xs) \<Longrightarrow> set p \<subseteq> set xs"
  by (induction xs arbitrary: p) (fastforce split: if_splits list.splits)+

lemma takeWhile_first:
  "b \<in> set (takeWhile (\<lambda>x. x \<noteq> c) xs) \<Longrightarrow>
   takeWhile (\<lambda>x. x \<noteq> b) (takeWhile (\<lambda>x. x \<noteq> c) xs) = takeWhile (\<lambda>x. x \<noteq> b) xs \<and>
   tl (dropWhile (\<lambda>x. x \<noteq> b) (takeWhile (\<lambda>x. x \<noteq> c) xs)) = takeWhile (\<lambda>x. x \<noteq> c) (tl (dropWhile (\<lambda>x. x \<noteq> b) xs))"
  by (induction xs) (auto split: if_splits)

lemma takeWhile_not_first:
  "b \<in> set xs \<Longrightarrow> b \<notin> set (takeWhile (\<lambda>x. x \<noteq> c) xs) \<Longrightarrow> b \<noteq> c \<Longrightarrow> c \<in> set (takeWhile (\<lambda>x. x \<noteq> b) xs)"
  by (induction xs) (auto split: if_splits)

text \<open>C28. The search through the query string finds the first parameter of exactly that name, for names without the two
  separators.\<close>

theorem query_param_lookup:
  assumes "CHR ''&'' \<notin> set key" "CHR ''='' \<notin> set key"
  shows "extract_param key query output_size = lookup_param key query output_size"
using assms
proof (induction key query output_size rule: extract_param.induct)
  case (1 key p n)
  let ?amp = "\<lambda>c. c \<noteq> CHR ''&''" and ?eq = "\<lambda>c. c \<noteq> CHR ''=''"
  let ?x = "takeWhile ?amp p"
  let ?rest = "case dropWhile ?amp p of [] \<Rightarrow> [] | _ # q \<Rightarrow> split_on (CHR ''&'') q"
  have parts: "split_on (CHR ''&'') p = ?x # ?rest" by (rule split_on_step)
  show ?case
  proof (cases "CHR ''='' \<in> set p")
    case False
    then have "List.find (\<lambda>q. param_name q = Some key) (split_on (CHR ''&'') p) = None"
      using in_split_on [of _ "CHR ''&''" p] by (fastforce simp: find_None_iff param_name_def split: if_splits)
    then show ?thesis using False by (subst extract_param.simps) (simp add: lookup_param_def)
  next
    case eq: True
    then have ne: "p \<noteq> []" by auto
    show ?thesis
    proof (cases "takeWhile ?eq p = key")
      case True
      have "CHR ''='' \<in> set ?x"
        using takeWhile_not_first [OF eq, of "CHR ''&''"] True "1.prems"(1) by auto
      then have pn: "param_name ?x = Some key" and pv: "param_value ?x = takeWhile ?amp (tl (dropWhile ?eq p))"
        using takeWhile_first [of "CHR ''=''" "CHR ''&''" p] True by (simp_all add: param_name_def param_value_def)
      have "lookup_param key p n = (if n \<le> length (param_value ?x) then Inl (-2) else Inr (param_value ?x))"
        unfolding lookup_param_def parts by (simp add: pn)
      then show ?thesis unfolding pv
        using eq ne True by (auto simp only: extract_param.simps [of key p n] if_False if_True Let_def simp_thms)
    next
      case False
      have other: "param_name ?x \<noteq> Some key"
        using takeWhile_first [of "CHR ''=''" "CHR ''&''" p] False by (auto simp: param_name_def)
      have find: "lookup_param key p n =
          (case dropWhile ?amp p of [] \<Rightarrow> Inl (-3) | _ # q \<Rightarrow> lookup_param key q n)"
      proof -
        let ?found = "\<lambda>ps. case List.find (\<lambda>p. param_name p = Some key) ps of None \<Rightarrow> Inl (-3)
          | Some p \<Rightarrow> if n \<le> length (param_value p) then Inl (-2) else Inr (param_value p)"
        have "?found (?x # (case w of [] \<Rightarrow> [] | _ # q \<Rightarrow> split_on (CHR ''&'') q)) =
            (case w of [] \<Rightarrow> Inl (-3) | _ # q \<Rightarrow> ?found (split_on (CHR ''&'') q))" for w
          using other by (cases w) simp_all
        then show ?thesis unfolding lookup_param_def parts .
      qed
      show ?thesis
      proof (cases "dropWhile ?amp p")
        case Nil
        show ?thesis unfolding find extract_param.simps [of key p n] Nil using eq ne False by simp
      next
        case (Cons c q)
        have "extract_param key q n = lookup_param key q n"
          using "1.IH" [OF _ False Cons] "1.prems" eq ne by blast
        then show ?thesis unfolding find extract_param.simps [of key p n] Cons using eq ne False by simp
      qed
    qed
  qed
qed

theorem query_param_lookup_witness:
  "extract_param ''token'' ''x&mytoken=1&token=ab&token=c'' 256 = lookup_param ''token'' ''x&mytoken=1&token=ab&token=c'' 256 \<and>
   lookup_param ''token'' ''x&mytoken=1&token=ab&token=c'' 256 = Inr ''ab''"
proof -
  have "lookup_param ''token'' ''x&mytoken=1&token=ab&token=c'' 256 = Inr ''ab''" by code_simp
  then show ?thesis using query_param_lookup [of "''token''"] by simp
qed

section \<open>The size of the endpoints\<close>

text \<open>The buffers of the two endpoints have room for the whole text: with a site id of at most 36 characters nothing is
  cut off.\<close>

theorem endpoints_not_cut:
  assumes "network_compute_endpoints alloc parse_url conn data = (None, data')" "length (nd_site_id data) \<le> 36"
    and "parse_url (cloudsync_string_replace_prefix alloc conn ''sqlitecloud://'' ''https://'') = Inr u"
  shows "nd_check_endpoint data' = Some (endpoint_text u (nd_site_id data)) \<and>
    nd_upload_endpoint data' = Some (endpoint_text u (nd_site_id data) @ ''/upload'')"
proof -
  have "length (endpoint_text u (nd_site_id data) @ ''/upload'') < endpoint_size u"
    using assms(2) by (simp add: endpoint_text_def endpoint_size_def)
  then show ?thesis using assms(1,3) by (auto simp: network_compute_endpoints_def Let_def split: if_splits)
qed

definition demo_parts :: url_parts where
  "demo_parts = \<lparr>up_scheme = ''https'', up_host = ''a.cloud'', up_port = Some ''8860'', up_path = ''/db'', up_query = Some ''apikey=k''\<rparr>"

theorem endpoints_not_cut_witness:
  "nd_upload_endpoint (snd (network_compute_endpoints (\<lambda>_. True) (\<lambda>_. Inr demo_parts) ''sqlitecloud://a.cloud/db?apikey=k''
     (empty_network_data\<lparr>nd_site_id := ''0192''\<rparr>))) = Some ''https://a.cloud:443/v1/cloudsync/db/0192/upload''"
proof -
  let ?d = "empty_network_data\<lparr>nd_site_id := ''0192''\<rparr>"
  obtain data' where d: "network_compute_endpoints (\<lambda>_. True) (\<lambda>_. Inr demo_parts) ''sqlitecloud://a.cloud/db?apikey=k'' ?d = (None, data')"
    by (simp add: network_compute_endpoints_def Let_def)
  show ?thesis
    using endpoints_not_cut [OF d, of demo_parts] d by (simp add: endpoint_text_def demo_parts_def)
qed

end
