(* ===== verification/Statements.thy ===== *)
theory Statements
  imports Transport
begin

text \<open>
  What the statements of the application keep: a write to a row, the functions its triggers call
  (\<open>cloudsync_insert\<close>, \<open>cloudsync_update\<close>, \<open>cloudsync_delete\<close>) and the change that takes an aborted statement back.
\<close>

section \<open>Local changes\<close>

context library_frame begin

lemma move_stmt_keeps [keeps]: "P s \<Longrightarrow> P (snd (update_move_stmt det ti pk dbv oldpk s))"
proof -
  have "P s \<Longrightarrow> P (s\<lparr>c_seq := q, db := map_meta n f (db s)\<rparr>)" for s q n f
    using keep_write(1) [OF keep_library(1), of s n f q] by simp
  then show "P s \<Longrightarrow> P (snd (update_move_stmt det ti pk dbv oldpk s))"
    unfolding update_move_stmt_def by (intro keeps)
qed

lemma move_and_drop_keep [keeps]:
  "P s \<Longrightarrow> P (snd (local_update_move_meta ti pk pk2 dbv s))"
  "P s \<Longrightarrow> P (snd (local_mark_delete_meta ti pk dbv sq s))"
  "P s \<Longrightarrow> P (snd (local_drop_meta ti pk s))"
  by (simp_all only: local_update_move_meta_def local_mark_delete_meta_def local_drop_meta_def
      local_mark_insert_or_update_meta_impl_def)
    (intro keeps; assumption)+

lemma update_columns_keeps [keeps]: "P s \<Longrightarrow> P (snd (update_columns ti pk dbv cols vs s))"
proof (induction ti pk dbv cols vs s rule: update_columns.induct)
  case (1 ti pk dbv col cols new old vs s)
  show ?case unfolding update_columns.simps by (intro keeps 1)
qed auto

lemma local_update_keeps [keeps]: "P s \<Longrightarrow> P (snd (cloudsync_update name args s))"
  unfolding cloudsync_update_def Let_def by (intro keeps result_of_rc_keeps | assumption)+

lemma local_delete_keeps [keeps]: "P s \<Longrightarrow> P (snd (cloudsync_delete name args s))"
  unfolding cloudsync_delete_def by (intro keeps result_of_rc_keeps)

end

section \<open>Statements on rows\<close>

text \<open>\<open>statement_frame\<close>: facts that also survive any change of the database; the context of every operation is one.\<close>

locale statement_frame = library_frame +
  assumes keep_any_db: "P s \<Longrightarrow> P (s\<lparr>db := d\<rparr>)"
begin

lemma triggers_keep [keeps]:
  "P s \<Longrightarrow> P (snd (after_insert name pks s))" "P s \<Longrightarrow> P (snd (after_update name u new old r1 r2 s))"
  "P s \<Longrightarrow> P (snd (after_delete name pks s))"
  by (simp_all only: after_insert_def after_update_def after_delete_def) (intro keeps; assumption)+

lemma with_trigger_keeps:
  "P s \<Longrightarrow> (\<And>s. P s \<Longrightarrow> P (snd (fire s))) \<Longrightarrow> P (snd (with_trigger fire d s))"
  unfolding with_trigger_def
  by (auto simp: split_beta intro!: keep_any_db split: sql_result.split)

lemma row_writes_keep [keeps]:
  "P s \<Longrightarrow> P (snd (insert_row name pks r s))" "P s \<Longrightarrow> P (snd (update_row_to name u new old r1 r2 s))"
  "P s \<Longrightarrow> P (snd (delete_row name pks s))"
  unfolding insert_row_def update_row_to_def delete_row_def
  by (intro keeps with_trigger_keeps | assumption)+

lemma app_keeps [keeps]:
  "P s \<Longrightarrow> P (snd (app_insert name pks r s))" "P s \<Longrightarrow> P (snd (app_update name new old r s))"
  "P s \<Longrightarrow> P (snd (app_delete name pks s))"
  unfolding app_insert_def app_update_def app_delete_def by (intro keeps | assumption)+

end

sublocale system_frame \<subseteq> statement_frame
  by unfold_locales (rule keep_db)

section \<open>Inside a savepoint\<close>

text \<open>Without failures of the engine the stack of savepoints stays as it is, whatever a statement does to the database.\<close>

interpretation balanced: tables_frame "\<lambda>s. faults s = [] \<and> savepoints s = sp" for sp
  by unfold_locales (simp_all add: next_fault_def)

interpretation balanced: statement_frame "\<lambda>s. faults s = [] \<and> savepoints s = sp" for sp
  by unfold_locales (simp_all only: balanced.registry_keeps, simp_all)

lemma commit_hook_balanced: "faults (cloudsync_commit_hook s) = faults s" "savepoints (cloudsync_commit_hook s) = savepoints s"
  "d_users (db (cloudsync_commit_hook s)) = d_users (db s)"
  by (simp_all add: cloudsync_commit_hook_def)

lemma release_top:
  assumes "faults s = []" "savepoints s = (name, d) # sp"
  shows "fst (release commits name s) = SQLITE_OK" "faults (snd (release commits name s)) = []"
    "savepoints (snd (release commits name s)) = sp" "d_users (db (snd (release commits name s))) = d_users (db s)"
  using assms by (simp_all add: release_def release_to_def Let_def commit_hook_balanced)

lemma rollback_release_top:
  assumes "faults s = []" "savepoints s = (name, d) # sp"
  shows "faults (rollback_release commits name s) = []" "savepoints (rollback_release commits name s) = sp"
    "db (rollback_release commits name s) = d"
  using assms by (simp_all add: rollback_release_def release_to_def Let_def commit_hook_balanced)
    (simp_all add: cloudsync_commit_hook_def)

lemma init_balanced:
  assumes "faults s = []"
  shows "faults (snd (cloudsync_init junk uuid commits table algo skip s)) = []"
    "savepoints (snd (cloudsync_init junk uuid commits table algo skip s)) = savepoints s"
    "d_users (db (snd (cloudsync_init junk uuid commits table algo skip s))) = d_users (db s)"
proof -
  let ?s = "s\<lparr>savepoints := (''cloudsync_init'', db s) # savepoints s\<rparr>"
  let ?sp = "(''cloudsync_init'', db s) # savepoints s"
  let ?P = "\<lambda>sp s1. faults s1 = [] \<and> savepoints s1 = sp \<and> d_users (db s1) = d_users (db s)"
  obtain rc1 s1 where body: "(if dbutils_is_star_table table then cloudsync_init_all junk uuid algo skip ?s
      else cloudsync_init_internal junk uuid table algo skip ?s) = (rc1, s1)" by fastforce
  have "?P ?sp ?s" using assms by simp
  then have s1: "?P ?sp s1"
    using undisturbed.init_all_keeps [of ?s] undisturbed.init_internal_keeps [of ?s] body
    by (metis (no_types, lifting) snd_conv)
  have run: "cloudsync_init junk uuid commits table algo skip s =
      (case and_then (rc1, s1) (release commits ''cloudsync_init'') of (rc, s) \<Rightarrow>
         (rc, if rc = SQLITE_OK then snd (dbutils_update_schema_hash s) else rollback_release commits ''cloudsync_init'' s))"
    using assms body by (simp add: cloudsync_init_def savepoint_def)
  have "?P (savepoints s) (snd (cloudsync_init junk uuid commits table algo skip s))"
  proof (cases "rc1 = 0")
    case True
    obtain rc2 s2 where r: "release commits ''cloudsync_init'' s1 = (rc2, s2)" by fastforce
    then have "rc2 = 0" "?P (savepoints s) s2" using release_top [of s1 "''cloudsync_init''" "db s" "savepoints s" commits] s1 by auto
    then show ?thesis
      using run True r undisturbed.update_schema_hash_keeps [of s2 "savepoints s" "d_users (db s)"] by simp
  next
    case False
    then show ?thesis
      using run rollback_release_top [of s1 "''cloudsync_init''" "db s" "savepoints s" commits] s1 by simp
  qed
  then show "faults (snd (cloudsync_init junk uuid commits table algo skip s)) = []"
    "savepoints (snd (cloudsync_init junk uuid commits table algo skip s)) = savepoints s"
    "d_users (db (snd (cloudsync_init junk uuid commits table algo skip s))) = d_users (db s)" by blast+
qed

end
