(* ===== verification/Network.thy ===== *)
theory Network
  imports Statements "HOL-Library.Multiset"
begin

text \<open>
  The network functions of SQL (src/src/network.c): sending the changes of this site, checking for changes of others,
  both with retries, forgetting how far they went, and logging out.

  The context keeps a pointer to a \<open>network_data\<close> (\<open>aux_data\<close>). \<open>Freed\<close> stands for a pointer to memory that was freed;
  \<open>n_touched\<close> is set when such memory is used (or a NULL text measured), and nothing is claimed afterwards.
\<close>

section \<open>The network context\<close>

datatype aux = NoData | Data network_data | Freed

record 'w net =
  n_state :: state
  n_aux :: aux
  n_world :: 'w
  n_touched :: bool

text \<open>
  What the functions call: the allocator, curl, LZ4, the engine's evaluation of a query on \<open>cloudsync_changes\<close>, its
  conversions, whether a statement is a transaction of its own, and the callback of the application.
\<close>

record ('w, 'x) env =
  e_alloc :: "nat \<Rightarrow> bool"
  e_http :: "'w http"
  e_put :: "'w put"
  e_parse_url :: "string option \<Rightarrow> int + url_parts"
  e_lz4 :: lz4
  e_engine :: engine
  e_conversions :: conversions
  e_auto :: bool
  e_callback :: "'x apply_callback option"
  e_xdata :: 'x

definition cloudsync_network_data :: "('w, 'x) env \<Rightarrow> 'w net \<Rightarrow> network_data option \<times> 'w net" where
  "cloudsync_network_data e n =
     (case n_aux n of
        Data d \<Rightarrow> (Some d, n)
      | Freed \<Rightarrow> (Some empty_network_data, n\<lparr>n_touched := True\<rparr>)
      | NoData \<Rightarrow> if e_alloc e 64 then (Some empty_network_data, n\<lparr>n_aux := Data empty_network_data\<rparr>) else (None, n))"

text \<open>On an error the struct is freed and \<open>aux_data\<close> keeps the pointer.\<close>

definition cloudsync_network_init :: "('w, 'x) env \<Rightarrow> byte list option \<Rightarrow> string \<Rightarrow> 'w net \<Rightarrow> sql_result \<times> 'w net" where
  "cloudsync_network_init e uuid conn n =
     (case cloudsync_network_data e n of
        (None, n) \<Rightarrow> (ResError SQLITE_NOMEM, n)
      | (Some data, n) \<Rightarrow>
        (case cloudsync_context_init uuid (n_state n) of (ok, s) \<Rightarrow>
         let n = n\<lparr>n_state := s\<rparr> in
         if \<not> ok then (ResError SQLITE_MISUSE, n\<lparr>n_aux := Freed\<rparr>)
         else
          let data = data\<lparr>nd_site_id := cloudsync_uuid_v7_stringify (c_site_id s) False\<rparr> in
          case network_compute_endpoints (e_alloc e) (e_parse_url e) conn data of
            (Some rc, _) \<Rightarrow> (ResError rc, n\<lparr>n_aux := Freed\<rparr>)
          | (None, data) \<Rightarrow> (ResInt SQLITE_OK, n\<lparr>n_aux := Data data\<rparr>)))"

definition cloudsync_network_cleanup :: "'w net \<Rightarrow> sql_result \<times> 'w net" where
  "cloudsync_network_cleanup n =
     (ResInt SQLITE_OK,
      case n_aux n of NoData \<Rightarrow> n | Data _ \<Rightarrow> n\<lparr>n_aux := Freed\<rparr> | Freed \<Rightarrow> n\<lparr>n_touched := True\<rparr>)"

definition cloudsync_network_set_authentication_token ::
  "('w, 'x) env \<Rightarrow> string option \<Rightarrow> bool \<Rightarrow> 'w net \<Rightarrow> bool \<times> 'w net" where
  "cloudsync_network_set_authentication_token e v is_token n =
     (case cloudsync_network_data e n of
        (None, n) \<Rightarrow> (False, n)
      | (Some data, n) \<Rightarrow>
        (case v of None \<Rightarrow> (False, n\<lparr>n_touched := True\<rparr>)
         | Some x \<Rightarrow>
           (case network_authentication_token (e_alloc e) (if is_token then ''token'' else ''apikey'') x of
              None \<Rightarrow> (False, n)
            | Some t \<Rightarrow> (True, n\<lparr>n_aux := Data (data\<lparr>nd_authentication := Some t\<rparr>)\<rparr>))))"

definition cloudsync_network_set_token :: "('w, 'x) env \<Rightarrow> string option \<Rightarrow> 'w net \<Rightarrow> sql_result \<times> 'w net" where
  "cloudsync_network_set_token e v n =
     (case cloudsync_network_set_authentication_token e v True n of
        (ok, n) \<Rightarrow> (if ok then ResInt SQLITE_OK else ResError SQLITE_NOMEM, n))"

definition cloudsync_network_set_apikey :: "('w, 'x) env \<Rightarrow> string option \<Rightarrow> 'w net \<Rightarrow> sql_result \<times> 'w net" where
  "cloudsync_network_set_apikey e v n =
     (case cloudsync_network_set_authentication_token e v False n of
        (ok, n) \<Rightarrow> (if ok then ResInt SQLITE_OK else ResError SQLITE_NOMEM, n))"

text \<open>\<open>cloudsync_get_auxdata\<close> and the test for NULL.\<close>

definition get_auxdata :: "'w net \<Rightarrow> network_data option \<times> 'w net" where
  "get_auxdata n =
     (case n_aux n of NoData \<Rightarrow> (None, n) | Data d \<Rightarrow> (Some d, n)
      | Freed \<Rightarrow> (Some empty_network_data, n\<lparr>n_touched := True\<rparr>))"

section \<open>Queries on the changes\<close>

text \<open>Open a cursor, filter, fetch every row; \<open>None\<close> after an error.\<close>

definition scan_changes :: "engine \<Rightarrow> string \<Rightarrow> sqlval list \<Rightarrow> state \<Rightarrow> sqlval list list option \<times> state" where
  "scan_changes select_from idxs args s =
     (case cloudsync_changesvtab_filter select_from \<lparr>cur_vm = None\<rparr> idxs args s of ((rc, c), s) \<Rightarrow>
      if rc \<noteq> SQLITE_OK then (None, s)
      else case fetch (case cur_vm c of None \<Rightarrow> 0 | Some rows \<Rightarrow> length rows) c s of ((rc, rows), s) \<Rightarrow>
        (if rc \<noteq> SQLITE_OK then None else Some rows, s))"

definition row_int :: "nat \<Rightarrow> sqlval list \<Rightarrow> int" where
  "row_int i row = sint (column_int64 (row ! i))"

definition max_value :: "int list \<Rightarrow> sqlval" where
  "max_value ns = (case list_max ns of None \<Rightarrow> VNull | Some m \<Rightarrow> VInteger (word_of_int m))"

definition CHANGES_OF_SITE :: string where
  "CHANGES_OF_SITE = ''WHERE site_id = ? ORDER BY db_version, seq ASC''"

definition ALL_CHANGES :: string where
  "ALL_CHANGES = '' ORDER BY db_version, seq ASC''"

text \<open>\<open>SELECT max(db_version), hex(site_id) FROM cloudsync_changes WHERE site_id == (SELECT ... rowid=0)\<close>\<close>

definition last_local_change :: "engine \<Rightarrow> state \<Rightarrow> (int \<times> sqlval list) \<times> state" where
  "last_local_change select_from s =
     (case scan_changes select_from CHANGES_OF_SITE [site_of_ordinal 0 (db s)] s of
        (None, s) \<Rightarrow> ((SQLITE_ERROR, []), s)
      | (Some rows, s) \<Rightarrow> ((SQLITE_ROW, [max_value (map (row_int 5) rows)]), s))"

definition cloudsync_network_has_unsent_changes :: "('w, 'x) env \<Rightarrow> 'w net \<Rightarrow> sql_result \<times> 'w net" where
  "cloudsync_network_has_unsent_changes e n =
     (case dbutils_exec (d_site_ids (db (n_state n)) \<noteq> None) 0 (last_local_change (e_engine e)) [1] (n_state n) of
        ((rc, vs), s) \<Rightarrow>
      let last = c_int (if rc = SQLITE_OK then (case first_result vs of Some (VInteger k) \<Rightarrow> sint k | _ \<Rightarrow> 0) else -1) in
      if last = 0 then (ResInt 0, n\<lparr>n_state := s\<rparr>)
      else case dbutils_settings_get_int_value KEY_SEND_DBVERSION s of (sent, s) \<Rightarrow>
        (ResInt (if sent < last then 1 else 0), n\<lparr>n_state := s\<rparr>))"

section \<open>Sending\<close>

text \<open>The rows of this site behind the position that was sent.\<close>

definition unsent :: "int \<Rightarrow> int \<Rightarrow> sqlval list \<Rightarrow> bool" where
  "unsent db_version sq row \<longleftrightarrow> row_int 5 row > db_version \<or> (row_int 5 row = db_version \<and> row_int 8 row > sq)"

text \<open>
  The query of \<open>cloudsync_network_send_changes_internal\<close>: the payload of the unsent rows, the greatest version of all
  changes (NULL without unsent rows) and the greatest sequence number of an unsent row of that version.
\<close>

definition send_query ::
  "(nat \<Rightarrow> bool) \<Rightarrow> lz4 \<Rightarrow> engine \<Rightarrow> int \<Rightarrow> int \<Rightarrow> state \<Rightarrow> (int \<times> sqlval list) \<times> state" where
  "send_query alloc z select_from db_version sq s =
     (case scan_changes select_from ALL_CHANGES [] s of
        (None, s) \<Rightarrow> ((SQLITE_ERROR, []), s)
      | (Some all, s) \<Rightarrow>
        (case scan_changes select_from CHANGES_OF_SITE [VBlob (c_site_id s)] s of
           (None, s) \<Rightarrow> ((SQLITE_ERROR, []), s)
         | (Some own, s) \<Rightarrow>
           let rows = filter (unsent db_version sq) own; newest = list_max (map (row_int 5) all) in
           (case cloudsync_payload_encode_final alloc z (c_schema_hash s) (encode_rows alloc rows) of
              None \<Rightarrow> ((SQLITE_ERROR, []), s\<lparr>ub := True\<rparr>)
            | Some (ResValue blob, p) \<Rightarrow>
                ((SQLITE_ROW,
                  [blob, if rows = [] then VNull else max_value (map (row_int 5) all),
                   max_value (map (row_int 8) (filter (\<lambda>row. Some (row_int 5 row) = newest) rows))]),
                 if p_outside p then s\<lparr>ub := True\<rparr> else s)
            | Some (_, p) \<Rightarrow> ((SQLITE_NOMEM, []), s))))"

text \<open>\<open>dbutils_blob_int_int_select\<close> on a statement that reads the changes.\<close>

definition result_int :: "sqlval option list \<Rightarrow> nat \<Rightarrow> int" where
  "result_int vs i = (if i < length vs then (case vs ! i of Some (VInteger k) \<Rightarrow> sint k | _ \<Rightarrow> 0) else 0)"

definition result_blob :: "sqlval option list \<Rightarrow> byte list" where
  "result_blob vs = (case first_result vs of Some (VBlob bs) \<Rightarrow> bs | _ \<Rightarrow> [])"

definition bytes_text :: "byte list \<Rightarrow> string" where
  "bytes_text bs = map (\<lambda>b. char_of (unat b)) (cstr bs)"

text \<open>\<open>"%s"\<close> of a pointer that may be NULL.\<close>

definition text_or_null :: "string option \<Rightarrow> string" where
  "text_or_null t = (case t of Some x \<Rightarrow> x | None \<Rightarrow> ''(null)'')"

definition SQLITECLOUD_HEADER :: string where
  "SQLITECLOUD_HEADER = ''Accept: sqlc/plain''"

text \<open>The two settings that say how far changes were sent.\<close>

definition remember_sent :: "int \<Rightarrow> int \<Rightarrow> int \<Rightarrow> int \<Rightarrow> state \<Rightarrow> state" where
  "remember_sent db_version sq new_db_version new_seq s =
     (let s = (if new_db_version \<noteq> db_version
               then snd (dbutils_settings_set_key_value KEY_SEND_DBVERSION (Some (show_int new_db_version)) s) else s)
      in if new_seq \<noteq> sq then snd (dbutils_settings_set_key_value KEY_SEND_SEQ (Some (show_int new_seq)) s) else s)"

text \<open>Asking for a place to upload to, uploading, announcing it: the error of the step that failed. The announcement is
  written into 2024 bytes.\<close>

definition upload_blob :: "('w, 'x) env \<Rightarrow> network_data \<Rightarrow> byte list \<Rightarrow> 'w \<Rightarrow> bool \<times> 'w" where
  "upload_blob e data blob w =
     (case network_receive_buffer (e_alloc e) (e_http e) (text_or_null (nd_upload_endpoint data)) (nd_authentication data)
             True False None (Some SQLITECLOUD_HEADER) w of (res, w) \<Rightarrow>
      if nr_code res \<noteq> CLOUDSYNC_NETWORK_BUFFER then (False, w)
      else
       let s3_url = bytes_text (the (nr_buffer res)) in
       case network_send_buffer (e_put e) (nd_authentication data) s3_url None blob w of (sent, w) \<Rightarrow>
       if \<not> sent then (False, w)
       else
        let json_payload = take 2023 (''{'' @ [CHR 0x22] @ ''url'' @ [CHR 0x22] @ '':'' @ [CHR 0x22] @ s3_url @ [CHR 0x22] @ ''}'') in
        case network_receive_buffer (e_alloc e) (e_http e) (text_or_null (nd_upload_endpoint data)) (nd_authentication data)
               True True (Some json_payload) (Some SQLITECLOUD_HEADER) w of (res, w) \<Rightarrow>
        (nr_code res = CLOUDSYNC_NETWORK_OK, w))"

definition cloudsync_network_send_changes_internal :: "('w, 'x) env \<Rightarrow> 'w net \<Rightarrow> (int \<times> sql_result) \<times> 'w net" where
  "cloudsync_network_send_changes_internal e n =
     (case get_auxdata n of (None, n) \<Rightarrow> ((SQLITE_ERROR, ResError SQLITE_ERROR), n)
      | (Some data, n) \<Rightarrow>
        (case dbutils_settings_get_int_value KEY_SEND_DBVERSION (n_state n) of (db_version, s) \<Rightarrow>
         if db_version < 0 then ((SQLITE_ERROR, ResError SQLITE_ERROR), n\<lparr>n_state := s\<rparr>)
         else case dbutils_settings_get_int_value KEY_SEND_SEQ s of (sq, s) \<Rightarrow>
         if sq < 0 then ((SQLITE_ERROR, ResError SQLITE_ERROR), n\<lparr>n_state := s\<rparr>)
         else case dbutils_exec True 0 (send_query (e_alloc e) (e_lz4 e) (e_engine e) db_version sq) [4, 1, 1] s of
           ((rc, vs), s) \<Rightarrow>
         let n = n\<lparr>n_state := s\<rparr> in
         if rc \<noteq> SQLITE_OK then ((rc, ResError rc), n)
         else if result_blob vs = [] then ((SQLITE_OK, ResNone), n)
         else case upload_blob e data (result_blob vs) (n_world n) of (ok, w) \<Rightarrow>
         let n = n\<lparr>n_world := w\<rparr> in
         if \<not> ok then ((SQLITE_ERROR, ResError SQLITE_ERROR), n)
         else ((SQLITE_OK, ResNone), n\<lparr>n_state := remember_sent db_version sq (result_int vs 1) (result_int vs 2) s\<rparr>)))"

definition cloudsync_network_send_changes :: "('w, 'x) env \<Rightarrow> 'w net \<Rightarrow> sql_result \<times> 'w net" where
  "cloudsync_network_send_changes e n =
     (case cloudsync_network_send_changes_internal e n of ((_, res), n) \<Rightarrow> (res, n))"

section \<open>Checking for changes\<close>

text \<open>The payload that arrived is applied as it is, however short. The return code is the number of rows, or \<open>-1\<close>.\<close>

definition result_code :: "sql_result \<Rightarrow> int" where
  "result_code r = (case r of ResInt k \<Rightarrow> k | _ \<Rightarrow> -1)"

definition network_download_changes :: "('w, 'x) env \<Rightarrow> string \<Rightarrow> 'w net \<Rightarrow> (int \<times> sql_result) \<times> 'w net" where
  "network_download_changes e download_url n =
     (case get_auxdata n of (None, n) \<Rightarrow> ((-1, ResError SQLITE_ERROR), n)
      | (Some data, n) \<Rightarrow>
        (case network_receive_buffer (e_alloc e) (e_http e) download_url None False False None None (n_world n) of (res, w) \<Rightarrow>
         let n = n\<lparr>n_world := w\<rparr> in
         if nr_code res = CLOUDSYNC_NETWORK_BUFFER then
           (case cloudsync_payload_apply (e_conversions e) (e_auto e) (e_alloc e) (e_lz4 e) (e_callback e) (e_xdata e)
                   (the (nr_buffer res)) (n_state n) of (r, s) \<Rightarrow> ((result_code r, r), n\<lparr>n_state := s\<rparr>))
         else case network_set_sqlite_result res of (r, rc) \<Rightarrow> ((rc, r), n)))"

text \<open>The URL is written into 2024 bytes.\<close>

definition check_url :: "network_data \<Rightarrow> int \<Rightarrow> int \<Rightarrow> string" where
  "check_url data db_version sq =
     take 2023 (text_or_null (nd_check_endpoint data) @ ''/'' @ show_int db_version @ ''/'' @ show_int sq @ ''/'' @ ''check'')"

definition cloudsync_network_check_internal :: "('w, 'x) env \<Rightarrow> 'w net \<Rightarrow> (int \<times> sql_result) \<times> 'w net" where
  "cloudsync_network_check_internal e n =
     (case get_auxdata n of (None, n) \<Rightarrow> ((-1, ResError SQLITE_ERROR), n)
      | (Some data, n) \<Rightarrow>
        (case dbutils_settings_get_int_value KEY_CHECK_DBVERSION (n_state n) of (db_version, s) \<Rightarrow>
         if db_version < 0 then ((-1, ResError SQLITE_ERROR), n\<lparr>n_state := s\<rparr>)
         else case dbutils_settings_get_int_value KEY_CHECK_SEQ s of (sq, s) \<Rightarrow>
         let n = n\<lparr>n_state := s\<rparr> in
         if sq < 0 then ((-1, ResError SQLITE_ERROR), n)
         else case network_receive_buffer (e_alloc e) (e_http e) (check_url data db_version sq) (nd_authentication data)
                     True True None (Some SQLITECLOUD_HEADER) (n_world n) of (res, w) \<Rightarrow>
         let n = n\<lparr>n_world := w\<rparr> in
         if nr_code res = CLOUDSYNC_NETWORK_BUFFER then network_download_changes e (bytes_text (the (nr_buffer res))) n
         else case network_set_sqlite_result res of (r, rc) \<Rightarrow> ((rc, r), n)))"

definition cloudsync_network_check_changes :: "('w, 'x) env \<Rightarrow> 'w net \<Rightarrow> sql_result \<times> 'w net" where
  "cloudsync_network_check_changes e n =
     (case cloudsync_network_check_internal e n of ((_, res), n) \<Rightarrow> (res, n))"

text \<open>The loop of \<open>cloudsync_network_sync\<close> with the number of tries that are left; the result it starts from is kept when
  there is none.\<close>

fun sync_tries :: "('w, 'x) env \<Rightarrow> nat \<Rightarrow> int \<times> sql_result \<Rightarrow> 'w net \<Rightarrow> (int \<times> sql_result) \<times> 'w net" where
  "sync_tries e 0 r n = (r, n)"
| "sync_tries e (Suc k) r n =
     (case cloudsync_network_check_internal e n of ((nrows, res), n) \<Rightarrow>
        if nrows > 0 then ((nrows, res), n) else sync_tries e k (nrows, res) n)"

definition cloudsync_network_sync :: "('w, 'x) env \<Rightarrow> int \<Rightarrow> 'w net \<Rightarrow> sql_result \<times> 'w net" where
  "cloudsync_network_sync e max_retries n =
     (case cloudsync_network_send_changes_internal e n of ((rc, res), n) \<Rightarrow>
      if rc \<noteq> SQLITE_OK then (res, n)
      else case sync_tries e (nat max_retries) (0, res) n of ((nrows, res), n) \<Rightarrow>
        (if nrows = -1 then ResError SQLITE_ERROR else if nrows \<ge> 0 then ResInt nrows else res, n))"

definition cloudsync_network_sync0 :: "('w, 'x) env \<Rightarrow> 'w net \<Rightarrow> sql_result \<times> 'w net" where
  "cloudsync_network_sync0 e n = cloudsync_network_sync e 1 n"

definition cloudsync_network_sync2 :: "('w, 'x) env \<Rightarrow> int \<Rightarrow> 'w net \<Rightarrow> sql_result \<times> 'w net" where
  "cloudsync_network_sync2 e max_retries n = cloudsync_network_sync e max_retries n"

section \<open>Starting over\<close>

definition cloudsync_network_reset_sync_version :: "state \<Rightarrow> state" where
  "cloudsync_network_reset_sync_version s =
     fold (\<lambda>k s. snd (dbutils_settings_set_key_value k (Some ''0'') s))
       [KEY_CHECK_DBVERSION, KEY_CHECK_SEQ, KEY_SEND_DBVERSION, KEY_SEND_SEQ] s"

text \<open>\<open>DELETE FROM t\<close>: the rows one after the other with their triggers, or nothing at all.\<close>

fun delete_rows :: "string \<Rightarrow> sqlval list list \<Rightarrow> state \<Rightarrow> int \<times> state" where
  "delete_rows name [] s = (SQLITE_OK, s)"
| "delete_rows name (k # ks) s =
     (case app_delete name k s of (rc, s) \<Rightarrow> if rc \<noteq> SQLITE_DONE then (rc, s) else delete_rows name ks s)"

definition delete_all :: "string \<Rightarrow> state \<Rightarrow> int \<times> state" where
  "delete_all name s0 =
     step (\<lambda>s. if user_table_of name (db s) = None then (SQLITE_ERROR, s)
       else case delete_rows name (row_keys name (db s)) s of (rc, s1) \<Rightarrow>
         (rc, if rc = SQLITE_OK then s1 else s1\<lparr>db := db s\<rparr>)) s0"

text \<open>The error that \<open>SELECT cloudsync_cleanup('*')\<close> leaves: the last one of a table.\<close>

definition cleanup_all_rc :: "byte list option \<Rightarrow> state \<Rightarrow> int" where
  "cleanup_all_rc uuid s =
     (case next_fault s of (rc, s) \<Rightarrow>
      if rc \<noteq> SQLITE_OK then SQLITE_OK
      else fst (fold (\<lambda>n (rc, s). case cloudsync_cleanup_internal uuid n s of (rc2, s) \<Rightarrow> (if rc2 \<noteq> SQLITE_OK then rc2 else rc, s))
        (filter application_table (table_names (db s))) (SQLITE_OK, s)))"

fun logout_tables ::
  "string \<Rightarrow> byte list option \<Rightarrow> bool \<Rightarrow> ((string \<times> string) \<times> (string \<times> string)) list \<Rightarrow> state \<Rightarrow> int \<times> state" where
  "logout_tables junk uuid commits [] s = (SQLITE_OK, s)"
| "logout_tables junk uuid commits (((tbl_name, key), (_, v)) # rest) s =
     (if key \<noteq> ''algo'' then logout_tables junk uuid commits rest s
      else and_then (delete_all tbl_name s) (\<lambda>s.
        and_then (and_then (next_fault s) (cloudsync_init junk uuid commits (Some tbl_name) (Some v) True))
          (logout_tables junk uuid commits rest)))"

text \<open>
  \<open>cloudsync_network_logout\<close>: without a savepoint the function returns silently. The errors of the last \<open>RELEASE\<close>
  are not looked at.
\<close>

definition logout_body :: "string \<Rightarrow> byte list option \<Rightarrow> bool \<Rightarrow> state \<Rightarrow> int \<times> state" where
  "logout_body junk uuid commits s =
     (case next_fault s of (rc, s) \<Rightarrow>
      if rc \<noteq> SQLITE_OK \<or> d_table_settings (db s) = None then (if rc \<noteq> SQLITE_OK then rc else SQLITE_ERROR, rollback_release commits ''cloudsync_logout_sp'' s)
      else
       let settings = the (d_table_settings (db s)) in
       case savepoint ''cloudsync_logout_sp'' s of (rc, s) \<Rightarrow>
       if rc \<noteq> SQLITE_OK then (SQLITE_OK, s)
       else case and_then (next_fault s) (\<lambda>s.
              and_then (cleanup_all_rc uuid s, cloudsync_cleanup uuid ''*'' s)
                (logout_tables junk uuid commits settings)) of (rc, s) \<Rightarrow>
         if rc = SQLITE_OK then (SQLITE_OK, snd (release commits ''cloudsync_logout_sp'' s))
         else (rc, rollback_release commits ''cloudsync_logout_sp'' s))"

definition cloudsync_network_logout ::
  "('w, 'x) env \<Rightarrow> string \<Rightarrow> byte list option \<Rightarrow> bool \<Rightarrow> 'w net \<Rightarrow> sql_result \<times> 'w net" where
  "cloudsync_network_logout e junk uuid commits n =
     (case next_fault (n_state n) of (rc, s) \<Rightarrow>
      let n = n\<lparr>n_state := s\<rparr>; n = (if rc = SQLITE_OK then snd (cloudsync_network_set_token e (Some []) n) else n) in
      case logout_body junk uuid commits (n_state n) of (rc, s) \<Rightarrow>
      (if rc = SQLITE_OK then ResNone else ResError rc, n\<lparr>n_state := s\<rparr>))"

section \<open>Reading the changes keeps the settings\<close>

context write_frame
begin

lemma list_result_keeps [keeps]: "P (snd a) \<Longrightarrow> (\<And>x xs. P (snd (f x xs))) \<Longrightarrow> P (snd (case_list a f l))"
  by (cases l) simp_all

lemma table_changes_keeps [keeps]: "P s \<Longrightarrow> P (snd (table_changes name t rows s))"
proof (induction rows arbitrary: s)
  case (Cons row rows)
  obtain pk col m where row: "row = ((pk, col), m)" by (metis prod.exhaust)
  show ?case unfolding row table_changes.simps
    by (intro keeps Cons | assumption | rule inner_pair_keeps)+
qed simp

lemma all_changes_keeps [keeps]: "P s \<Longrightarrow> P (snd (all_changes ts s))"
proof (induction ts arbitrary: s)
  case (Cons x ts)
  obtain name t where x: "x = (name, t)" by fastforce
  show ?case unfolding x all_changes.simps by (intro keeps Cons | assumption)+
qed simp

lemma cursor_keeps [keeps]:
  "P s \<Longrightarrow> P (snd (cloudsync_changesvtab_next c s))"
  "P s \<Longrightarrow> P (snd (cloudsync_changesvtab_filter select_from c idxs args s))"
  unfolding cloudsync_changesvtab_next_def cloudsync_changesvtab_filter_def build_changes_sql_def Let_def
  by (intro keeps | assumption | rule inner_pair_keeps)+

lemma fetch_keeps [keeps]: "P s \<Longrightarrow> P (snd (fetch k c s))"
proof (induction k arbitrary: c s)
  case (Suc k)
  show ?case unfolding fetch.simps Let_def by (intro keeps Suc | assumption | rule inner_pair_keeps)+
qed simp

lemma scan_changes_keeps [keeps]: "P s \<Longrightarrow> P (snd (scan_changes select_from idxs args s))"
  unfolding scan_changes_def by (intro keeps | assumption | rule inner_pair_keeps)+

lemma send_query_keeps [keeps]: "P s \<Longrightarrow> P (snd (send_query alloc z select_from v q s))"
  unfolding send_query_def Let_def
  by (intro keeps keep_write | assumption | rule inner_pair_keeps | simp add: keep_write)+

text \<open>An error of any step of sending comes before the position is written.\<close>

lemma failed_send_keeps:
  assumes "cloudsync_network_send_changes_internal e n = ((rc, ResError rc'), n')" "P (n_state n)"
  shows "P (n_state n')"
proof (cases "fst (get_auxdata n)")
  case None
  then show ?thesis using assms by (auto simp: cloudsync_network_send_changes_internal_def get_auxdata_def split: aux.splits)
next
  case (Some data)
  obtain n1 where n1: "get_auxdata n = (Some data, n1)" "n_state n1 = n_state n" "n_world n1 = n_world n"
    using Some by (auto simp: get_auxdata_def split: aux.splits)
  obtain v s1 where 1: "dbutils_settings_get_int_value KEY_SEND_DBVERSION (n_state n) = (v, s1)" by fastforce
  obtain q s2 where 2: "dbutils_settings_get_int_value KEY_SEND_SEQ s1 = (q, s2)" by fastforce
  obtain rc3 vs s3 where 3: "dbutils_exec True 0 (send_query (e_alloc e) (e_lz4 e) (e_engine e) v q) [4, 1, 1] s2 = ((rc3, vs), s3)"
    by (metis prod.exhaust)
  have s1: "P s1" using settings_get_int_value_keeps [OF assms(2)] 1 by (metis snd_conv)
  have s2: "P s2" using settings_get_int_value_keeps [OF s1] 2 by (metis snd_conv)
  have s3: "P s3" using dbutils_exec_keeps [OF s2, of "send_query (e_alloc e) (e_lz4 e) (e_engine e) v q"] send_query_keeps 3
    by (metis snd_conv)
  show ?thesis using assms n1 1 2 3 s1 s2 s3
    by (auto simp: cloudsync_network_send_changes_internal_def Let_def split: if_splits prod.splits)
qed

end

interpretation settings_stay: write_frame "\<lambda>s. d_settings (db s) = x" for x
  by unfold_locales (simp_all add: map_meta_def)


section \<open>What is sent\<close>

text \<open>What the code relies on from the engine for its two queries: all rows in some order, and those of one site.\<close>

definition answers_queries :: "engine \<Rightarrow> bool" where
  "answers_queries select_from \<longleftrightarrow>
     (\<forall>rows. map_option mset (select_from ALL_CHANGES [] rows) = Some (mset rows)) \<and>
     (\<forall>site rows. map_option mset (select_from CHANGES_OF_SITE [site] rows) =
        Some (mset (filter (\<lambda>row. row ! 6 = site) rows)))"

text \<open>The rows of a site behind a position, in the order of version and sequence number.\<close>

definition behind_position :: "int \<Rightarrow> int \<Rightarrow> sqlval list \<Rightarrow> bool" where
  "behind_position v q row \<longleftrightarrow> v \<le> row_int 5 row \<and> (row_int 5 row = v \<longrightarrow> q < row_int 8 row)"

definition unsent_history :: "(string \<times> history) list \<Rightarrow> state \<Rightarrow> int \<Rightarrow> int \<Rightarrow> sqlval list list" where
  "unsent_history hs s db_version sq =
     filter (\<lambda>row. row ! 6 = VBlob (c_site_id s) \<and> behind_position db_version sq row) (shown_history hs s)"

lemma scan_changes_answer:
  assumes "readable_history hs s" "hs \<noteq> []" "changes_compile (db s)"
    and "\<forall>rows. \<exists>rs. select_from idxs args rows = Some rs \<and> set rs \<subseteq> set rows"
  shows "scan_changes select_from idxs args s = (select_from idxs args (shown_history hs s), s)"
proof -
  obtain rs where rs: "select_from idxs args (shown_history hs s) = Some rs" using assms(4) by blast
  note rows = filter_and_fetch [of hs s select_from idxs args, OF assms]
  show ?thesis using rows(1) [of "\<lparr>cur_vm = None\<rparr>"] rows(2) [of "length rs"] rows(2) [of 0] rs
    by (cases "rs = []") (simp_all add: scan_changes_def)
qed

lemma answers_queries_sets:
  assumes "answers_queries select_from"
  shows "\<forall>rows. \<exists>rs. select_from ALL_CHANGES [] rows = Some rs \<and> set rs \<subseteq> set rows"
    "\<forall>rows. \<exists>rs. select_from CHANGES_OF_SITE [site] rows = Some rs \<and> set rs \<subseteq> set rows"
  using assms unfolding answers_queries_def
  by (metis (no_types, lifting) map_option_eq_Some set_mset_mset subset_refl,
      metis (no_types, lifting) map_option_eq_Some set_mset_mset filter_is_subset)

lemma list_max_mset: "mset xs = mset ys \<Longrightarrow> list_max xs = list_max ys"
proof -
  have max: "list_max zs = (if zs = [] then None else Some (Max (set zs)))" for zs
    by (induction zs) auto
  assume "mset xs = mset ys"
  then show ?thesis unfolding max by (metis mset_eq_setD mset_zero_iff)
qed

lemma send_query_rows:
  assumes hist: "readable_history hs s" "hs \<noteq> []" "changes_compile (db s)" and eng: "answers_queries select_from"
  obtains rows where "mset rows = mset (unsent_history hs s v q)"
    "send_query alloc z select_from v q s =
       (case cloudsync_payload_encode_final alloc z (c_schema_hash s) (encode_rows alloc rows) of
          None \<Rightarrow> ((SQLITE_ERROR, []), s\<lparr>ub := True\<rparr>)
        | Some (ResValue blob, p) \<Rightarrow>
            ((SQLITE_ROW, [blob, if rows = [] then VNull else max_value (map (row_int 5) (shown_history hs s)),
               max_value (map (row_int 8) (filter (\<lambda>row. Some (row_int 5 row) = list_max (map (row_int 5) (shown_history hs s))) rows))]),
             if p_outside p then s\<lparr>ub := True\<rparr> else s)
        | Some (_, p) \<Rightarrow> ((SQLITE_NOMEM, []), s))"
proof -
  let ?site = "VBlob (c_site_id s)"
  have "map_option mset (select_from ALL_CHANGES [] (shown_history hs s)) = Some (mset (shown_history hs s))"
    using eng unfolding answers_queries_def by blast
  then obtain all where all: "select_from ALL_CHANGES [] (shown_history hs s) = Some all" "mset all = mset (shown_history hs s)"
    unfolding map_option_eq_Some by blast
  have "map_option mset (select_from CHANGES_OF_SITE [?site] (shown_history hs s)) =
      Some (mset (filter (\<lambda>row. row ! 6 = ?site) (shown_history hs s)))"
    using eng unfolding answers_queries_def by blast
  then obtain own where own: "select_from CHANGES_OF_SITE [?site] (shown_history hs s) = Some own"
    "mset own = mset (filter (\<lambda>row. row ! 6 = ?site) (shown_history hs s))"
    unfolding map_option_eq_Some by blast
  let ?rows = "filter (unsent v q) own"
  have "unsent v q row = behind_position v q row" for row by (auto simp: unsent_def behind_position_def)
  then have "mset ?rows = mset (unsent_history hs s v q)"
    using own(2) by (simp add: unsent_history_def filter_filter_mset)
  moreover have max: "list_max (map (row_int 5) all) = list_max (map (row_int 5) (shown_history hs s))"
    using all(2) by (intro list_max_mset) simp
  moreover have scans: "scan_changes select_from ALL_CHANGES [] s = (Some all, s)"
    "scan_changes select_from CHANGES_OF_SITE [?site] s = (Some own, s)"
    using scan_changes_answer [of hs s select_from ALL_CHANGES "[]", OF hist answers_queries_sets(1) [OF eng]] all(1)
      scan_changes_answer [of hs s select_from CHANGES_OF_SITE "[?site]", OF hist answers_queries_sets(2) [OF eng, of ?site]] own(1) by simp_all
  moreover have "max_value (map (row_int 5) all) = max_value (map (row_int 5) (shown_history hs s))"
    by (simp only: max_value_def max)
  ultimately show ?thesis by (intro that [of ?rows]) (simp_all add: send_query_def Let_def split: option.split prod.split sql_result.split)
qed

section \<open>What arrives\<close>

lemma receive_buffer_body:
  assumes "\<forall>n. alloc n"
    and "http \<lparr>rq_url = url, rq_headers = request_headers custom auth json, rq_post = (json \<noteq> None \<or> post), rq_json = json\<rparr> w =
      (Some r, w')" "rs_rc r = 0" "rs_status r < 400" "concat (rs_chunks r) \<noteq> []"
  shows "\<exists>len. network_receive_buffer alloc http url auth z post json custom w =
    (\<lparr>nr_code = CLOUDSYNC_NETWORK_BUFFER, nr_buffer = Some (concat (rs_chunks r)), nr_blen = len\<rparr>, w')"
proof -
  let ?data = "\<lparr>nb_bytes = [], nb_balloc = 0, nb_zero_term = z, nb_outside = False\<rparr>"
  obtain ok data where data: "receive_chunks alloc (rs_chunks r) ?data = (ok, data)" by fastforce
  then have "ok" "nb_bytes data = concat (rs_chunks r)" "length (concat (rs_chunks r)) \<le> nb_balloc data"
    using receive_chunks_fields [OF assms(1), of ?data "rs_chunks r"] by auto
  moreover from this have "nb_balloc data \<noteq> 0" using assms(5) by (metis le_zero_eq length_0_conv)
  ultimately show ?thesis using assms(2-5) data by (simp add: network_receive_buffer_def Let_def)
qed

lemma download_applies:
  assumes "n_aux n = Data data" "\<forall>n. e_alloc e n"
    and "e_http e \<lparr>rq_url = url, rq_headers = [], rq_post = False, rq_json = None\<rparr> (n_world n) = (Some r, w')"
    "rs_rc r = 0" "rs_status r < 400" "concat (rs_chunks r) \<noteq> []"
  shows "network_download_changes e url n =
    (case cloudsync_payload_apply (e_conversions e) (e_auto e) (e_alloc e) (e_lz4 e) (e_callback e) (e_xdata e)
       (concat (rs_chunks r)) (n_state n) of (x, s) \<Rightarrow> ((result_code x, x), n\<lparr>n_world := w', n_state := s\<rparr>))"
proof -
  obtain len where "network_receive_buffer (e_alloc e) (e_http e) url None False False None None (n_world n) =
      (\<lparr>nr_code = CLOUDSYNC_NETWORK_BUFFER, nr_buffer = Some (concat (rs_chunks r)), nr_blen = len\<rparr>, w')"
    using receive_buffer_body [of "e_alloc e" "e_http e" url None None None False "n_world n" r w' False] assms(2-6)
    by (auto simp: request_headers_def)
  then show ?thesis using assms(1) by (simp add: network_download_changes_def get_auxdata_def split_beta)
qed

lemma length_row_bytes_mset: "mset xs = mset ys \<Longrightarrow> length (row_bytes xs) = length (row_bytes ys)"
proof -
  have len: "length (row_bytes zs) = sum_mset (image_mset (length \<circ> pk_encode_values []) (mset zs))" for zs
    by (induction zs) simp_all
  show "mset xs = mset ys \<Longrightarrow> length (row_bytes xs) = length (row_bytes ys)" by (simp add: len)
qed

lemma encoded_length:
  assumes "cloudsync_payload_encode_final alloc z hash p = Some (ResValue (VBlob blob), p')"
  shows "HEADER_SIZE \<le> length blob"
proof -
  have lib: "length (h_libversion (cloudsync_network_header_init x c r h)) = 3" for x c r h
    unfolding cloudsync_network_header_init_def by code_simp
  show ?thesis using assms by (auto simp: cloudsync_payload_encode_final_def Let_def header_bytes_def lib split: if_splits)
qed


section \<open>An example\<close>

definition network_demo :: "state \<Rightarrow> unit net" where
  "network_demo s = \<lparr>n_state = s, n_aux = Data empty_network_data, n_world = (), n_touched = False\<rparr>"

definition demo_engine :: engine where
  "demo_engine idxs args rows = Some (if idxs = CHANGES_OF_SITE then filter (\<lambda>row. row ! 6 = hd args) rows else rows)"

lemma demo_engine_answers: "answers_queries demo_engine"
  by (simp add: answers_queries_def demo_engine_def ALL_CHANGES_def CHANGES_OF_SITE_def)

text \<open>Every request is answered with the same body.\<close>

definition demo_env :: "byte list \<Rightarrow> (unit, unit) env" where
  "demo_env body =
     \<lparr>e_alloc = \<lambda>_. True,
      e_http = \<lambda>rq w. (Some \<lparr>rs_rc = 0, rs_chunks = [body], rs_status = 200, rs_error = []\<rparr>, w),
      e_put = \<lambda>_ _ w. (True, w), e_parse_url = \<lambda>_. Inl 3, e_lz4 = mirror_lz4, e_engine = demo_engine,
      e_conversions = plain_conversions, e_auto = False, e_callback = None, e_xdata = ()\<rparr>"

definition demo_sender :: state where
  "demo_sender = changes_demo\<lparr>c_site_id := [1]\<rparr>"

lemma demo_sender_facts:
  "readable_history [(''t'', changes_demo_history)] demo_sender" "changes_compile (db demo_sender)" "c_schema_hash demo_sender = 0"
proof -
  have same: "table_lookup n demo_sender = table_lookup n changes_demo" "tbl demo_sender = tbl changes_demo"
    "db demo_sender = db changes_demo" "faults demo_sender = faults changes_demo" for n
    by (simp_all add: demo_sender_def table_lookup_def tbl_def fun_eq_iff)
  show "readable_history [(''t'', changes_demo_history)] demo_sender"
    using changes_demo_readable unfolding readable_history_def readable_def same by assumption
  show "changes_compile (db demo_sender)" using changes_demo_facts(4) by (simp add: demo_sender_def)
  show "c_schema_hash demo_sender = 0" by code_simp
qed

definition demo_unsent_row :: "sqlval list" where
  "demo_unsent_row = [VText [116], VBlob [1, 11, 1, 98], VText [99], VNull, VInteger 1, VInteger 8, VBlob [1], VInteger 1, VInteger 1]"

lemma demo_unsent:
  "unsent_history [(''t'', changes_demo_history)] demo_sender 7 0 = [demo_unsent_row]"
  "wf_row demo_unsent_row" "length (row_bytes [demo_unsent_row]) < 2 ^ 31"
proof -
  show "unsent_history [(''t'', changes_demo_history)] demo_sender 7 0 = [demo_unsent_row]" by code_simp
  show "wf_row demo_unsent_row" by (simp add: wf_row_def demo_unsent_row_def)
  have "length (row_bytes [demo_unsent_row]) = 24" by code_simp
  then show "length (row_bytes [demo_unsent_row]) < 2 ^ 31" by simp
qed



end
