(* ===== verification/Sync.thy ===== *)
theory Sync
  imports Network
begin

text \<open>
  Properties of the network functions (src/src/network.c) that span several calls: the life of the network context, the
  retries of a synchronisation, starting over and logging out.
\<close>

section \<open>The life of the network context\<close>

lemma touched_stays:
  assumes "n_touched n"
  shows "n_touched (snd (get_auxdata n))" "n_touched (snd (network_download_changes e url n))"
    "n_touched (snd (cloudsync_network_check_internal e n))"
proof -
  show a: "n_touched (snd (get_auxdata n))" using assms by (simp add: get_auxdata_def split: aux.split)
  have d: "n_touched (snd (network_download_changes e url n))" if "n_touched n" for n url
    using that by (auto simp: network_download_changes_def get_auxdata_def Let_def split: aux.splits prod.splits)
  from d [OF assms] show "n_touched (snd (network_download_changes e url n))" .
  show "n_touched (snd (cloudsync_network_check_internal e n))"
    using assms d by (auto simp: cloudsync_network_check_internal_def get_auxdata_def Let_def split: aux.splits prod.splits)
qed

lemma check_freed:
  assumes "n_aux n = Freed"
  shows "n_touched (snd (cloudsync_network_check_internal e n))"
proof -
  obtain v s1 where 1: "dbutils_settings_get_int_value KEY_CHECK_DBVERSION (n_state n) = (v, s1)" by fastforce
  obtain q s2 where 2: "dbutils_settings_get_int_value KEY_CHECK_SEQ s1 = (q, s2)" by fastforce
  show ?thesis using assms 1 2
    by (auto simp: cloudsync_network_check_internal_def get_auxdata_def Let_def intro!: touched_stays(2) split: prod.split)
qed

text \<open>After \<open>cloudsync_network_cleanup\<close>, and after a \<open>cloudsync_network_init\<close> that fails, the context keeps a pointer to
  the memory that was freed: setting a token, and checking for changes, use it.\<close>

theorem freed_context_is_used:
  assumes "(n_aux n = Data d \<and> n' = snd (cloudsync_network_cleanup n)) \<or>
    (cloudsync_network_init e uuid conn n = (ResError rc, n') \<and> e_alloc e 64)"
  shows "n_touched (snd (cloudsync_network_set_token e v n')) \<and> n_touched (snd (cloudsync_network_check_changes e n'))"
proof -
  have "n_aux n' = Freed"
    using assms by (auto simp: cloudsync_network_cleanup_def cloudsync_network_init_def cloudsync_network_data_def Let_def
        split: aux.splits prod.splits if_splits option.splits)
  then show ?thesis
    using check_freed [of n' e]
    by (auto simp: cloudsync_network_set_token_def cloudsync_network_set_authentication_token_def cloudsync_network_data_def
        cloudsync_network_check_changes_def split_beta split: option.split)
qed

theorem freed_context_is_used_witness:
  "n_touched (snd (cloudsync_network_set_token (demo_env []) (Some ''x'')
     (snd (cloudsync_network_cleanup (network_demo merge_demo)))))"
  using freed_context_is_used [of "network_demo merge_demo" empty_network_data _ "demo_env []"]
  by (simp add: network_demo_def)

section \<open>Retries\<close>

definition after_checks :: "('w, 'x) env \<Rightarrow> nat \<Rightarrow> 'w net \<Rightarrow> 'w net" where
  "after_checks e k n = ((\<lambda>n. snd (cloudsync_network_check_internal e n)) ^^ k) n"

lemma after_checks_Suc: "after_checks e (Suc k) n = after_checks e k (snd (cloudsync_network_check_internal e n))"
  by (simp add: after_checks_def funpow_Suc_right del: funpow.simps)

lemma sync_tries_steps:
  "\<exists>k \<le> m. snd (sync_tries e m r n) = after_checks e k n \<and>
     fst (sync_tries e m r n) = (if k = 0 then r else fst (cloudsync_network_check_internal e (after_checks e (k - 1) n))) \<and>
     (\<forall>i. i + 1 < k \<longrightarrow> fst (fst (cloudsync_network_check_internal e (after_checks e i n))) \<le> 0) \<and>
     (k < m \<longrightarrow> 0 < k \<and> fst (fst (sync_tries e m r n)) > 0)"
proof (induction m arbitrary: r n)
  case 0
  show ?case by (simp add: after_checks_def)
next
  case (Suc m)
  obtain nrows res n1 where c: "cloudsync_network_check_internal e n = ((nrows, res), n1)" by (metis prod.exhaust)
  show ?case
  proof (cases "nrows > 0")
    case True
    then show ?thesis using c by (intro exI [of _ 1]) (simp add: after_checks_def)
  next
    case False
    from Suc.IH [of "(nrows, res)" n1] obtain k where k: "k \<le> m"
      "snd (sync_tries e m (nrows, res) n1) = after_checks e k n1"
      "fst (sync_tries e m (nrows, res) n1) =
        (if k = 0 then (nrows, res) else fst (cloudsync_network_check_internal e (after_checks e (k - 1) n1)))"
      "\<forall>i. i + 1 < k \<longrightarrow> fst (fst (cloudsync_network_check_internal e (after_checks e i n1))) \<le> 0"
      "k < m \<longrightarrow> 0 < k \<and> fst (fst (sync_tries e m (nrows, res) n1)) > 0" by blast
    have run: "sync_tries e (Suc m) r n = sync_tries e m (nrows, res) n1" using c False by simp
    have first: "after_checks e (Suc i) n = after_checks e i n1" for i using c by (simp add: after_checks_Suc)
    have zero: "after_checks e 0 n = n" by (simp add: after_checks_def)
    have "fst (fst (cloudsync_network_check_internal e (after_checks e i n))) \<le> 0" if "i + 1 < Suc k" for i
      using that k(4) c False first zero by (cases i) auto
    then show ?thesis
      using k(1-3,5) run first zero c by (intro exI [of _ "Suc k"]) (cases k, auto)
  qed
qed

abbreviation (input) check_rows :: "('w, 'x) env \<Rightarrow> nat \<Rightarrow> 'w net \<Rightarrow> int" where
  "check_rows e k n \<equiv> fst (fst (cloudsync_network_check_internal e (after_checks e k n)))"

lemma sync_steps:
  assumes "cloudsync_network_send_changes_internal e n0 = ((SQLITE_OK, res), n)"
  shows "\<exists>k \<le> nat max_retries. snd (cloudsync_network_sync e max_retries n0) = after_checks e k n \<and>
    (\<forall>i. i + 1 < k \<longrightarrow> check_rows e i n \<le> 0) \<and> (k < nat max_retries \<longrightarrow> 0 < k \<and> check_rows e (k - 1) n > 0) \<and>
    (0 < k \<and> check_rows e (k - 1) n > 0 \<longrightarrow> fst (cloudsync_network_sync e max_retries n0) = ResInt (check_rows e (k - 1) n))"
proof -
  obtain nrows r n1 where t: "sync_tries e (nat max_retries) (0, res) n = ((nrows, r), n1)" by (metis prod.exhaust)
  have run: "cloudsync_network_sync e max_retries n0 =
      (if nrows = -1 then ResError SQLITE_ERROR else if nrows \<ge> 0 then ResInt nrows else r, n1)"
    using assms t by (simp add: cloudsync_network_sync_def)
  obtain k where k: "k \<le> nat max_retries" "n1 = after_checks e k n"
    "(nrows, r) = (if k = 0 then (0, res) else fst (cloudsync_network_check_internal e (after_checks e (k - 1) n)))"
    "\<forall>i. i + 1 < k \<longrightarrow> check_rows e i n \<le> 0" "k < nat max_retries \<longrightarrow> 0 < k \<and> nrows > 0"
    using sync_tries_steps [of "nat max_retries" e "(0, res)" n] t by auto
  have "check_rows e (k - 1) n = nrows" if "0 < k"
    using k(3) that by (metis fst_conv less_numeral_extra(3))
  then show ?thesis using k run by (intro exI [of _ k]) auto
qed

text \<open>C21. A synchronisation whose send went through makes at most \<open>max_retries\<close> checks, none for a number that is not
  positive. It goes on after a check without rows, also after one that failed, and stops before the last only with a
  check that applied rows, whose number is the result.\<close>

theorem sync_stops:
  assumes "cloudsync_network_send_changes_internal e n0 = ((SQLITE_OK, res), n)"
  shows "\<exists>k \<le> nat max_retries. snd (cloudsync_network_sync e max_retries n0) = after_checks e k n \<and>
    (\<forall>i. i + 1 < k \<longrightarrow> check_rows e i n \<le> 0) \<and>
    (k < nat max_retries \<longrightarrow> 0 < k \<and> check_rows e (k - 1) n > 0 \<and>
       fst (cloudsync_network_sync e max_retries n0) = ResInt (check_rows e (k - 1) n))"
  using sync_steps [OF assms, of max_retries] by blast

text \<open>Nothing to send, and a server that never answers: all checks are made.\<close>

definition silent_env :: "(unit, unit) env" where
  "silent_env = (demo_env [])\<lparr>e_http := \<lambda>_ w. (None, w),
     e_engine := \<lambda>idxs _ rows. Some (if idxs = CHANGES_OF_SITE then [] else rows)\<rparr>"

lemma nothing_to_send:
  assumes "e_alloc e = e_alloc silent_env" "e_lz4 e = e_lz4 silent_env" "e_engine e = e_engine silent_env"
  shows "cloudsync_network_send_changes_internal e (network_demo demo_sender) = ((SQLITE_OK, ResNone), network_demo demo_sender)"
proof -
  let ?n = "network_demo demo_sender"
  let ?rows = "shown_history [(''t'', changes_demo_history)] demo_sender" and ?q = "e_engine silent_env"
  have f: "faults demo_sender = []" by code_simp
  have set: "\<forall>rows. \<exists>rs. ?q idxs args rows = Some rs \<and> set rs \<subseteq> set rows" for idxs args
    by (simp add: silent_env_def)
  have scan: "scan_changes ?q idxs args demo_sender = (?q idxs args ?rows, demo_sender)" for idxs args
    using scan_changes_answer [OF demo_sender_facts(1) _ demo_sender_facts(2) set] by simp
  have eng: "?q CHANGES_OF_SITE args r = Some []" "?q ALL_CHANGES args r = Some r" for args r
    by (simp_all add: silent_env_def ALL_CHANGES_def CHANGES_OF_SITE_def)
  have q: "send_query (e_alloc silent_env) (e_lz4 silent_env) ?q 0 0 demo_sender = ((SQLITE_ROW, [VNull, VNull, VNull]), demo_sender)"
    using scan [of CHANGES_OF_SITE] scan [of ALL_CHANGES] eng
    by (simp add: send_query_def encode_rows_def empty_payload_def cloudsync_payload_encode_final_def max_value_def)
  have "fst (dbutils_settings_get_int_value KEY_SEND_DBVERSION demo_sender) = 0"
    "fst (dbutils_settings_get_int_value KEY_SEND_SEQ demo_sender) = 0" by code_simp+
  then have "dbutils_settings_get_int_value KEY_SEND_DBVERSION demo_sender = (0, demo_sender)"
    "dbutils_settings_get_int_value KEY_SEND_SEQ demo_sender = (0, demo_sender)"
    using get_int_value_unfailing [OF f] by metis+
  then show ?thesis
    using f q assms by (simp add: cloudsync_network_send_changes_internal_def network_demo_def get_auxdata_def dbutils_exec_def
        result_blob_def first_result_def)
qed

theorem sync_stops_witness:
  "\<exists>k. k \<le> 3 \<and> snd (cloudsync_network_sync silent_env 3 (network_demo demo_sender)) = after_checks silent_env k (network_demo demo_sender)"
  using sync_stops [OF nothing_to_send [OF refl refl refl], of 3] by auto

text \<open>C20. When one of the checks that \<open>max_retries\<close> allows would apply rows, the synchronisation gets there: its result is
  the number of rows of the first such check, whatever the checks before it answered.\<close>

theorem sync_reaches_rows:
  assumes "cloudsync_network_send_changes_internal e n0 = ((SQLITE_OK, res), n)"
    and "k < nat max_retries" "check_rows e k n > 0"
  shows "\<exists>j \<le> k. check_rows e j n > 0 \<and> (\<forall>i < j. check_rows e i n \<le> 0) \<and>
    cloudsync_network_sync e max_retries n0 = (ResInt (check_rows e j n), after_checks e (j + 1) n)"
proof -
  obtain m where m: "m \<le> nat max_retries" "snd (cloudsync_network_sync e max_retries n0) = after_checks e m n"
    "\<forall>i. i + 1 < m \<longrightarrow> check_rows e i n \<le> 0" "m < nat max_retries \<longrightarrow> 0 < m \<and> check_rows e (m - 1) n > 0"
    "0 < m \<and> check_rows e (m - 1) n > 0 \<longrightarrow> fst (cloudsync_network_sync e max_retries n0) = ResInt (check_rows e (m - 1) n)"
    using sync_steps [OF assms(1), of max_retries] by blast
  have "m \<le> k + 1" using m(3) assms(3) by (meson leD leI)
  moreover have pos: "0 < m" "check_rows e (m - 1) n > 0"
    using m(1,4) assms(2,3) \<open>m \<le> k + 1\<close> by (metis add_diff_cancel_right' le_antisym less_imp_Suc_add nat_less_le not_less zero_less_Suc Suc_eq_plus1 Suc_leI)+
  ultimately show ?thesis
    using m(2,3,5) by (intro exI [of _ "m - 1"]) (auto intro!: prod_eqI)
qed

text \<open>A server with one row, for an application that declines it.\<close>

definition demo_blob :: "byte list" where
  "demo_blob = header_bytes (cloudsync_network_header_init 0 9 1 0) @ row_bytes [demo_unsent_row]"

definition serving_env :: "(unit, unit) env" where
  "serving_env = silent_env\<lparr>
     e_http := \<lambda>rq w. (Some \<lparr>rs_rc = 0, rs_chunks = [if rq_post rq then [117] else demo_blob], rs_status = 200, rs_error = []\<rparr>, w),
     e_callback := Some (\<lambda>x _ _ _ s. (False, x, s))\<rparr>"

lemma serving_apply:
  "fst (cloudsync_payload_apply cv auto alloc z (Some (\<lambda>x _ _ _ s. (False, x, s))) () demo_blob demo_sender) = ResInt 1"
proof -
  let ?h = "cloudsync_network_header_init 0 9 1 0" and ?cb = "Some (\<lambda>x _ _ _ s. (False, x, s))"
  have f: "faults demo_sender = []" by code_simp
  have "length (h_libversion ?h) = 3" unfolding cloudsync_network_header_init_def by code_simp
  note hdr = header_roundtrip [OF this]
  have fields: "h_signature ?h = CLOUDSYNC_PAYLOAD_SIGNATURE" "h_ncols ?h = 9" "h_nrows ?h = 1" "h_expanded_size ?h = 0"
    "h_schema_hash ?h = c_schema_hash demo_sender"
    by (simp_all add: cloudsync_network_header_init_def demo_sender_facts)
  obtain vm where "pk_decode (row_bytes [demo_unsent_row]) (Some 9) 0 (Some cloudsync_pk_decode_bind_callback) (empty_decode_context, demo_sender) =
      Some (9, length (pk_encode_values [] demo_unsent_row), (save_fields 0 demo_unsent_row empty_decode_context)\<lparr>dc_vm := vm\<rparr>, demo_sender)"
    using decode_row [OF f demo_unsent(2), of empty_decode_context "[]"] by (auto simp: row_bytes_def empty_decode_context_def)
  then have rows: "\<exists>dc. apply_rows cv auto ?cb 9 (Suc 0) (row_bytes [demo_unsent_row]) (SQLITE_OK, empty_decode_context, ()) demo_sender =
      ((SQLITE_OK, dc, ()), demo_sender)"
    by (simp add: call_back_def)
  have "fst (apply_expanded cv auto ?cb () ?h (row_bytes [demo_unsent_row]) demo_sender) = ResInt 1"
  proof -
    obtain v where v: "dbutils_settings_get_int_value ''check_dbversion'' demo_sender = (v, demo_sender)"
      using get_int_value_unfailing [OF f] by metis
    obtain w where w: "dbutils_settings_get_int_value ''check_seq'' demo_sender = (w, demo_sender)"
      using get_int_value_unfailing [OF f] by metis
    show ?thesis using rows v w f by (auto simp: apply_expanded_def fields call_back_def)
  qed
  then show ?thesis using hdr by (simp add: cloudsync_payload_apply_def demo_blob_def Let_def fields)
qed

lemma serving_rows: "check_rows serving_env 0 (network_demo demo_sender) = 1"
proof -
  let ?n = "network_demo demo_sender" and ?e = serving_env
  have f: "faults demo_sender = []" by code_simp
  have "fst (dbutils_settings_get_int_value KEY_CHECK_DBVERSION demo_sender) = 0"
    "fst (dbutils_settings_get_int_value KEY_CHECK_SEQ demo_sender) = 0" by code_simp+
  then have pos: "dbutils_settings_get_int_value KEY_CHECK_DBVERSION demo_sender = (0, demo_sender)"
    "dbutils_settings_get_int_value KEY_CHECK_SEQ demo_sender = (0, demo_sender)"
    using get_int_value_unfailing [OF f] by metis+
  let ?r = "\<lambda>b. \<lparr>rs_rc = 0, rs_chunks = [b], rs_status = 200, rs_error = []\<rparr>"
  have mem: "\<forall>n. e_alloc ?e n" by (simp add: serving_env_def silent_env_def demo_env_def)
  obtain len where url: "network_receive_buffer (e_alloc ?e) (e_http ?e) (check_url empty_network_data 0 0) None True True None
      (Some SQLITECLOUD_HEADER) () = (\<lparr>nr_code = CLOUDSYNC_NETWORK_BUFFER, nr_buffer = Some [117], nr_blen = len\<rparr>, ())"
    using receive_buffer_body [OF mem, of "e_http ?e" "check_url empty_network_data 0 0" "Some SQLITECLOUD_HEADER" None None True "()" "?r [117]" "()" True]
    by (auto simp: serving_env_def)
  have "demo_blob \<noteq> []" by (simp add: demo_blob_def header_bytes_def)
  then have "network_download_changes ?e url ?n =
    (case cloudsync_payload_apply (e_conversions ?e) (e_auto ?e) (e_alloc ?e) (e_lz4 ?e) (e_callback ?e) (e_xdata ?e) demo_blob demo_sender of
       (x, s) \<Rightarrow> ((result_code x, x), ?n\<lparr>n_world := (), n_state := s\<rparr>))" for url
    using download_applies [of ?n empty_network_data ?e url "?r demo_blob" "()", OF _ mem]
    by (simp add: serving_env_def network_demo_def)
  then have "fst (fst (network_download_changes ?e url ?n)) = 1" for url
    using serving_apply [of "e_conversions ?e" "e_auto ?e" "e_alloc ?e" "e_lz4 ?e"]
    by (simp add: serving_env_def silent_env_def demo_env_def split_beta result_code_def)
  then show ?thesis
    using url pos
    by (simp add: after_checks_def cloudsync_network_check_internal_def get_auxdata_def network_demo_def empty_network_data_def Let_def)
qed

theorem sync_reaches_rows_witness: "fst (cloudsync_network_sync serving_env 3 (network_demo demo_sender)) = ResInt 1"
proof -
  let ?n = "network_demo demo_sender"
  have "cloudsync_network_send_changes_internal serving_env ?n = ((SQLITE_OK, ResNone), ?n)"
    by (rule nothing_to_send) (simp_all add: serving_env_def)
  from sync_reaches_rows [OF this, of 0 3] show ?thesis using serving_rows by auto
qed

section \<open>Starting over\<close>

lemma set_key_value_ok:
  assumes "faults s = []" "d_settings (db s) \<noteq> None" "k \<noteq> KEY_SCHEMAVERSION" "k \<noteq> KEY_DEBUG"
  shows "dbutils_settings_set_key_value k (Some v) s = (0, s\<lparr>db := replace_setting k v (db s)\<rparr>)"
  using assms by (simp add: dbutils_settings_set_key_value_def dbutils_write_def dbutils_exec_def cloudsync_sync_key_def)

lemma setting_replaced:
  "d_settings d \<noteq> None \<Longrightarrow> setting k (replace_setting k' v d) = (if str_case_eq k' k then Some v else setting k d)"
  by (auto simp: setting_def replace_setting_def settings.get_put)

lemma get_int_value_ok:
  assumes "faults s = []" "setting k (db s) = Some v" "length v < 256"
  shows "dbutils_settings_get_int_value k s = (c_int (strtol v), s)"
proof -
  have "d_settings (db s) \<noteq> None" using assms(2) by (auto simp: setting_def split: option.splits)
  then show ?thesis using assms by (simp add: dbutils_settings_get_int_value_def dbutils_settings_get_value_def)
qed

text \<open>After \<open>cloudsync_network_reset_sync_version\<close> every position reads as 0, so that everything is offered and asked
  for again.\<close>

theorem reset_starts_over:
  assumes "faults s = []" "d_settings (db s) \<noteq> None"
    and "k \<in> {KEY_CHECK_DBVERSION, KEY_CHECK_SEQ, KEY_SEND_DBVERSION, KEY_SEND_SEQ}"
  shows "dbutils_settings_get_int_value k (cloudsync_network_reset_sync_version s) =
    (0, cloudsync_network_reset_sync_version s)"
proof -
  let ?r = "\<lambda>k d. replace_setting k ''0'' d"
  have some: "d_settings (?r k d) \<noteq> None" if "d_settings d \<noteq> None" for k d using that by (simp add: replace_setting_def)
  have keys: "KEY_CHECK_DBVERSION \<noteq> KEY_SCHEMAVERSION" "KEY_CHECK_SEQ \<noteq> KEY_SCHEMAVERSION"
    "KEY_SEND_DBVERSION \<noteq> KEY_SCHEMAVERSION" "KEY_SEND_SEQ \<noteq> KEY_SCHEMAVERSION"
    "KEY_CHECK_DBVERSION \<noteq> KEY_DEBUG" "KEY_CHECK_SEQ \<noteq> KEY_DEBUG" "KEY_SEND_DBVERSION \<noteq> KEY_DEBUG" "KEY_SEND_SEQ \<noteq> KEY_DEBUG"
    by simp_all
  let ?d = "?r KEY_SEND_SEQ (?r KEY_SEND_DBVERSION (?r KEY_CHECK_SEQ (?r KEY_CHECK_DBVERSION (db s))))"
  have run: "cloudsync_network_reset_sync_version s = s\<lparr>db := ?d\<rparr>"
    using assms(1,2) some by (simp add: cloudsync_network_reset_sync_version_def set_key_value_ok keys)
  have "str_case_eq k k" for k by (simp add: str_case_eq_def)
  then have "setting k ?d = Some ''0''" using assms(2,3) some by (auto simp: setting_replaced)
  moreover have "c_int (strtol ''0'') = 0" by code_simp
  ultimately show ?thesis using assms(1) unfolding run by (subst get_int_value_ok [of _ k "''0''"]) simp_all
qed

theorem reset_starts_over_witness:
  "fst (dbutils_settings_get_int_value KEY_SEND_SEQ (cloudsync_network_reset_sync_version
     (merge_demo\<lparr>db := (db merge_demo)\<lparr>d_settings := Some [(KEY_SEND_SEQ, ''7'')]\<rparr>\<rparr>))) = 0"
proof -
  have "faults merge_demo = []" by code_simp
  then show ?thesis
    using reset_starts_over [of "merge_demo\<lparr>db := (db merge_demo)\<lparr>d_settings := Some [(KEY_SEND_SEQ, ''7'')]\<rparr>\<rparr>" KEY_SEND_SEQ]
    by simp
qed

section \<open>Short downloads\<close>

text \<open>Nothing looks at the size of what a download brought: a body shorter than a payload header is read behind its end.\<close>

theorem short_download_reads_outside:
  assumes "n_aux n = Data data" "\<forall>n. e_alloc e n"
    and "e_http e \<lparr>rq_url = url, rq_headers = [], rq_post = False, rq_json = None\<rparr> (n_world n) = (Some r, w')"
      "rs_rc r = 0" "rs_status r < 400"
    and "concat (rs_chunks r) \<noteq> []" "length (concat (rs_chunks r)) < HEADER_SIZE"
  shows "ub (n_state (snd (network_download_changes e url n)))"
  using download_applies [OF assms(1-6)] assms(7) by (simp add: cloudsync_payload_apply_def)

theorem short_download_reads_outside_witness:
  "ub (n_state (snd (network_download_changes (demo_env [1, 2]) ''u'' (network_demo merge_demo))))"
  by (rule short_download_reads_outside [where data = empty_network_data and w' = "()"
        and r = "\<lparr>rs_rc = 0, rs_chunks = [[1, 2]], rs_status = 200, rs_error = []\<rparr>"])
    (simp_all add: network_demo_def demo_env_def)

end
