(* ===== verification/Logout.thy ===== *)
theory Logout
  imports Sync
begin

text \<open>
  Logging out (\<open>cloudsync_network_logout\<close>, src/src/network.c): the savepoint around it, the rows it deletes and what is
  left when a step fails.
\<close>

section \<open>Deleting the rows of a table\<close>

definition emptied :: "string \<Rightarrow> database \<Rightarrow> bool" where
  "emptied name d \<longleftrightarrow> (\<exists>u. user_table_of name d = Some u \<and> u_rows u = [])"

lemma user_table_of_cong: "str_case_eq m n \<Longrightarrow> user_table_of m d = user_table_of n d"
proof -
  assume "str_case_eq m n"
  then have "assoc_get str_case_eq m xs = assoc_get str_case_eq n xs" for xs :: "(string \<times> user_table) list"
    by (induction xs) (auto simp: str_case_eq_def)
  then show ?thesis by (simp add: user_table_of_def)
qed

definition without_keys :: "sqlval list list \<Rightarrow> user_table \<Rightarrow> user_table" where
  "without_keys ks u = u\<lparr>u_rows := filter (\<lambda>(k, _). k \<notin> set ks) (u_rows u)\<rparr>"

lemma without_keys_simps [simp]:
  "without_keys [] u = u" "without_keys ks (without_keys [k] u) = without_keys (k # ks) u"
  by (simp_all add: without_keys_def case_prod_beta' conj_commute)

lemma app_delete_rows:
  assumes "app_delete name k s = (SQLITE_DONE, s')"
  shows "user_table_of n (db s') =
    (if str_case_eq n name then map_option (without_keys [k]) (user_table_of n (db s)) else user_table_of n (db s))"
proof (cases "row_of name k (db s)")
  case None
  obtain u where u: "user_table_of name (db s) = Some u"
    using assms by (auto simp: app_delete_def split: if_splits)
  then have s': "s' = s" using assms None by (simp add: app_delete_def)
  have "k \<notin> fst ` set (u_rows u)" using None u by (simp add: row_of_def map_of_eq_None_iff)
  then have "filter (\<lambda>(k', _). k' \<noteq> k) (u_rows u) = u_rows u"
    by (intro filter_True) (auto simp: image_iff)
  then have "without_keys [k] u = u" by (simp add: without_keys_def)
  then show ?thesis using s' u user_table_of_cong [of n name] by auto
next
  case (Some r)
  let ?d = "map_rows name (AList.delete k) (db s)"
  have run: "with_trigger (after_delete name k) ?d s = (SQLITE_DONE, s')"
    using assms Some by (auto simp: app_delete_def row_of_def delete_row_def split: if_splits option.splits)
  obtain res s1 where t: "after_delete name k (s\<lparr>db := ?d\<rparr>) = (res, s1)" by fastforce
  then have "s' = s1" using run by (auto simp: with_trigger_def split: sql_result.splits)
  moreover have "d_users (db (snd (after_delete name k s2))) = d_users (db s2)" for s2
    using users_kept.local_delete_keeps [of s2 "d_users (db s2)"] by (simp add: after_delete_def)
  ultimately have "d_users (db s') = d_users (db (s\<lparr>db := ?d\<rparr>))" using t by (metis snd_conv)
  then have "user_table_of n (db s') = user_table_of n ?d" by (simp add: user_table_of_def)
  moreover have "AList.delete k xs = filter (\<lambda>(k', _). k' \<noteq> k) xs" for xs :: "(sqlval list \<times> row) list"
    by (induction xs) auto
  then have "without_keys [k] = (\<lambda>u. u\<lparr>u_rows := AList.delete k (u_rows u)\<rparr>)"
    by (simp add: without_keys_def fun_eq_iff)
  ultimately show ?thesis by (simp add: user_table_of_map_rows)
qed

lemma app_delete_rc: "fst (app_delete name k s) \<noteq> SQLITE_OK"
  by (auto simp: app_delete_def delete_row_def with_trigger_def split: prod.split sql_result.split)

lemma delete_rows_run:
  assumes "delete_rows name ks s = (SQLITE_OK, s')"
  shows "user_table_of n (db s') =
    (if str_case_eq n name then map_option (without_keys ks) (user_table_of n (db s)) else user_table_of n (db s))"
  using assms
proof (induction ks arbitrary: s)
  case Nil
  then show ?case by (simp add: option.map_ident_strong)
next
  case (Cons k ks)
  obtain s1 where s1: "app_delete name k s = (SQLITE_DONE, s1)" "delete_rows name ks s1 = (SQLITE_OK, s')"
    using Cons.prems app_delete_rc [of name k s] by (cases "app_delete name k s") (auto split: if_splits)
  then show ?case using Cons.IH [OF s1(2)] app_delete_rows [OF s1(1), of n]
    by (simp add: option.map_comp comp_def)
qed

lemma delete_rows_balanced:
  "faults s = [] \<Longrightarrow> faults (snd (delete_rows name ks s)) = [] \<and> savepoints (snd (delete_rows name ks s)) = savepoints s"
proof (induction ks arbitrary: s)
  case (Cons k ks)
  obtain rc s1 where 1: "app_delete name k s = (rc, s1)" by fastforce
  then have "faults s1 = []" "savepoints s1 = savepoints s"
    using balanced.app_keeps(3) [of s "savepoints s" name k] Cons.prems by auto
  with Cons.IH [of s1] show ?case using 1 by simp
qed simp

lemma delete_all_run:
  assumes "faults s = []" "delete_all name s = (rc, s')"
  shows "faults s' = []" "savepoints s' = savepoints s"
    "rc = SQLITE_OK \<Longrightarrow> emptied name (db s')" "rc = SQLITE_OK \<Longrightarrow> emptied t (db s) \<Longrightarrow> emptied t (db s')"
proof -
  obtain rc1 s1 where 1: "delete_rows name (row_keys name (db s)) s = (rc1, s1)" by fastforce
  show "faults s' = []" "savepoints s' = savepoints s"
    using assms 1 delete_rows_balanced [OF assms(1), of name "row_keys name (db s)"]
    by (auto simp: delete_all_def split: if_splits)
  {
    assume ok: "rc = SQLITE_OK"
    obtain u where u: "user_table_of name (db s) = Some u" and s': "s' = s1" "rc1 = SQLITE_OK"
      using assms 1 ok by (auto simp: delete_all_def split: if_splits)
    note after = delete_rows_run [OF 1 [unfolded s'(2)]]
    have "u_rows (without_keys (row_keys name (db s)) u) = []"
      using u by (auto simp: without_keys_def row_keys_def filter_empty_conv image_iff)
    moreover have "str_case_eq name name" by (simp add: str_case_eq_def)
    ultimately show "emptied name (db s')" using after [of name] u s'(1) by (simp add: emptied_def)
    show "emptied t (db s')" if "emptied t (db s)"
      using that after [of t] s'(1) by (auto simp: emptied_def without_keys_def)
  }
qed

section \<open>The tables of a logout\<close>

lemma emptied_cong: "d_users d' = d_users d \<Longrightarrow> emptied t d' = emptied t d"
  by (simp add: emptied_def user_table_of_def)

lemma logout_tables_run:
  assumes "faults s = []" "logout_tables junk uuid commits rows s = (rc, s')"
  shows "faults s' = [] \<and> savepoints s' = savepoints s \<and>
    (rc = SQLITE_OK \<longrightarrow> (\<forall>t. emptied t (db s) \<longrightarrow> emptied t (db s')) \<and>
       (\<forall>t x. ((t, ''algo''), x) \<in> set rows \<longrightarrow> emptied t (db s')))"
  using assms
proof (induction rows arbitrary: s)
  case (Cons row rows)
  obtain name key c v where row: "row = ((name, key), (c, v))" by (metis prod.exhaust)
  show ?case
  proof (cases "key = ''algo''")
    case False
    then show ?thesis using Cons by (auto simp: row)
  next
    case True
    obtain rc1 s1 where 1: "delete_all name s = (rc1, s1)" by fastforce
    note del = delete_all_run [OF Cons.prems(1) 1]
    obtain rc2 s2 where 2: "cloudsync_init junk uuid commits (Some name) (Some v) True s1 = (rc2, s2)" by fastforce
    have init: "faults s2 = []" "savepoints s2 = savepoints s1" "d_users (db s2) = d_users (db s1)"
      using init_balanced [OF del(1), of junk uuid commits "Some name" "Some v" True] 2 by simp_all
    consider "rc1 \<noteq> 0" "rc = rc1" "s' = s1" | "rc1 = 0" "rc2 \<noteq> 0" "rc = rc2" "s' = s2"
      | "rc1 = 0" "rc2 = 0" "logout_tables junk uuid commits rows s2 = (rc, s')"
      using Cons.prems(2) 1 2 del(1) True by (cases "rc1 = 0"; cases "rc2 = 0") (auto simp: row)
    then show ?thesis
    proof cases
      case 3
      have "emptied name (db s2)" "\<forall>t. emptied t (db s) \<longrightarrow> emptied t (db s2)"
        using del(3,4) 3(1) emptied_cong [OF init(3)] by simp_all
      then show ?thesis using Cons.IH [OF init(1) 3(3)] init(2) del(2) by (auto simp: row)
    qed (use del init in simp_all)
  qed
qed simp


text \<open>A table that is listed for synchronisation and is gone: the logout fails.\<close>

definition logout_demo :: state where
  "logout_demo = merge_demo\<lparr>db := (db merge_demo)\<lparr>d_table_settings := Some [((''zz'', ''algo''), (''*'', ''cls''))]\<rparr>\<rparr>"


end
