(* ===== verification/System.thy ===== *)
theory System
  imports Logout
begin

text \<open>
  The whole library as one transition system: an operation is one call of a SQL function of src/src/cloudsync.c or
  src/src/network.c, one statement of the application on a table or on \<open>cloudsync_changes\<close>, or something that happens
  around them: a commit, a rollback, a savepoint, a change of the database by the application or another connection,
  and new failures of the engine. The reachable states are those that any sequence of operations leads to.
\<close>

section \<open>Operations\<close>

datatype operation =
    AppInsert string "sqlval list" row
  | AppUpdate string "sqlval list" "sqlval list" row
  | AppDelete string "sqlval list"
  | InsertChange "sqlval list"
  | PayloadDecode sqlval
  | QueryChanges string "sqlval list"
  | InitTable "string option" "string option" bool
  | Cleanup string
  | Terminate
  | BeginAlter string
  | CommitAlter string
  | Enable string
  | Disable string
  | SetKey "string option" "string option"
  | SetTable "string option" "string option" "string option"
  | SetColumn "string option" "string option" "string option" "string option"
  | DbVersion
  | DbVersionNext "int option"
  | Seq
  | Commit
  | Rollback database
  | Environment database "(string \<times> database) list" "int list"
  | NetworkInit string
  | NetworkCleanup
  | SetToken "string option"
  | SetApikey "string option"
  | HasUnsentChanges
  | SendChanges
  | CheckChanges
  | SyncChanges int
  | ResetSyncVersion
  | LogOut

text \<open>\<open>in_db\<close> lifts what works on the context and the database.\<close>

definition in_db :: "(state \<Rightarrow> state) \<Rightarrow> 'w net \<Rightarrow> 'w net" where
  "in_db f n = n\<lparr>n_state := f (n_state n)\<rparr>"

text \<open>\<open>junk\<close>, \<open>uuid\<close> and \<open>commits\<close> as in \<open>Init\<close> may differ from call to call.\<close>

record choices =
  ch_junk :: string
  ch_uuid :: "byte list option"
  ch_commits :: bool

fun perform :: "('w, 'x) env \<Rightarrow> choices \<Rightarrow> operation \<Rightarrow> 'w net \<Rightarrow> 'w net" where
  "perform e c (AppInsert t k r) = in_db (\<lambda>s. snd (app_insert t k r s))"
| "perform e c (AppUpdate t k k' r) = in_db (\<lambda>s. snd (app_update t k k' r s))"
| "perform e c (AppDelete t k) = in_db (\<lambda>s. snd (app_delete t k s))"
| "perform e c (InsertChange vs) = in_db (\<lambda>s. snd (changes_insert (e_conversions e) (e_auto e) vs s))"
| "perform e c (PayloadDecode v) =
     in_db (\<lambda>s. snd (cloudsync_payload_decode (e_conversions e) (e_auto e) (e_alloc e) (e_lz4 e) (e_callback e) (e_xdata e) v s))"
| "perform e c (QueryChanges idxs args) = in_db (\<lambda>s. snd (scan_changes (e_engine e) idxs args s))"
| "perform e c (InitTable t algo skip) = in_db (\<lambda>s. snd (cloudsync_init (ch_junk c) (ch_uuid c) (ch_commits c) t algo skip s))"
| "perform e c (Cleanup t) = in_db (cloudsync_cleanup (ch_uuid c) t)"
| "perform e c Terminate = in_db cloudsync_terminate"
| "perform e c (BeginAlter t) = in_db (\<lambda>s. snd (cloudsync_begin_alter (ch_uuid c) (ch_commits c) t s))"
| "perform e c (CommitAlter t) = in_db (\<lambda>s. snd (cloudsync_commit_alter (ch_junk c) (ch_uuid c) (ch_commits c) t s))"
| "perform e c (Enable t) = in_db (cloudsync_enable t)"
| "perform e c (Disable t) = in_db (cloudsync_disable t)"
| "perform e c (SetKey k v) = in_db (cloudsync_set k v)"
| "perform e c (SetTable t k v) = in_db (cloudsync_set_table t k v)"
| "perform e c (SetColumn t col k v) = in_db (cloudsync_set_column t col k v)"
| "perform e c DbVersion = in_db (\<lambda>s. snd (cloudsync_db_version s))"
| "perform e c (DbVersionNext v) = in_db (\<lambda>s. snd (cloudsync_db_version_next v s))"
| "perform e c Seq = in_db (\<lambda>s. snd (cloudsync_seq s))"
| "perform e c Commit = in_db cloudsync_commit_hook"
| "perform e c (Rollback d) = in_db (\<lambda>s. cloudsync_rollback_hook (s\<lparr>db := d\<rparr>))"
| "perform e c (Environment d sp fs) = in_db (\<lambda>s. s\<lparr>db := d, savepoints := sp, faults := fs\<rparr>)"
| "perform e c (NetworkInit conn) = (\<lambda>n. snd (cloudsync_network_init e (ch_uuid c) conn n))"
| "perform e c NetworkCleanup = (\<lambda>n. snd (cloudsync_network_cleanup n))"
| "perform e c (SetToken v) = (\<lambda>n. snd (cloudsync_network_set_token e v n))"
| "perform e c (SetApikey v) = (\<lambda>n. snd (cloudsync_network_set_apikey e v n))"
| "perform e c HasUnsentChanges = (\<lambda>n. snd (cloudsync_network_has_unsent_changes e n))"
| "perform e c SendChanges = (\<lambda>n. snd (cloudsync_network_send_changes e n))"
| "perform e c CheckChanges = (\<lambda>n. snd (cloudsync_network_check_changes e n))"
| "perform e c (SyncChanges retries) = (\<lambda>n. snd (cloudsync_network_sync e retries n))"
| "perform e c ResetSyncVersion = in_db cloudsync_network_reset_sync_version"
| "perform e c LogOut = (\<lambda>n. snd (cloudsync_network_logout e (ch_junk c) (ch_uuid c) (ch_commits c) n))"

inductive reachable :: "('w, 'x) env \<Rightarrow> 'w \<Rightarrow> 'w net \<Rightarrow> bool" for e w where
  created: "reachable e w \<lparr>n_state = cloudsync_context_create d fs, n_aux = NoData, n_world = w, n_touched = False\<rparr>"
| performed: "reachable e w n \<Longrightarrow> reachable e w (perform e c operation n)"

section \<open>What every operation keeps\<close>

locale public_frame = system_frame +
  assumes keep_public:
    "P s \<Longrightarrow> P (s\<lparr>c_temp_bool := b\<rparr>)" "P s \<Longrightarrow> P (cloudsync_terminate s)"
    "P s \<Longrightarrow> P (s\<lparr>faults := fs\<rparr>)"
begin

lemma enable_disable_keeps: "P s \<Longrightarrow> P (cloudsync_enable_disable t v s)"
  by (auto simp: cloudsync_enable_disable_def split: option.split intro: keep_merge)

lemma enable_disable_all_keeps: "P s \<Longrightarrow> P (cloudsync_enable_disable_all v s)"
proof -
  assume "P s"
  then have "P (snd (next_fault (s\<lparr>c_temp_bool := v\<rparr>)))" by (intro next_fault_keeps keep_public)
  then show ?thesis
    by (auto simp: cloudsync_enable_disable_all_def split_beta intro!: fold_keeps enable_disable_keeps)
qed

lemma switches_keep: "P s \<Longrightarrow> P (cloudsync_enable t s)" "P s \<Longrightarrow> P (cloudsync_disable t s)"
  by (simp_all add: cloudsync_enable_def cloudsync_disable_def enable_disable_keeps enable_disable_all_keeps)

lemma setters_keep:
  "P s \<Longrightarrow> P (cloudsync_set k v s)" "P s \<Longrightarrow> P (cloudsync_set_table t k v s)" "P s \<Longrightarrow> P (cloudsync_set_column t col k v s)"
  by (simp_all add: cloudsync_set_def cloudsync_set_table_def cloudsync_set_column_def set_key_value_keeps
      set_table_setting_keeps split: option.split)

lemma clock_functions_keep:
  "P s \<Longrightarrow> P (snd (cloudsync_db_version s))" "P s \<Longrightarrow> P (snd (cloudsync_seq s))"
  by (simp_all add: cloudsync_db_version_def split_beta db_version_check_uptodate_keeps cloudsync_seq_def BUMP_SEQ_def keep_library)

lemma data_keeps: "n_state (snd (cloudsync_network_data e n)) = n_state n" "n_state (snd (get_auxdata n)) = n_state n"
  by (simp_all add: cloudsync_network_data_def get_auxdata_def split: aux.split)

lemma token_keeps:
  "n_state (snd (cloudsync_network_set_authentication_token e v b n)) = n_state n"
  using data_keeps(1) [of e n]
  by (auto simp: cloudsync_network_set_authentication_token_def split: prod.split option.split)

lemma set_token_keeps:
  "n_state (snd (cloudsync_network_set_token e v n)) = n_state n" "n_state (snd (cloudsync_network_set_apikey e v n)) = n_state n"
  using token_keeps by (simp_all add: cloudsync_network_set_token_def cloudsync_network_set_apikey_def split_beta)

lemma network_init_keeps: "P (n_state n) \<Longrightarrow> P (n_state (snd (cloudsync_network_init e uuid conn n)))"
  using data_keeps(1) [of e n] context_init_keeps [of "n_state n" uuid]
  by (auto simp: cloudsync_network_init_def Let_def split: prod.split option.split)

lemma last_local_change_keeps [keeps]: "P s \<Longrightarrow> P (snd (last_local_change select_from s))"
  unfolding last_local_change_def by (intro keeps | assumption | rule inner_pair_keeps)+

lemma has_unsent_keeps: "P (n_state n) \<Longrightarrow> P (n_state (snd (cloudsync_network_has_unsent_changes e n)))"
proof -
  assume P: "P (n_state n)"
  obtain rc vs s where x: "dbutils_exec (d_site_ids (db (n_state n)) \<noteq> None) 0 (last_local_change (e_engine e)) [1] (n_state n) = ((rc, vs), s)"
    by (metis prod.exhaust)
  have s: "P s" using dbutils_exec_keeps [OF P, of "last_local_change (e_engine e)"] last_local_change_keeps x by (metis snd_conv)
  obtain v s2 where g: "dbutils_settings_get_int_value KEY_SEND_DBVERSION s = (v, s2)" by fastforce
  then have "P s2" using get_int_value_keeps [OF s] by (metis snd_conv)
  then show ?thesis using x s g by (simp add: cloudsync_network_has_unsent_changes_def Let_def)
qed

lemma remember_sent_keeps: "P s \<Longrightarrow> P (remember_sent v q v' q' s)"
  by (simp add: remember_sent_def Let_def set_key_value_keeps)

lemma send_keeps: "P (n_state n) \<Longrightarrow> P (n_state (snd (cloudsync_network_send_changes_internal e n)))"
proof -
  assume P: "P (n_state n)"
  obtain v s1 where 1: "dbutils_settings_get_int_value KEY_SEND_DBVERSION (n_state n) = (v, s1)" by fastforce
  obtain q s2 where 2: "dbutils_settings_get_int_value KEY_SEND_SEQ s1 = (q, s2)" by fastforce
  obtain rc vs s3 where 3: "dbutils_exec True 0 (send_query (e_alloc e) (e_lz4 e) (e_engine e) v q) [4, 1, 1] s2 = ((rc, vs), s3)"
    by (metis prod.exhaust)
  have s1: "P s1" using get_int_value_keeps [OF P] 1 by (metis snd_conv)
  have s2: "P s2" using get_int_value_keeps [OF s1] 2 by (metis snd_conv)
  have s3: "P s3" using dbutils_exec_keeps [OF s2, of "send_query (e_alloc e) (e_lz4 e) (e_engine e) v q"] send_query_keeps 3
    by (metis snd_conv)
  obtain d n1 where a: "get_auxdata n = (d, n1)" "n_state n1 = n_state n" using data_keeps(2) [of n] by (metis prod.collapse)
  obtain ok w where u: "upload_blob e (the d) (result_blob vs) (n_world n1) = (ok, w)" by fastforce
  show ?thesis
  proof (cases d)
    case None
    then show ?thesis using P a by (simp add: cloudsync_network_send_changes_internal_def)
  next
    case (Some data)
    then show ?thesis using a 1 2 3 s1 s2 s3 u
      by (simp add: cloudsync_network_send_changes_internal_def Let_def remember_sent_keeps)
  qed
qed

lemma download_keeps:
  assumes "callback_keeps (e_callback e)" "P (n_state n)"
  shows "P (n_state (snd (network_download_changes e url n)))"
proof -
  obtain d n1 where a: "get_auxdata n = (d, n1)" "n_state n1 = n_state n" using data_keeps(2) [of n] by (metis prod.collapse)
  obtain res w where r: "network_receive_buffer (e_alloc e) (e_http e) url None False False None None (n_world n1) = (res, w)"
    by fastforce
  show ?thesis
  proof (cases d)
    case None
    then show ?thesis using assms(2) a by (simp add: network_download_changes_def)
  next
    case (Some data)
    then show ?thesis using a r assms(2)
      by (simp add: network_download_changes_def Let_def split_beta payload_apply_keeps [OF assms(1)])
  qed
qed

lemma check_keeps:
  assumes "callback_keeps (e_callback e)" "P (n_state n)"
  shows "P (n_state (snd (cloudsync_network_check_internal e n)))"
proof -
  obtain v s1 where 1: "dbutils_settings_get_int_value KEY_CHECK_DBVERSION (n_state n) = (v, s1)" by fastforce
  obtain q s2 where 2: "dbutils_settings_get_int_value KEY_CHECK_SEQ s1 = (q, s2)" by fastforce
  have s1: "P s1" using get_int_value_keeps [OF assms(2)] 1 by (metis snd_conv)
  have s2: "P s2" using get_int_value_keeps [OF s1] 2 by (metis snd_conv)
  obtain d n1 where a: "get_auxdata n = (d, n1)" "n_state n1 = n_state n" using data_keeps(2) [of n] by (metis prod.collapse)
  show ?thesis
  proof (cases d)
    case None
    then show ?thesis using assms(2) a by (simp add: cloudsync_network_check_internal_def)
  next
    case (Some data)
    then show ?thesis using a 1 2 s1 s2
      by (simp add: cloudsync_network_check_internal_def Let_def split_beta download_keeps [OF assms(1)])
  qed
qed

lemma sync_keeps:
  assumes "callback_keeps (e_callback e)" "P (n_state n)"
  shows "P (n_state (snd (cloudsync_network_sync e m n)))"
proof -
  have tries: "P (n_state n) \<Longrightarrow> P (n_state (snd (sync_tries e k r n)))" for k r n
  proof (induction k arbitrary: r n)
    case (Suc k)
    with check_keeps [OF assms(1) Suc.prems] show ?case by (auto split: prod.split)
  qed simp
  obtain rc res n1 where 1: "cloudsync_network_send_changes_internal e n = ((rc, res), n1)" by (metis prod.exhaust)
  then have n1: "P (n_state n1)" using send_keeps [OF assms(2), of e] by simp
  show ?thesis using 1 n1 tries [OF n1, of "nat m" "(0, res)"]
    by (simp add: cloudsync_network_sync_def split_beta)
qed

lemma reset_keeps: "P s \<Longrightarrow> P (cloudsync_network_reset_sync_version s)"
  by (simp add: cloudsync_network_reset_sync_version_def set_key_value_keeps)

lemma delete_all_keeps [keeps]: "P s \<Longrightarrow> P (snd (delete_all name s))"
proof -
  have rows: "P s \<Longrightarrow> P (snd (delete_rows name ks s))" for ks s
  proof (induction ks arbitrary: s)
    case (Cons k ks)
    show ?case unfolding delete_rows.simps by (intro keeps Cons)
  qed simp
  show "P s \<Longrightarrow> P (snd (delete_all name s))"
    unfolding delete_all_def
    by (rule step_keeps, assumption) (use rows in \<open>auto simp: split_beta intro: keep_db\<close>)
qed

lemma logout_tables_keeps [keeps]: "P s \<Longrightarrow> P (snd (logout_tables junk uuid commits rows s))"
proof (induction rows arbitrary: s)
  case (Cons row rows)
  obtain name key c v where row: "row = ((name, key), (c, v))" by (metis prod.exhaust)
  show ?case unfolding row logout_tables.simps by (intro keeps Cons)
qed simp

lemma logout_body_keeps: "P s \<Longrightarrow> P (snd (logout_body junk uuid commits s))"
  unfolding logout_body_def Let_def by (intro keeps rollback_release_keeps cleanup_keeps | assumption)+

lemma logout_keeps: "P (n_state n) \<Longrightarrow> P (n_state (snd (cloudsync_network_logout e junk uuid commits n)))"
proof -
  assume "P (n_state n)"
  then have "P (snd (next_fault (n_state n)))" by (rule next_fault_keeps)
  then show ?thesis
    by (simp add: cloudsync_network_logout_def Let_def split_beta logout_body_keeps set_token_keeps)
qed

lemma perform_keeps:
  assumes "callback_keeps (e_callback e)" "P (n_state n)"
  shows "P (n_state (perform e c x n))"
  by (cases x)
    (use assms in \<open>simp_all add: in_db_def app_keeps changes_insert_keeps payload_decode_keeps scan_changes_keeps init_keeps
       cleanup_keeps keep_public begin_alter_keeps commit_alter_keeps switches_keep setters_keep clock_functions_keep
       next_function_keeps commit_hook_keeps rollback_hook_keeps keep_db network_init_keeps cloudsync_network_cleanup_def
       set_token_keeps has_unsent_keeps sync_keeps reset_keeps logout_keeps send_keeps check_keeps
       cloudsync_network_send_changes_def cloudsync_network_check_changes_def split_beta split: aux.split\<close>)

end

section \<open>Invariants\<close>

interpretation registry_always: public_frame registry_ok
proof unfold_locales
  show "registry_ok s \<Longrightarrow> registry_ok (cloudsync_terminate s)" for s
    by (simp add: registry_ok_def cloudsync_terminate_def nth_append)
qed (erule registry_ok_cong [THEN iffD2, rotated 2]; simp)+

interpretation sync_off: public_frame "\<lambda>s. c_insync s = False"
  by unfold_locales (simp_all add: cloudsync_terminate_def)

lemma created_ok: "registry_ok (cloudsync_context_create d fs)" "\<not> c_insync (cloudsync_context_create d fs)"
  by (simp_all add: registry_ok_def cloudsync_context_create_def)

lemma reachable_invariant:
  assumes "reachable e w n" "e_callback e = None"
  shows "registry_ok (n_state n) \<and> \<not> c_insync (n_state n)"
  using assms(1)
proof induction
  case (created d fs)
  then show ?case by (simp add: created_ok)
next
  case (performed n c x)
  have cb: "registry_kept.callback_keeps (e_callback e)" "insync_off.callback_keeps (e_callback e)"
    unfolding registry_kept.callback_keeps_def insync_off.callback_keeps_def assms(2) by simp_all
  show ?case
    using performed.IH registry_always.perform_keeps [OF cb(1)] sync_off.perform_keeps [OF cb(2)] by simp
qed

text \<open>C6. Whatever sequence of calls of the library, statements of the application, changes of the database by others,
  commits, rollbacks and failures of the engine leads to a state: the registry of tables is in order, and the flag that
  hides writes from the triggers is clear. (The callback of an application on payloads may not touch the context.)\<close>

theorem system_invariant:
  assumes "reachable e w n" "e_callback e = None"
  shows "registry_ok (n_state n) \<and> \<not> c_insync (n_state n)"
  using assms by (rule reachable_invariant)

definition system_demo :: "unit net" where
  "system_demo = \<lparr>n_state = cloudsync_context_create
       (demo_db\<lparr>d_users := [(''t'', merge_users)], d_site_ids := Some [(0, replicate 16 1)]\<rparr>) [],
     n_aux = NoData, n_world = (), n_touched = False\<rparr>"

definition demo_choices :: choices where
  "demo_choices = \<lparr>ch_junk = [], ch_uuid = Some (replicate 16 1), ch_commits = True\<rparr>"

text \<open>The table \<open>t\<close> loaded from the settings.\<close>

definition demo_started :: "unit net" where
  "demo_started = perform (demo_env []) demo_choices (BeginAlter ''t'') system_demo"

lemma demo_started_reachable: "reachable (demo_env []) () demo_started"
  unfolding demo_started_def system_demo_def by (intro reachable.intros)

lemma demo_started_facts: "table_lookup ''t'' (n_state demo_started) = Some 0" "cloudsync_is_enabled ''t'' (n_state demo_started) = 1"
proof -
  have "(\<lambda>s. (table_lookup ''t'' s, cloudsync_is_enabled ''t'' s)) (n_state demo_started) = (Some 0, 1)" by code_simp
  then show "table_lookup ''t'' (n_state demo_started) = Some 0" "cloudsync_is_enabled ''t'' (n_state demo_started) = 1" by simp_all
qed

theorem system_invariant_witness:
  "registry_ok (n_state (perform (demo_env []) demo_choices LogOut demo_started))"
  by (rule conjunct1, rule system_invariant [of "demo_env []" "()", OF reachable.performed [OF demo_started_reachable]])
    (simp add: demo_env_def)





end
