(* ===== verification/Platform.thy ===== *)
theory Platform
  imports Transport
begin

text \<open>
  The transport of the WebAssembly build (src/src/wasm.c and the branches SQLITE_WASM_EXTRA_INIT of src/src/network.c):
  its parser of the connection string and its requests, and the small functions that all transports share. \<open>fetch\<close> of
  Emscripten is an argument; what it answers is a \<open>fetch_response\<close>.
\<close>

section \<open>Shared by the transports\<close>

record platform_result = network_result +
  nr_xdata :: bool
  nr_xfree :: bool

datatype freed = FreedXdata | FreedBuffer | FreedNothing

text \<open>What \<open>network_result_cleanup\<close> frees.\<close>

definition network_result_cleanup :: "platform_result \<Rightarrow> freed" where
  "network_result_cleanup res =
     (if nr_xfree res then (if nr_xdata res then FreedXdata else FreedNothing)
      else if nr_buffer res \<noteq> None then FreedBuffer else FreedNothing)"

definition network_data_get_siteid :: "network_data \<Rightarrow> string" where
  "network_data_get_siteid data = nd_site_id data"

definition network_data_set_endpoints ::
  "(nat \<Rightarrow> bool) \<Rightarrow> network_data \<Rightarrow> string option \<Rightarrow> string option \<Rightarrow> string option \<Rightarrow> bool \<Rightarrow> bool \<times> network_data" where
  "network_data_set_endpoints alloc data auth check upload duplicate =
     (let set_all = (\<lambda>a c u. (True, data\<lparr>nd_authentication := a, nd_check_endpoint := c, nd_upload_endpoint := u\<rparr>))
      in if \<not> duplicate then set_all auth check upload
         else
           let s1 = cloudsync_string_dup alloc auth False;
               s2 = cloudsync_string_dup alloc check False;
               s3 = cloudsync_string_dup alloc upload False
           in if auth \<noteq> None \<and> s1 = None \<or> s2 = None \<or> s3 = None then (False, data) else set_all s1 s2 s3)"

text \<open>The text of the error (\<open>None\<close>: the default message) and its code.\<close>

definition network_result_to_sqlite_error :: "platform_result \<Rightarrow> (byte list option \<times> int) \<times> freed" where
  "network_result_to_sqlite_error res =
     ((if nr_code res = CLOUDSYNC_NETWORK_ERROR then nr_buffer res else None, SQLITE_ERROR), network_result_cleanup res)"

section \<open>The connection string\<close>

text \<open>\<open>strstr(s, "://")\<close>: the text in front of it and the text behind it.\<close>

fun split_scheme :: "string \<Rightarrow> (string \<times> string) option" where
  "split_scheme [] = None"
| "split_scheme (c # s) =
     (if take 3 (c # s) = ''://'' then Some ([], drop 3 (c # s))
      else map_option (\<lambda>(a, b). (c # a, b)) (split_scheme s))"

text \<open>\<open>strpbrk\<close> and \<open>strchr\<close>: the text in front of the first of these characters, and the rest with it.\<close>

definition split_at :: "string \<Rightarrow> string \<Rightarrow> string \<times> string" where
  "split_at stops s = (takeWhile (\<lambda>c. c \<notin> set stops) s, dropWhile (\<lambda>c. c \<notin> set stops) s)"

definition substr :: "(nat \<Rightarrow> bool) \<Rightarrow> string \<Rightarrow> string option" where
  "substr alloc s = (if alloc (length s + 1) then Some s else None)"

definition starts_with :: "char \<Rightarrow> string \<Rightarrow> bool" where
  "starts_with c s \<longleftrightarrow> (case s of [] \<Rightarrow> False | x # _ \<Rightarrow> x = c)"

text \<open>The port and the rest; \<open>None\<close> when nothing ends the port.\<close>

definition wasm_port :: "(nat \<Rightarrow> bool) \<Rightarrow> string \<Rightarrow> (string option \<times> string) option" where
  "wasm_port alloc p =
     (if \<not> starts_with CHR '':'' p then Some (None, p)
      else case split_at ''/?'' (tl p) of (port, rest) \<Rightarrow>
        if rest = [] then None else Some (substr alloc port, rest))"

definition wasm_parse_url :: "(nat \<Rightarrow> bool) \<Rightarrow> string \<Rightarrow> url_parts option" where
  "wasm_parse_url alloc url =
     (case split_scheme url of
        None \<Rightarrow> None
      | Some (scheme, p) \<Rightarrow>
        (let (host, p) = split_at '':/?'' p
         in if p = [] then None
            else (case wasm_port alloc p of
                None \<Rightarrow> None
              | Some (port, p) \<Rightarrow>
                (let (database, p) = (if starts_with CHR ''/'' p then (let (d, r) = split_at ''?'' p in (substr alloc d, r)) else (None, p));
                     query = (if starts_with CHR ''?'' p then substr alloc p else None)
                 in (case (substr alloc scheme, substr alloc host, database) of
                      (Some scheme, Some host, Some database) \<Rightarrow>
                        Some \<lparr>up_scheme = scheme, up_host = host, up_port = port, up_path = database, up_query = query\<rparr>
                    | _ \<Rightarrow> None)))))"

text \<open>The query still has its question mark, which \<open>network_extract_query_param\<close> skips in this build.\<close>

definition skip_question :: "string \<Rightarrow> string" where
  "skip_question q = (if starts_with CHR ''?'' q then tl q else q)"

definition wasm_query_authentication :: "(nat \<Rightarrow> bool) \<Rightarrow> string option \<Rightarrow> string option" where
  "wasm_query_authentication alloc query = query_authentication alloc (map_option skip_question query)"

text \<open>\<open>None\<close>: there is no memory for the connection string, and \<open>strstr\<close> is given NULL.\<close>

definition wasm_compute_endpoints ::
  "(nat \<Rightarrow> bool) \<Rightarrow> string \<Rightarrow> network_data \<Rightarrow> (int option \<times> network_data) option" where
  "wasm_compute_endpoints alloc conn_string data =
     (case cloudsync_string_replace_prefix alloc conn_string ''sqlitecloud://'' ''https://'' of
        None \<Rightarrow> None
      | Some url \<Rightarrow> Some
        (case wasm_parse_url alloc url of
           None \<Rightarrow> (Some SQLITE_ERROR, data)
         | Some u \<Rightarrow>
           let authentication = wasm_query_authentication alloc (up_query u); requested = endpoint_size u in
           if \<not> alloc requested then (Some SQLITE_ERROR, data)
           else
            (None, data\<lparr>nd_authentication := (if authentication \<noteq> None then authentication else nd_authentication data),
               nd_check_endpoint := Some (take (requested - 1) (endpoint_text u (nd_site_id data))),
               nd_upload_endpoint := Some (take (requested - 1) (endpoint_text u (nd_site_id data) @ ''/'' @ ''upload''))\<rparr>)))"

section \<open>Requests\<close>

record fetch_request =
  fq_url :: string
  fq_method :: string
  fq_headers :: "string list"
  fq_body :: "byte list option"

record fetch_response =
  fp_ready_state :: int
  fp_data :: "byte list option"
  fp_total_bytes :: nat
  fp_status :: int
  fp_status_text :: "byte list option"

type_synonym 'w fetches = "fetch_request \<Rightarrow> 'w \<Rightarrow> fetch_response \<times> 'w"

text \<open>\<open>snprintf\<close> into 256 bytes.\<close>

definition bearer :: "string \<Rightarrow> string" where
  "bearer authentication = take 255 (''Bearer '' @ authentication)"

definition custom_headers :: "string option \<Rightarrow> string list" where
  "custom_headers custom_header =
     (case custom_header of None \<Rightarrow> []
      | Some h \<Rightarrow>
        (case split_at '':'' h of (key, rest) \<Rightarrow>
           if rest = [] then [] else [key, dropWhile (\<lambda>c. c = CHR '' '') (tl rest)]))"

definition authorization_headers :: "string option \<Rightarrow> string list" where
  "authorization_headers authentication =
     (case authentication of None \<Rightarrow> [] | Some a \<Rightarrow> [''Authorization'', bearer a])"

definition wasm_receive_headers :: "string option \<Rightarrow> string option \<Rightarrow> string option \<Rightarrow> string list" where
  "wasm_receive_headers custom_header authentication json_payload =
     custom_headers custom_header @ authorization_headers authentication @
     (if json_payload \<noteq> None then [''Content-Type'', ''application/json''] else [])"

definition wasm_send_headers :: "string option \<Rightarrow> string list" where
  "wasm_send_headers authentication =
     [''Accept'', ''text/plain''] @ authorization_headers authentication @ [''Content-Type'', ''application/octet-stream'']"

text \<open>\<open>sizeof(fetch->statusText)\<close> in Emscripten's header.\<close>

abbreviation (input) STATUS_TEXT_SIZE :: int where "STATUS_TEXT_SIZE \<equiv> 64"

definition wasm_receive_buffer ::
  "(nat \<Rightarrow> bool) \<Rightarrow> 'w fetches \<Rightarrow> string \<Rightarrow> string option \<Rightarrow> bool \<Rightarrow> bool \<Rightarrow> string option \<Rightarrow> string option \<Rightarrow> 'w \<Rightarrow>
   platform_result \<times> 'w" where
  "wasm_receive_buffer alloc fetches endpoint authentication zero_terminated is_post_request json_payload custom_header w =
     (case fetches \<lparr>fq_url = endpoint,
          fq_method = (if json_payload \<noteq> None \<or> is_post_request then ''POST'' else ''GET''),
          fq_headers = wasm_receive_headers custom_header authentication json_payload,
          fq_body = map_option text_bytes json_payload\<rparr> w of (r, w) \<Rightarrow>
      let buffer = (if fp_ready_state r = 4 then fp_data r else None);
          blen = (if fp_ready_state r = 4 then fp_total_bytes r else 0);
          none = \<lparr>nr_code = CLOUDSYNC_NETWORK_OK, nr_buffer = None, nr_blen = 0, nr_xdata = False, nr_xfree = False\<rparr>
      in (if 200 \<le> fp_status r \<and> fp_status r < 300 then
            (case buffer of
               Some bs \<Rightarrow>
                 if blen = 0 then none
                 else if alloc (blen + 1) then
                   none\<lparr>nr_code := CLOUDSYNC_NETWORK_BUFFER, nr_buffer := Some (take blen bs), nr_blen := int blen, nr_xfree := True\<rparr>
                 else none\<lparr>nr_code := CLOUDSYNC_NETWORK_ERROR\<rparr>
             | None \<Rightarrow> none)
          else
            none\<lparr>nr_code := CLOUDSYNC_NETWORK_ERROR,
              nr_buffer := (case fp_status_text r of
                  Some t \<Rightarrow> if cstr t = [] then None else if alloc (length (cstr t) + 1) then Some (cstr t) else None
                | None \<Rightarrow> None),
              nr_blen := STATUS_TEXT_SIZE, nr_xfree := True\<rparr>, w))"

definition wasm_send_buffer ::
  "'w fetches \<Rightarrow> string \<Rightarrow> string option \<Rightarrow> byte list \<Rightarrow> 'w \<Rightarrow> bool \<times> 'w" where
  "wasm_send_buffer fetches endpoint authentication blob w =
     (case fetches \<lparr>fq_url = endpoint, fq_method = ''PUT'', fq_headers = wasm_send_headers authentication,
          fq_body = Some blob\<rparr> w of (r, w) \<Rightarrow>
      (200 \<le> fp_status r \<and> fp_status r < 300, w))"

section \<open>The parser\<close>

definition well_formed_url :: "url_parts \<Rightarrow> bool" where
  "well_formed_url u \<longleftrightarrow> CHR '':'' \<notin> set (up_scheme u) \<and> set (up_host u) \<inter> set '':/?'' = {} \<and>
     (case up_port u of None \<Rightarrow> True | Some p \<Rightarrow> set p \<inter> set ''/?'' = {}) \<and>
     starts_with CHR ''/'' (up_path u) \<and> CHR ''?'' \<notin> set (up_path u)"

text \<open>\<open>scheme://host[:port]/path[?query]\<close>\<close>

definition url_rest :: "url_parts \<Rightarrow> string" where
  "url_rest u = up_host u @ (case up_port u of None \<Rightarrow> [] | Some p \<Rightarrow> CHR '':'' # p) @ up_path u @
     (case up_query u of None \<Rightarrow> [] | Some q \<Rightarrow> CHR ''?'' # q)"

definition url_text :: "url_parts \<Rightarrow> string" where
  "url_text u = up_scheme u @ ''://'' @ url_rest u"

definition with_question :: "url_parts \<Rightarrow> url_parts" where
  "with_question u = u\<lparr>up_query := map_option (\<lambda>q. CHR ''?'' # q) (up_query u)\<rparr>"

lemma split_scheme_text: "CHR '':'' \<notin> set a \<Longrightarrow> split_scheme (a @ CHR '':'' # CHR ''/'' # CHR ''/'' # b) = Some (a, b)"
  by (induction a) auto

lemma split_at_text:
  "set a \<inter> set stops = {} \<Longrightarrow> (case b of [] \<Rightarrow> True | c # _ \<Rightarrow> c \<in> set stops) \<Longrightarrow> split_at stops (a @ b) = (a, b)"
proof -
  assume a: "set a \<inter> set stops = {}" and b: "case b of [] \<Rightarrow> True | c # _ \<Rightarrow> c \<in> set stops"
  have "\<forall>x \<in> set a. x \<notin> set stops" using a by blast
  then show ?thesis using b by (cases b) (simp_all add: split_at_def takeWhile_append dropWhile_append)
qed

lemma parse_steps:
  assumes "split_scheme url = Some (s, r)" "split_at '':/?'' r = (h, r1)" "r1 \<noteq> []" "wasm_port alloc r1 = Some (port, r2)"
    "starts_with CHR ''/'' r2" "split_at ''?'' r2 = (d, q)" "\<forall>n. alloc n"
  shows "wasm_parse_url alloc url = Some \<lparr>up_scheme = s, up_host = h, up_port = port, up_path = d,
    up_query = (if starts_with CHR ''?'' q then Some q else None)\<rparr>"
  using assms by (simp add: wasm_parse_url_def substr_def Let_def)

lemma wasm_parse_url_text:
  assumes "well_formed_url u" "\<forall>n. alloc n"
  shows "wasm_parse_url alloc (url_text u) = Some (with_question u)"
proof -
  obtain path where path: "up_path u = CHR ''/'' # path"
    using assms(1) by (auto simp: well_formed_url_def starts_with_def split: list.splits)
  let ?query = "case up_query u of None \<Rightarrow> [] | Some q \<Rightarrow> CHR ''?'' # q"
  let ?rest = "(case up_port u of None \<Rightarrow> [] | Some p \<Rightarrow> CHR '':'' # p) @ up_path u @ ?query"
  have scheme: "split_scheme (url_text u) = Some (up_scheme u, up_host u @ ?rest)"
    using split_scheme_text assms(1) by (simp add: url_text_def url_rest_def well_formed_url_def)
  have host: "split_at '':/?'' (up_host u @ ?rest) = (up_host u, ?rest)"
    by (rule split_at_text) (use assms(1) path in \<open>auto simp: well_formed_url_def split: option.splits list.splits\<close>)
  have port: "wasm_port alloc ?rest = Some (up_port u, up_path u @ ?query)"
  proof (cases "up_port u")
    case None
    then show ?thesis using path by (simp add: wasm_port_def starts_with_def)
  next
    case (Some p)
    then have "split_at ''/?'' (p @ up_path u @ ?query) = (p, up_path u @ ?query)"
      by (intro split_at_text) (use assms(1) path in \<open>auto simp: well_formed_url_def\<close>)
    with Some show ?thesis using path assms(2) by (simp add: wasm_port_def starts_with_def substr_def)
  qed
  have "split_at ''?'' (up_path u @ ?query) = (up_path u, ?query)"
    by (rule split_at_text) (use assms(1) in \<open>auto simp: well_formed_url_def split: option.splits\<close>)
  moreover have "starts_with CHR ''/'' (up_path u @ ?query)" using path by (simp add: starts_with_def)
  moreover have "?rest \<noteq> []" using path by simp
  ultimately have "wasm_parse_url alloc (url_text u) =
      Some \<lparr>up_scheme = up_scheme u, up_host = up_host u, up_port = up_port u, up_path = up_path u,
        up_query = (if starts_with CHR ''?'' ?query then Some ?query else None)\<rparr>"
    using parse_steps [OF scheme host _ port] assms(2) by blast
  then show ?thesis by (simp add: with_question_def starts_with_def split: option.splits)
qed

text \<open>C35. The parser of the WebAssembly build gives back the parts that a URL was put together from, for
  every scheme, host, optional port, path and optional query.\<close>

theorem wasm_url_roundtrip:
  assumes "well_formed_url u" "\<forall>n. alloc n"
  shows "wasm_parse_url alloc (url_text u) = Some (with_question u)"
  using assms by (rule wasm_parse_url_text)

definition demo_url :: url_parts where
  "demo_url = \<lparr>up_scheme = ''https'', up_host = ''g5.sqlite.cloud'', up_port = Some ''8860'', up_path = ''/db'',
     up_query = Some ''apikey=k''\<rparr>"

lemma demo_url_ok: "well_formed_url demo_url"
  by (simp add: well_formed_url_def demo_url_def starts_with_def)

theorem wasm_url_roundtrip_witness:
  "wasm_parse_url (\<lambda>_. True) ''https://g5.sqlite.cloud:8860/db?apikey=k'' = Some (with_question demo_url)"
  using wasm_url_roundtrip [OF demo_url_ok, of "\<lambda>_. True"] by (simp add: url_text_def url_rest_def demo_url_def)

lemma endpoint_with_question:
  "endpoint_text (with_question u) = endpoint_text u" "endpoint_size (with_question u) = endpoint_size u"
  by (simp_all add: fun_eq_iff endpoint_text_def endpoint_size_def with_question_def)

lemma skip_with_question: "map_option skip_question (up_query (with_question u)) = up_query u"
  by (cases "up_query u") (simp_all add: with_question_def skip_question_def starts_with_def)



section \<open>The requests\<close>

text \<open>A response of the same server, as \<open>fetch\<close> and as curl see it.\<close>

definition same_response :: "fetch_response \<Rightarrow> response \<Rightarrow> bool" where
  "same_response f r \<longleftrightarrow> fp_ready_state f = 4 \<and> fp_data f = Some (concat (rs_chunks r)) \<and>
     fp_total_bytes f = length (concat (rs_chunks r)) \<and> rs_rc r = 0 \<and> rs_status r = fp_status f"



text \<open>The arrays of headers (11 and 7 entries, with the NULL that ends them) are large enough.\<close>

lemma custom_headers_length: "length (custom_headers c) \<le> 2"
  by (auto simp: custom_headers_def split: option.split prod.split)

lemma wasm_headers_fit: "length (wasm_receive_headers c a j) + 1 \<le> 11" "length (wasm_send_headers a) + 1 \<le> 7"
  using custom_headers_length [of c]
  by (simp_all add: wasm_receive_headers_def wasm_send_headers_def authorization_headers_def split: option.split)

fun header_lines :: "string list \<Rightarrow> string list" where
  "header_lines (k # v # hs) = (k @ '': '' @ v) # header_lines hs"
| "header_lines _ = []"

lemma bearer_whole: "length a \<le> 248 \<Longrightarrow> bearer a = ''Bearer '' @ a"
  by (simp add: bearer_def)

text \<open>An authorised request has the same headers in both builds, when the token has at most 248 characters,
  and they fit into the array.\<close>

theorem wasm_headers_as_curl:
  assumes "length a \<le> 248" "CHR '':'' \<notin> set k" "\<not> starts_with CHR '' '' v"
  shows "header_lines (wasm_receive_headers (Some (k @ '': '' @ v)) (Some a) j) = request_headers (Some (k @ '': '' @ v)) (Some a) j \<and>
    length (wasm_receive_headers (Some (k @ '': '' @ v)) (Some a) j) + 1 \<le> 11 \<and> length (wasm_send_headers (Some a)) + 1 \<le> 7"
proof -
  have "split_at '':'' (k @ CHR '':'' # CHR '' '' # v) = (k, CHR '':'' # CHR '' '' # v)"
    by (rule split_at_text) (use assms(2) in auto)
  moreover have "dropWhile (\<lambda>c. c = CHR '' '') v = v"
    using assms(3) by (cases v) (simp_all add: starts_with_def)
  ultimately have "custom_headers (Some (k @ '': '' @ v)) = [k, v]" by (simp add: custom_headers_def)
  then show ?thesis using assms(1) wasm_headers_fit
    by (simp add: wasm_receive_headers_def request_headers_def authorization_headers_def bearer_whole auth_header_def)
qed

theorem wasm_headers_as_curl_witness:
  "header_lines (wasm_receive_headers (Some ''Accept: sqlc/plain'') (Some ''sqa_1'') None) =
   [''Accept: sqlc/plain'', ''Authorization: Bearer sqa_1'']"
  using wasm_headers_as_curl [of "''sqa_1''" "''Accept''" "''sqlc/plain''" None]
  by (simp add: starts_with_def request_headers_def auth_header_def)

text \<open>A longer token is cut without a word.\<close>

lemma long_token_cut: "length a > 248 \<Longrightarrow> length (bearer a) = 255 \<and> bearer a \<noteq> ''Bearer '' @ a"
proof -
  assume a: "length a > 248"
  then have "length (bearer a) = 255" "length (''Bearer '' @ a) > 255" by (simp_all add: bearer_def)
  then show ?thesis by (metis less_irrefl)
qed

text \<open>\<open>xdata\<close> is never set, so the cleanup frees NULL and the buffer is lost.\<close>

lemma wasm_result_leaks:
  assumes "nr_buffer (fst (wasm_receive_buffer alloc fetches url auth z p json custom w)) \<noteq> None"
  shows "network_result_cleanup (fst (wasm_receive_buffer alloc fetches url auth z p json custom w)) = FreedNothing"
proof -
  obtain r w' where r: "fetches \<lparr>fq_url = url, fq_method = (if json \<noteq> None \<or> p then ''POST'' else ''GET''),
      fq_headers = wasm_receive_headers custom auth json, fq_body = map_option text_bytes json\<rparr> w = (r, w')" by fastforce
  let ?res = "fst (wasm_receive_buffer alloc fetches url auth z p json custom w)"
  have "\<not> nr_xdata ?res" using r by (simp add: wasm_receive_buffer_def Let_def split: option.split)
  moreover have "nr_xfree ?res" using r assms by (simp add: wasm_receive_buffer_def Let_def split: option.splits if_splits)
  ultimately show ?thesis by (simp add: network_result_cleanup_def)
qed

lemma set_endpoints_all_or_nothing:
  assumes "network_data_set_endpoints alloc data auth (Some check) (Some upload) True = (ok, data')"
  shows "data' = (if ok then data\<lparr>nd_authentication := auth, nd_check_endpoint := Some check, nd_upload_endpoint := Some upload\<rparr> else data)"
proof -
  have dup: "cloudsync_string_dup alloc x False = (case x of None \<Rightarrow> None | Some s \<Rightarrow> if alloc (length s + 1) then Some s else None)" for x
    by (simp add: cloudsync_string_dup_def cloudsync_string_ndup_def split: option.split)
  show ?thesis using assms unfolding network_data_set_endpoints_def Let_def dup
    by (cases auth) (simp_all split: if_splits)
qed

end
