(* ===== verification/Entry.thy ===== *)
theory Entry
  imports System Platform
begin

text \<open>
  The entry point of the extension (\<open>sqlite3_cloudsync_init\<close> of src/src/cloudsync.c, \<open>cloudsync_network_register\<close> of
  src/src/network.c, \<open>dbutils_register_function\<close> and \<open>dbutils_register_aggregate\<close> of src/src/dbutils.c,
  \<open>cloudsync_vtab_register_changes\<close> of src/src/vtab.c): which SQL functions a connection has afterwards, under which
  names and numbers of arguments, and which operation of \<open>System\<close> each call is.

  The connection is the state of SQLite that the registration changes: its functions, the hooks and the module. The
  context is \<open>cn_state\<close>; before it is created only the database and the failures in \<open>cn_state\<close> mean anything.
\<close>

section \<open>The functions of SQL\<close>

text \<open>The C functions by name.\<close>

datatype sql_function =
    Fn_version | Fn_init1 | Fn_init2 | Fn_init3 | Fn_enable | Fn_disable | Fn_is_enabled | Fn_cleanup | Fn_terminate
  | Fn_set | Fn_set_table | Fn_set_column | Fn_siteid | Fn_db_version | Fn_db_version_next | Fn_begin_alter
  | Fn_commit_alter | Fn_uuid | Fn_payload_encode | Fn_payload_decode | Fn_is_sync | Fn_insert | Fn_update | Fn_delete
  | Fn_col_value | Fn_pk_encode | Fn_pk_decode | Fn_seq
  | Fn_network_init | Fn_network_cleanup | Fn_network_set_token | Fn_network_set_apikey | Fn_network_has_unsent_changes
  | Fn_network_send_changes | Fn_network_check_changes | Fn_network_sync0 | Fn_network_sync2
  | Fn_network_reset_sync_version | Fn_network_logout

text \<open>Name, number of arguments (-1 for any) and function. One registration of this list is an aggregate.\<close>

type_synonym registration = "string \<times> int \<times> sql_function"

definition core_functions :: "registration list" where
  "core_functions =
     [(''cloudsync_version'', 0, Fn_version),
      (''cloudsync_init'', 1, Fn_init1),
      (''cloudsync_init'', 2, Fn_init2),
      (''cloudsync_init'', 3, Fn_init3),
      (''cloudsync_enable'', 1, Fn_enable),
      (''cloudsync_disable'', 1, Fn_disable),
      (''cloudsync_is_enabled'', 1, Fn_is_enabled),
      (''cloudsync_cleanup'', 1, Fn_cleanup),
      (''cloudsync_terminate'', 0, Fn_terminate),
      (''cloudsync_set'', 2, Fn_set),
      (''cloudsync_set_table'', 3, Fn_set_table),
      (''cloudsync_set_column'', 4, Fn_set_column),
      (''cloudsync_siteid'', 0, Fn_siteid),
      (''cloudsync_db_version'', 0, Fn_db_version),
      (''cloudsync_db_version_next'', 0, Fn_db_version_next),
      (''cloudsync_db_version_next'', 1, Fn_db_version_next),
      (''cloudsync_begin_alter'', 1, Fn_begin_alter),
      (''cloudsync_commit_alter'', 1, Fn_commit_alter),
      (''cloudsync_uuid'', 0, Fn_uuid),
      (''cloudsync_payload_encode'', -1, Fn_payload_encode),
      (''cloudsync_payload_decode'', -1, Fn_payload_decode),
      (''cloudsync_is_sync'', 1, Fn_is_sync),
      (''cloudsync_insert'', -1, Fn_insert),
      (''cloudsync_update'', -1, Fn_update),
      (''cloudsync_delete'', -1, Fn_delete),
      (''cloudsync_col_value'', 3, Fn_col_value),
      (''cloudsync_pk_encode'', -1, Fn_pk_encode),
      (''cloudsync_pk_decode'', 2, Fn_pk_decode),
      (''cloudsync_seq'', 0, Fn_seq)]"

definition network_functions :: "registration list" where
  "network_functions =
     [(''cloudsync_network_init'', 1, Fn_network_init),
      (''cloudsync_network_cleanup'', 0, Fn_network_cleanup),
      (''cloudsync_network_set_token'', 1, Fn_network_set_token),
      (''cloudsync_network_set_apikey'', 1, Fn_network_set_apikey),
      (''cloudsync_network_has_unsent_changes'', 0, Fn_network_has_unsent_changes),
      (''cloudsync_network_send_changes'', 0, Fn_network_send_changes),
      (''cloudsync_network_check_changes'', 0, Fn_network_check_changes),
      (''cloudsync_network_sync'', 0, Fn_network_sync0),
      (''cloudsync_network_sync'', 2, Fn_network_sync2),
      (''cloudsync_network_reset_sync_version'', 0, Fn_network_reset_sync_version),
      (''cloudsync_network_logout'', 0, Fn_network_logout)]"

section \<open>Registration\<close>

text \<open>Function names of SQL do not depend on case; \<open>cn_freed\<close> says that SQLite called the destructor of the context.\<close>

type_synonym function_key = "string \<times> int"

record connection =
  cn_state :: state
  cn_functions :: "(function_key \<times> sql_function) list"
  cn_hooks :: bool
  cn_module :: bool
  cn_freed :: bool

definition key_of :: "registration \<Rightarrow> function_key" where
  "key_of r = (lowercase (fst r), fst (snd r))"

text \<open>\<open>sqlite3_create_function_v2\<close>; when it fails it calls the destructor it was given.\<close>

definition create_function :: "registration \<Rightarrow> bool \<Rightarrow> connection \<Rightarrow> int \<times> connection" where
  "create_function r ctx_free c =
     (case next_fault (cn_state c) of (rc, s) \<Rightarrow>
        if rc \<noteq> SQLITE_OK then (rc, c\<lparr>cn_state := s, cn_freed := (cn_freed c \<or> ctx_free)\<rparr>)
        else (SQLITE_OK, c\<lparr>cn_state := s, cn_functions := AList.update (key_of r) (snd (snd r)) (cn_functions c)\<rparr>))"

definition dbutils_register_function :: "registration \<Rightarrow> bool \<Rightarrow> connection \<Rightarrow> int \<times> connection" where
  "dbutils_register_function r ctx_free c =
     (case create_function r ctx_free c of (rc, c) \<Rightarrow> if rc \<noteq> SQLITE_OK then (rc, c) else (SQLITE_OK, c))"

definition dbutils_register_aggregate :: "registration \<Rightarrow> bool \<Rightarrow> connection \<Rightarrow> int \<times> connection" where
  "dbutils_register_aggregate r ctx_free c =
     (case create_function r ctx_free c of (rc, c) \<Rightarrow> if rc \<noteq> SQLITE_OK then (rc, c) else (SQLITE_OK, c))"

text \<open>The calls in a row, each followed by \<open>if (rc != SQLITE_OK) return rc\<close>. Only the first owns the context.\<close>

definition register_one :: "registration \<Rightarrow> connection \<Rightarrow> int \<times> connection" where
  "register_one r c =
     (if snd (snd r) = Fn_payload_encode then dbutils_register_aggregate r False c
      else dbutils_register_function r (snd (snd r) = Fn_version) c)"

fun register_list :: "registration list \<Rightarrow> connection \<Rightarrow> int \<times> connection" where
  "register_list [] c = (SQLITE_OK, c)"
| "register_list (r # rs) c =
     (case register_one r c of (rc, c) \<Rightarrow> if rc \<noteq> SQLITE_OK then (rc, c) else register_list rs c)"

definition cloudsync_network_register :: "connection \<Rightarrow> int \<times> connection" where
  "cloudsync_network_register c = register_list network_functions c"

definition cloudsync_vtab_register_changes :: "connection \<Rightarrow> int \<times> connection" where
  "cloudsync_vtab_register_changes c =
     (case next_fault (cn_state c) of (rc, s) \<Rightarrow>
        (rc, c\<lparr>cn_state := s, cn_module := (cn_module c \<or> rc = SQLITE_OK)\<rparr>))"

text \<open>What SQLite finds for a call: the function of exactly this number of arguments, else one that takes any number.\<close>

definition find_function :: "string \<Rightarrow> int \<Rightarrow> connection \<Rightarrow> sql_function option" where
  "find_function name n c =
     (case map_of (cn_functions c) (lowercase name, n) of
        Some f \<Rightarrow> Some f | None \<Rightarrow> map_of (cn_functions c) (lowercase name, -1))"

definition cloudsync_config_exists :: "state \<Rightarrow> bool \<times> state" where
  "cloudsync_config_exists s = dbutils_table_exists ''cloudsync_site_id'' s"

text \<open>
  \<open>has_context\<close> and \<open>has_tables\<close> say whether the two allocations of \<open>cloudsync_context_create\<close> succeed; without the first
  one the code writes through NULL (\<open>ub\<close>).
\<close>

definition create_context :: "bool \<Rightarrow> bool \<Rightarrow> state \<Rightarrow> bool \<times> state" where
  "create_context has_context has_tables s =
     (if \<not> has_context then (False, s\<lparr>ub := True\<rparr>)
      else if \<not> has_tables then (False, s)
      else (True, cloudsync_context_create (db s) (faults s)\<lparr>savepoints := savepoints s, ub := ub s\<rparr>))"

definition select_version :: "connection \<Rightarrow> int \<times> connection" where
  "select_version c =
     (case next_fault (cn_state c) of (rc, s) \<Rightarrow>
        (if rc \<noteq> SQLITE_OK then rc else if find_function ''cloudsync_version'' 0 c = None then SQLITE_ERROR else SQLITE_OK,
         c\<lparr>cn_state := s\<rparr>))"

definition load_config :: "byte list option \<Rightarrow> connection \<Rightarrow> connection" where
  "load_config uuid c =
     (case cloudsync_config_exists (cn_state c) of (ex, s) \<Rightarrow>
        c\<lparr>cn_state := (if ex then snd (cloudsync_context_init uuid s) else s)\<rparr>)"

definition sqlite3_cloudsync_init :: "bool \<Rightarrow> bool \<Rightarrow> byte list option \<Rightarrow> connection \<Rightarrow> int \<times> connection" where
  "sqlite3_cloudsync_init has_context has_tables uuid c =
     (case select_version c of (rc, c) \<Rightarrow>
      if rc = SQLITE_OK then (SQLITE_OK, c)
      else case create_context has_context has_tables (cn_state c) of (ok, s) \<Rightarrow>
      let c = c\<lparr>cn_state := s\<rparr> in
      if \<not> ok then (SQLITE_NOMEM, c)
      else case register_list core_functions c of (rc, c) \<Rightarrow>
      if rc \<noteq> SQLITE_OK then (rc, c)
      else case cloudsync_network_register c of (rc, c) \<Rightarrow>
      if rc \<noteq> SQLITE_OK then (rc, c)
      else case cloudsync_vtab_register_changes (c\<lparr>cn_hooks := True\<rparr>) of (rc, c) \<Rightarrow>
      if rc \<noteq> SQLITE_OK then (rc, c)
      else (SQLITE_OK, load_config uuid c))"

section \<open>Calls of the functions\<close>

text \<open>\<open>sqlite3_value_text\<close> and \<open>sqlite3_value_int\<close> of an argument.\<close>

definition arg_text :: "conversions \<Rightarrow> sqlval \<Rightarrow> string option" where
  "arg_text cv v = (if v = VNull then None else Some (value_text cv v))"

definition arg_int :: "conversions \<Rightarrow> sqlval \<Rightarrow> int" where
  "arg_int cv v = c_int (value_int64 cv v)"

definition cloudsync_init1 :: "conversions \<Rightarrow> sqlval list \<Rightarrow> operation" where
  "cloudsync_init1 cv argv = InitTable (arg_text cv (argv ! 0)) None False"

definition cloudsync_init2 :: "conversions \<Rightarrow> sqlval list \<Rightarrow> operation" where
  "cloudsync_init2 cv argv = InitTable (arg_text cv (argv ! 0)) (arg_text cv (argv ! 1)) False"

definition cloudsync_init3 :: "conversions \<Rightarrow> sqlval list \<Rightarrow> operation" where
  "cloudsync_init3 cv argv =
     InitTable (arg_text cv (argv ! 0)) (arg_text cv (argv ! 1)) (arg_int cv (argv ! 2) \<noteq> 0)"

definition cloudsync_version :: sql_result where
  "cloudsync_version = ResValue (VText (text_bytes CLOUDSYNC_VERSION))"

definition cloudsync_uuid :: "byte list option \<Rightarrow> (i64 \<times> i64) option \<Rightarrow> sql_result" where
  "cloudsync_uuid entropy ts =
     (case cloudsync_uuid_v7_string entropy ts True of None \<Rightarrow> ResValue VNull | Some u \<Rightarrow> ResValue (VText (text_bytes u)))"

section \<open>What the registration does\<close>

definition all_functions :: "registration list" where
  "all_functions = core_functions @ network_functions"

lemma lowercase_names: "List.map (\<lambda>r. lowercase (fst r)) all_functions = List.map fst all_functions"
  by code_simp

lemma key_of_registered: "r \<in> set all_functions \<Longrightarrow> key_of r = (fst r, fst (snd r))"
  using lowercase_names by (simp add: key_of_def map_eq_conv)

lemma keys: "List.map key_of all_functions = List.map (\<lambda>r. (fst r, fst (snd r))) all_functions"
  by (rule map_cong [OF refl]) (rule key_of_registered)

lemma distinct_keys: "distinct (List.map key_of all_functions)"
  unfolding keys by (simp add: all_functions_def core_functions_def network_functions_def)

definition add_functions :: "registration list \<Rightarrow> (function_key \<times> sql_function) list \<Rightarrow> (function_key \<times> sql_function) list" where
  "add_functions rs fs = fold (\<lambda>r. AList.update (key_of r) (snd (snd r))) rs fs"

lemma add_functions_other: "k \<notin> set (List.map key_of rs) \<Longrightarrow> map_of (add_functions rs fs) k = map_of fs k"
  unfolding add_functions_def by (induction rs arbitrary: fs) (simp_all add: update_conv')

lemma add_functions_member:
  "distinct (List.map key_of rs) \<Longrightarrow> r \<in> set rs \<Longrightarrow> map_of (add_functions rs fs) (key_of r) = Some (snd (snd r))"
proof (induction rs arbitrary: fs)
  case (Cons x rs)
  have step: "add_functions (x # rs) fs = add_functions rs (AList.update (key_of x) (snd (snd x)) fs)"
    by (simp add: add_functions_def)
  show ?case
  proof (cases "r = x")
    case True
    then have "key_of r \<notin> set (List.map key_of rs)" using Cons.prems(1) by simp
    then show ?thesis unfolding step by (subst add_functions_other) (simp_all add: True update_conv')
  next
    case False
    then show ?thesis unfolding step using Cons by simp
  qed
qed simp

lemma next_fault_result: "next_fault s = (rc, s') \<Longrightarrow> same s s'"
  by (auto simp: next_fault_def same_def split: list.splits intro: exI [of _ "faults s"])

lemma register_one_result:
  assumes "register_one r c = (rc, c')"
  shows "cn_functions c' = (if rc = SQLITE_OK then AList.update (key_of r) (snd (snd r)) (cn_functions c) else cn_functions c) \<and>
    same (cn_state c) (cn_state c') \<and> cn_hooks c' = cn_hooks c \<and> cn_module c' = cn_module c"
proof -
  obtain rc' s' where n: "next_fault (cn_state c) = (rc', s')" by fastforce
  show ?thesis using assms n next_fault_result [OF n]
    by (auto simp: register_one_def dbutils_register_function_def dbutils_register_aggregate_def create_function_def split: if_splits)
qed

lemma register_list_result:
  "register_list rs c = (rc, c') \<Longrightarrow>
   (\<exists>n. cn_functions c' = add_functions (take n rs) (cn_functions c) \<and> (if rc = SQLITE_OK then n = length rs else n < length rs)) \<and>
   same (cn_state c) (cn_state c') \<and> cn_hooks c' = cn_hooks c \<and> cn_module c' = cn_module c"
proof (induction rs arbitrary: c)
  case Nil
  then show ?case by (simp add: add_functions_def)
next
  case (Cons r rs)
  obtain rc1 c1 where 1: "register_one r c = (rc1, c1)" by fastforce
  note r = register_one_result [OF 1]
  show ?case
  proof (cases "rc1 = SQLITE_OK")
    case False
    with Cons.prems 1 r show ?thesis by (auto simp: add_functions_def intro!: exI [of _ 0])
  next
    case True
    with Cons.prems 1 have l: "register_list rs c1 = (rc, c')" by simp
    from Cons.IH [OF l] obtain n where n: "cn_functions c' = add_functions (take n rs) (cn_functions c1)"
      "if rc = SQLITE_OK then n = length rs else n < length rs" by blast
    have "cn_functions c' = add_functions (take (Suc n) (r # rs)) (cn_functions c)"
      using n(1) r True by (simp add: add_functions_def)
    moreover have "if rc = SQLITE_OK then Suc n = length (r # rs) else Suc n < length (r # rs)" using n(2) by (simp split: if_splits)
    ultimately have "\<exists>n. cn_functions c' = add_functions (take n (r # rs)) (cn_functions c) \<and>
        (if rc = SQLITE_OK then n = length (r # rs) else n < length (r # rs))" by blast
    then show ?thesis using Cons.IH [OF l] r same_trans [of "cn_state c" "cn_state c1" "cn_state c'"] by simp
  qed
qed

definition context_in_order :: "state \<Rightarrow> bool" where
  "context_in_order s \<longleftrightarrow> registry_ok s \<and> \<not> c_insync s"

lemma in_order_cong:
  "c_tables s = c_tables s' \<Longrightarrow> c_tables_count s = c_tables_count s' \<Longrightarrow> c_insync s = c_insync s' \<Longrightarrow>
   context_in_order s = context_in_order s'"
  using registry_ok_cong [of s s'] by (simp add: context_in_order_def)

lemma same_in_order: "same s s' \<Longrightarrow> context_in_order s \<Longrightarrow> context_in_order s'"
  by (auto simp: same_def cong: in_order_cong intro: in_order_cong [THEN iffD1, rotated 3])

lemma created_in_order: "context_in_order (cloudsync_context_create d fs\<lparr>savepoints := sp, ub := u\<rparr>)"
proof -
  have "context_in_order (cloudsync_context_create d fs)" using created_ok [of d fs] by (simp add: context_in_order_def)
  then show ?thesis by (rule in_order_cong [THEN iffD1, rotated 3]) simp_all
qed

lemma load_config_result:
  "cn_functions (load_config uuid c) = cn_functions c" "cn_hooks (load_config uuid c) = cn_hooks c"
  "cn_module (load_config uuid c) = cn_module c"
  "context_in_order (cn_state c) \<Longrightarrow> context_in_order (cn_state (load_config uuid c))"
proof -
  show "cn_functions (load_config uuid c) = cn_functions c" "cn_hooks (load_config uuid c) = cn_hooks c"
    "cn_module (load_config uuid c) = cn_module c"
    by (simp_all add: load_config_def split: prod.split)
  obtain ex s where e: "cloudsync_config_exists (cn_state c) = (ex, s)" by fastforce
  assume ok: "context_in_order (cn_state c)"
  have "same (cn_state c) s"
    using same_frame.table_exists_keeps [OF same_refl, of "cn_state c" "''cloudsync_site_id''"] e
    by (simp add: cloudsync_config_exists_def)
  from same_in_order [OF this ok] show "context_in_order (cn_state (load_config uuid c))"
    using registry_kept.context_init_keeps [of s uuid] insync_kept.context_init_keeps [of s False uuid]
    by (simp add: load_config_def e context_in_order_def)
qed

lemma select_version_result:
  assumes "select_version c = (rc, c')"
  shows "cn_functions c' = cn_functions c" "cn_hooks c' = cn_hooks c" "cn_module c' = cn_module c"
    "find_function ''cloudsync_version'' 0 c = None \<Longrightarrow> rc \<noteq> SQLITE_OK"
  using assms by (auto simp: select_version_def split: prod.splits if_splits)

lemma register_changes_result:
  assumes "cloudsync_vtab_register_changes c = (rc, c')"
  shows "cn_functions c' = cn_functions c" "cn_hooks c' = cn_hooks c" "same (cn_state c) (cn_state c')"
    "cn_module c' = (cn_module c \<or> rc = SQLITE_OK)"
  using assms by (auto simp: cloudsync_vtab_register_changes_def split: prod.splits dest: next_fault_result)

lemma add_functions_take: "add_functions ys (add_functions xs fs) = add_functions (xs @ ys) fs"
  by (simp add: add_functions_def)

text \<open>A load that had to be done registered the list up to the first failure.\<close>

lemma load_result:
  assumes "sqlite3_cloudsync_init hc ht uuid c = (rc, c')" "find_function ''cloudsync_version'' 0 c = None"
  obtains n where "cn_functions c' = add_functions (take n all_functions) (cn_functions c)"
    "rc = SQLITE_OK \<Longrightarrow> n = length all_functions \<and> cn_hooks c' \<and> cn_module c' \<and> context_in_order (cn_state c')"
    "rc \<noteq> SQLITE_OK \<Longrightarrow> cn_module c' = cn_module c"
proof -
  obtain rc1 c1 where 1: "select_version c = (rc1, c1)" by fastforce
  note v = select_version_result [OF 1]
  obtain ok s where ctx: "create_context hc ht (cn_state c1) = (ok, s)" by fastforce
  have rc1: "rc1 \<noteq> SQLITE_OK" using v(4) assms(2) by blast
  show ?thesis
  proof (cases ok)
    case False
    with assms(1) 1 rc1 ctx have "rc = SQLITE_NOMEM" "c' = c1\<lparr>cn_state := s\<rparr>"
      by (simp_all add: sqlite3_cloudsync_init_def)
    then show ?thesis using v by (intro that [of 0]) (simp_all add: add_functions_def)
  next
    case True
    then have s: "context_in_order s"
      using ctx created_in_order by (auto simp: create_context_def split: if_splits)
    obtain rc2 c2 where 2: "register_list core_functions (c1\<lparr>cn_state := s\<rparr>) = (rc2, c2)" by fastforce
    from register_list_result [OF 2] obtain n where n: "cn_functions c2 = add_functions (take n core_functions) (cn_functions c)"
      "if rc2 = SQLITE_OK then n = length core_functions else n < length core_functions" and
      c2: "same s (cn_state c2)" "cn_module c2 = cn_module c" using v by auto
    show ?thesis
    proof (cases "rc2 = SQLITE_OK")
      case False
      with assms(1) 1 rc1 ctx True 2 have "rc = rc2" "c' = c2" by (simp_all add: sqlite3_cloudsync_init_def)
      then show ?thesis using n c2 False by (intro that [of n]) (simp_all add: all_functions_def)
    next
      case ok2: True
      obtain rc3 c3 where 3: "register_list network_functions c2 = (rc3, c3)" by fastforce
      from register_list_result [OF 3] obtain m where
        m: "cn_functions c3 = add_functions (take m network_functions) (cn_functions c2)"
          "if rc3 = SQLITE_OK then m = length network_functions else m < length network_functions" and
        c3: "same (cn_state c2) (cn_state c3)" "cn_module c3 = cn_module c2" by auto
      have fs: "cn_functions c3 = add_functions (take (length core_functions + m) all_functions) (cn_functions c)"
        using m(1) n ok2 by (simp add: all_functions_def add_functions_take)
      show ?thesis
      proof (cases "rc3 = SQLITE_OK")
        case False
        with assms(1) 1 rc1 ctx True 2 ok2 3 have "rc = rc3" "c' = c3"
          by (simp_all add: sqlite3_cloudsync_init_def cloudsync_network_register_def)
        then show ?thesis using fs c2 c3 False by (intro that) simp_all
      next
        case ok3: True
        then have all: "length core_functions + m = length all_functions" using m(2) by (simp add: all_functions_def)
        obtain rc4 c4 where 4: "cloudsync_vtab_register_changes (c3\<lparr>cn_hooks := True\<rparr>) = (rc4, c4)" by fastforce
        note r = register_changes_result [OF 4]
        have c4: "context_in_order (cn_state c4)"
          using same_in_order [OF _ same_in_order [OF c3(1) same_in_order [OF c2(1) s]]] r(3) by simp
        have c': "rc = rc4" "c' = (if rc4 = SQLITE_OK then load_config uuid c4 else c4)"
          using assms(1) 1 rc1 ctx True 2 ok2 3 ok3 4
          by (auto simp: sqlite3_cloudsync_init_def cloudsync_network_register_def split: if_splits)
        show ?thesis
          by (rule that [of "length core_functions + m"])
            (use c' r fs all c2 c3 load_config_result(1-3) [of uuid c4] load_config_result(4) [OF c4, of uuid] in \<open>auto split: if_splits\<close>)
      qed
    qed
  qed
qed

lemma find_registered:
  assumes "r \<in> set all_functions" "cn_functions c = add_functions all_functions fs"
  shows "find_function (fst r) (fst (snd r)) c = Some (snd (snd r))"
  using add_functions_member [OF distinct_keys assms(1), of fs] assms(2) by (simp add: find_function_def key_of_def)

section \<open>What a load promises\<close>


definition fresh_connection :: "database \<Rightarrow> int list \<Rightarrow> connection" where
  "fresh_connection d fs = \<lparr>cn_state = cloudsync_context_create d fs, cn_functions = [], cn_hooks = False, cn_module = False,
     cn_freed = False\<rparr>"

lemma fresh_no_version: "find_function ''cloudsync_version'' 0 (fresh_connection d fs) = None"
  by (simp add: find_function_def fresh_connection_def)

text \<open>Without failures a load succeeds.\<close>

lemma faultless_register_list: "faults (cn_state c) = [] \<Longrightarrow> \<exists>c'. register_list rs c = (SQLITE_OK, c') \<and> faults (cn_state c') = []"
proof (induction rs arbitrary: c)
  case (Cons r rs)
  let ?c = "c\<lparr>cn_functions := AList.update (key_of r) (snd (snd r)) (cn_functions c)\<rparr>"
  have "register_one r c = (SQLITE_OK, ?c)"
    using Cons.prems by (simp add: register_one_def dbutils_register_function_def dbutils_register_aggregate_def create_function_def)
  moreover have "faults (cn_state ?c) = []" using Cons.prems by simp
  ultimately show ?case using Cons.IH [of ?c] by simp
qed simp

lemma faultless_load:
  assumes "faults (cn_state c) = []" "find_function ''cloudsync_version'' 0 c = None"
  obtains c' where "sqlite3_cloudsync_init True True uuid c = (SQLITE_OK, c')"
proof -
  let ?c1 = "c\<lparr>cn_state := cloudsync_context_create (db (cn_state c)) []\<lparr>savepoints := savepoints (cn_state c), ub := ub (cn_state c)\<rparr>\<rparr>"
  have f: "faults (cn_state ?c1) = []" by (simp add: cloudsync_context_create_def)
  obtain c2 where c2: "register_list core_functions ?c1 = (SQLITE_OK, c2)" "faults (cn_state c2) = []"
    using faultless_register_list [OF f] by metis
  obtain c3 where c3: "register_list network_functions c2 = (SQLITE_OK, c3)" "faults (cn_state c3) = []"
    using faultless_register_list [OF c2(2)] by metis
  have "cloudsync_vtab_register_changes (c3\<lparr>cn_hooks := True\<rparr>) = (SQLITE_OK, c3\<lparr>cn_hooks := True, cn_module := True\<rparr>)"
    using c3(2) by (simp add: cloudsync_vtab_register_changes_def)
  then have "sqlite3_cloudsync_init True True uuid c = (SQLITE_OK, load_config uuid (c3\<lparr>cn_hooks := True, cn_module := True\<rparr>))"
    using assms c2(1) c3(1)
    by (simp add: sqlite3_cloudsync_init_def select_version_def create_context_def cloudsync_network_register_def)
  then show ?thesis by (rule that)
qed


lemma failed_load_functions:
  assumes "sqlite3_cloudsync_init hc ht uuid c = (rc, c')" "rc \<noteq> SQLITE_OK" "find_function ''cloudsync_version'' 0 c = None"
  shows "cn_module c' = cn_module c \<and> (\<exists>n. cn_functions c' = add_functions (take n all_functions) (cn_functions c))"
  using load_result [OF assms(1,3)] assms(2) by metis

lemma second_load:
  assumes "faults (cn_state c) = []" "find_function ''cloudsync_version'' 0 c \<noteq> None"
  shows "sqlite3_cloudsync_init hc ht uuid c = (SQLITE_OK, c)"
  using assms by (auto simp: sqlite3_cloudsync_init_def select_version_def)

text \<open>C40. A load that fails half-way leaves the functions registered so far, and the next load of the
  connection finds \<open>cloudsync_version\<close> among them: it reports success and registers nothing, so \<open>cloudsync_changes\<close> is
  missing from then on.\<close>

theorem failed_load_stays_incomplete:
  assumes "sqlite3_cloudsync_init hc ht uuid c = (rc, c')" "rc \<noteq> SQLITE_OK" "find_function ''cloudsync_version'' 0 c = None"
    "\<not> cn_module c" "find_function ''cloudsync_version'' 0 c' \<noteq> None" "faults (cn_state c') = []"
  shows "sqlite3_cloudsync_init hc' ht' uuid' c' = (SQLITE_OK, c') \<and> \<not> cn_module c'"
  using second_load [OF assms(6,5)] failed_load_functions [OF assms(1-3)] assms(4) by simp

text \<open>The sixth call of SQLite fails for lack of memory.\<close>

theorem failed_load_stays_incomplete_witness:
  "\<not> cn_module (snd (sqlite3_cloudsync_init True True None (snd (sqlite3_cloudsync_init True True None
      (fresh_connection demo_db [0, 0, 0, 0, 0, SQLITE_NOMEM])))))"
proof -
  let ?c = "fresh_connection demo_db [0, 0, 0, 0, 0, SQLITE_NOMEM]"
  obtain rc c' where 1: "sqlite3_cloudsync_init True True None ?c = (rc, c')" by fastforce
  have "(\<lambda>(rc, c'). (rc, find_function ''cloudsync_version'' 0 c', faults (cn_state c'))) (sqlite3_cloudsync_init True True None ?c) =
      (SQLITE_NOMEM, Some Fn_version, [])"
    by code_simp
  then have r: "rc = SQLITE_NOMEM" "find_function ''cloudsync_version'' 0 c' = Some Fn_version" "faults (cn_state c') = []"
    unfolding 1 by simp_all
  show ?thesis
    using failed_load_stays_incomplete [OF 1 _ fresh_no_version, where hc' = True and ht' = True and uuid' = None] r 1
    by (simp add: fresh_connection_def)
qed

section \<open>A session\<close>

text \<open>The operation that a call is. There is none for functions that change nothing of the context or the database
  (\<open>cloudsync_version\<close>, \<open>cloudsync_siteid\<close>, \<open>cloudsync_uuid\<close>, \<open>cloudsync_is_enabled\<close>, \<open>cloudsync_is_sync\<close>, the key functions
  and the encoder), for those that the triggers and \<open>cloudsync_changes\<close> call, and for a NULL or a missing argument that
  the C code would follow.\<close>

fun operation_of :: "conversions \<Rightarrow> sql_function \<Rightarrow> sqlval list \<Rightarrow> operation option" where
  "operation_of cv Fn_init1 argv = Some (cloudsync_init1 cv argv)"
| "operation_of cv Fn_init2 argv = Some (cloudsync_init2 cv argv)"
| "operation_of cv Fn_init3 argv = Some (cloudsync_init3 cv argv)"
| "operation_of cv Fn_enable argv = map_option Enable (arg_text cv (argv ! 0))"
| "operation_of cv Fn_disable argv = map_option Disable (arg_text cv (argv ! 0))"
| "operation_of cv Fn_cleanup argv = map_option Cleanup (arg_text cv (argv ! 0))"
| "operation_of cv Fn_terminate argv = Some Terminate"
| "operation_of cv Fn_set argv = Some (SetKey (arg_text cv (argv ! 0)) (arg_text cv (argv ! 1)))"
| "operation_of cv Fn_set_table argv =
     Some (SetTable (arg_text cv (argv ! 0)) (arg_text cv (argv ! 1)) (arg_text cv (argv ! 2)))"
| "operation_of cv Fn_set_column argv =
     Some (SetColumn (arg_text cv (argv ! 0)) (arg_text cv (argv ! 1)) (arg_text cv (argv ! 2)) (arg_text cv (argv ! 3)))"
| "operation_of cv Fn_db_version argv = Some DbVersion"
| "operation_of cv Fn_db_version_next argv =
     Some (DbVersionNext (if length argv = 1 then Some (value_int64 cv (argv ! 0)) else None))"
| "operation_of cv Fn_begin_alter argv = map_option BeginAlter (arg_text cv (argv ! 0))"
| "operation_of cv Fn_commit_alter argv = map_option CommitAlter (arg_text cv (argv ! 0))"
| "operation_of cv Fn_payload_decode argv = (case argv of [] \<Rightarrow> None | v # _ \<Rightarrow> Some (PayloadDecode v))"
| "operation_of cv Fn_seq argv = Some Seq"
| "operation_of cv Fn_network_init argv = map_option NetworkInit (arg_text cv (argv ! 0))"
| "operation_of cv Fn_network_cleanup argv = Some NetworkCleanup"
| "operation_of cv Fn_network_set_token argv = Some (SetToken (arg_text cv (argv ! 0)))"
| "operation_of cv Fn_network_set_apikey argv = Some (SetApikey (arg_text cv (argv ! 0)))"
| "operation_of cv Fn_network_has_unsent_changes argv = Some HasUnsentChanges"
| "operation_of cv Fn_network_send_changes argv = Some SendChanges"
| "operation_of cv Fn_network_check_changes argv = Some CheckChanges"
| "operation_of cv Fn_network_sync0 argv = Some (SyncChanges 1)"
| "operation_of cv Fn_network_sync2 argv = Some (SyncChanges (arg_int cv (argv ! 1)))"
| "operation_of cv Fn_network_reset_sync_version argv = Some ResetSyncVersion"
| "operation_of cv Fn_network_logout argv = Some LogOut"
| "operation_of cv _ argv = None"

fun is_call :: "operation \<Rightarrow> bool" where
  "is_call (AppInsert t k r) = False"
| "is_call (AppUpdate t k k' r) = False"
| "is_call (AppDelete t k) = False"
| "is_call (InsertChange vs) = False"
| "is_call (QueryChanges idxs args) = False"
| "is_call Commit = False"
| "is_call (Rollback d) = False"
| "is_call (Environment d sp fs) = False"
| "is_call _ = True"

text \<open>
  A connection from its opening on: the extension is loaded, the application calls SQL functions by name, which SQLite
  resolves in the functions that were registered, and around the calls there are statements, commits, rollbacks,
  failures and other connections.
\<close>

inductive session :: "('w, 'x) env \<Rightarrow> connection \<Rightarrow> 'w net \<Rightarrow> bool" for e c where
  loaded: "sqlite3_cloudsync_init hc ht uuid c0 = (SQLITE_OK, c) \<Longrightarrow> find_function ''cloudsync_version'' 0 c0 = None \<Longrightarrow>
    session e c \<lparr>n_state = cn_state c, n_aux = NoData, n_world = w, n_touched = False\<rparr>"
| called: "session e c n \<Longrightarrow> find_function name (int (length argv)) c = Some f \<Longrightarrow>
    operation_of (e_conversions e) f argv = Some x \<Longrightarrow> session e c (perform e ch x n)"
| around: "session e c n \<Longrightarrow> \<not> is_call x \<Longrightarrow> session e c (perform e ch x n)"

lemma perform_in_order:
  assumes "e_callback e = None" "context_in_order (n_state n)"
  shows "context_in_order (n_state (perform e ch x n))"
proof -
  have cb: "registry_kept.callback_keeps (e_callback e)" "insync_off.callback_keeps (e_callback e)"
    unfolding registry_kept.callback_keeps_def insync_off.callback_keeps_def assms(1) by simp_all
  show ?thesis
    using assms(2) registry_always.perform_keeps [OF cb(1)] sync_off.perform_keeps [OF cb(2)]
    by (simp add: context_in_order_def)
qed

lemma session_in_order: "session e c n \<Longrightarrow> e_callback e = None \<Longrightarrow> context_in_order (n_state n)"
proof (induction rule: session.induct)
  case (loaded hc ht uuid c0 w)
  then show ?case using load_result [OF loaded(1,2)] by (metis net.select_convs(1))
qed (simp_all add: perform_in_order)


definition demo_loaded :: connection where
  "demo_loaded = snd (sqlite3_cloudsync_init True True None (fresh_connection demo_db []))"

lemma demo_loaded_ok: "sqlite3_cloudsync_init True True None (fresh_connection demo_db []) = (SQLITE_OK, demo_loaded)"
proof -
  have f: "faults (cn_state (fresh_connection demo_db [])) = []" by (simp add: fresh_connection_def cloudsync_context_create_def)
  obtain c' where "sqlite3_cloudsync_init True True None (fresh_connection demo_db []) = (SQLITE_OK, c')"
    by (rule faultless_load [OF f fresh_no_version])
  then show ?thesis by (simp add: demo_loaded_def)
qed

lemma demo_functions: "cn_functions demo_loaded = add_functions all_functions []"
proof -
  obtain n where "cn_functions demo_loaded = add_functions (take n all_functions) (cn_functions (fresh_connection demo_db []))"
    "n = length all_functions"
    using load_result [OF demo_loaded_ok fresh_no_version] by metis
  then show ?thesis by (simp add: fresh_connection_def)
qed

lemma demo_find: "r \<in> set all_functions \<Longrightarrow> find_function (fst r) (fst (snd r)) demo_loaded = Some (snd (snd r))"
  by (rule find_registered [OF _ demo_functions])


section \<open>Flags and argument counts\<close>

text \<open>\<open>cloudsync_payload_decode\<close> is registered for any number of arguments and reads the first one: a call without
  arguments is accepted by SQLite and has no meaning.\<close>

lemma decode_accepts_no_arguments:
  "find_function ''cloudsync_payload_decode'' 0 demo_loaded = Some Fn_payload_decode \<and>
   operation_of cv Fn_payload_decode [] = None"
proof -
  have any: "find_function ''cloudsync_payload_decode'' (-1) demo_loaded = Some Fn_payload_decode"
    using demo_find [of "(''cloudsync_payload_decode'', -1, Fn_payload_decode)"] by (simp add: all_functions_def core_functions_def)
  have "(''cloudsync_payload_decode'', -1, Fn_payload_decode) \<in> set all_functions" by (simp add: all_functions_def core_functions_def)
  from key_of_registered [OF this] have "lowercase ''cloudsync_payload_decode'' = ''cloudsync_payload_decode''" by (simp add: key_of_def)
  then have "(lowercase ''cloudsync_payload_decode'', 0) \<notin> set (List.map key_of all_functions)"
    unfolding keys by (simp add: all_functions_def core_functions_def network_functions_def)
  then have "map_of (cn_functions demo_loaded) (lowercase ''cloudsync_payload_decode'', 0) = None"
    by (simp add: add_functions_other demo_functions)
  with any show ?thesis by (simp add: find_function_def split: option.splits)
qed

text \<open>SQLite calls a deterministic function with the same arguments once for all rows of a statement.\<close>

definition function_rows :: "bool \<Rightarrow> (nat \<Rightarrow> 'a) \<Rightarrow> nat \<Rightarrow> 'a" where
  "function_rows deterministic f i = (if deterministic then f 0 else f i)"

lemma uuid_same_in_all_rows:
  "function_rows DEFAULT_FLAGS_deterministic (\<lambda>i. cloudsync_uuid (entropy i) (ts i)) i =
   function_rows DEFAULT_FLAGS_deterministic (\<lambda>i. cloudsync_uuid (entropy i) (ts i)) j"
  by (simp add: function_rows_def DEFAULT_FLAGS_deterministic_def)

end
