(* ===== verification/Handles.thy ===== *)
theory Handles
  imports Prelude
begin

text \<open>
  Who owns the prepared statements and the memory of a table context: \<open>table_create\<close>, \<open>table_add_stmts\<close>,
  \<open>table_add_to_context_cb\<close>, \<open>table_add_to_context\<close> and \<open>table_free\<close> of src/src/cloudsync.c, seen as what they acquire and
  give back. \<open>Tables\<close> models what these functions do to the registry.

  A resource is a number; \<open>open_resources\<close> are the statements not finalized and the blocks not freed. \<open>answers\<close> says
  which of the next allocations, queries and preparations succeed, an empty list that all do. Texts of statements are
  freed by the code right after their use, and only their failure is modelled.
\<close>

section \<open>The allocator and the engine\<close>

type_synonym resource = nat

record resources =
  open_resources :: "resource set"
  next_resource :: resource
  answers :: "bool list"

definition answer :: "resources \<Rightarrow> bool \<times> resources" where
  "answer e = (case answers e of [] \<Rightarrow> (True, e) | a # as \<Rightarrow> (a, e\<lparr>answers := as\<rparr>))"

definition acquire :: "resources \<Rightarrow> resource option \<times> resources" where
  "acquire e =
     (case answer e of (ok, e) \<Rightarrow>
        if ok then (Some (next_resource e),
          e\<lparr>open_resources := insert (next_resource e) (open_resources e), next_resource := next_resource e + 1\<rparr>)
        else (None, e))"

definition give_back :: "resource list \<Rightarrow> resources \<Rightarrow> resources" where
  "give_back rs e = e\<lparr>open_resources := open_resources e - set rs\<rparr>"

section \<open>A table context\<close>

text \<open>The struct and the name; the statements prepared so far; the four arrays; and for each of the \<open>ncols\<close> columns its
  name and its two statements. What the arrays hold at index \<open>ncols\<close> is not reachable for \<open>table_free\<close>.\<close>

record table_resources =
  tr_self :: "resource list"
  tr_stmts :: "resource list"
  tr_arrays :: "resource list"
  tr_cols :: "(resource \<times> resource \<times> resource) list"

definition create_resources :: "resources \<Rightarrow> table_resources option \<times> resources" where
  "create_resources e =
     (case acquire e of
        (None, e) \<Rightarrow> (None, e)
      | (Some self, e) \<Rightarrow>
        (case acquire e of
           (None, e) \<Rightarrow> (None, give_back [self] e)
         | (Some name, e) \<Rightarrow> (Some \<lparr>tr_self = [self, name], tr_stmts = [], tr_arrays = [], tr_cols = []\<rparr>, e)))"

text \<open>\<open>table_free\<close>: with \<open>ncols\<close> 0 the arrays are left alone.\<close>

definition table_free :: "table_resources \<Rightarrow> resources \<Rightarrow> resources" where
  "table_free t e =
     (let e = (if tr_cols t \<noteq> []
               then give_back (concat (List.map (\<lambda>(n, m, v). [n, m, v]) (tr_cols t)) @ tr_arrays t) e else e)
      in give_back (tr_self t @ tr_stmts t) e)"

text \<open>\<open>n\<close> statements in a row, each from a text.\<close>

fun prepare_stmts :: "nat \<Rightarrow> table_resources \<Rightarrow> resources \<Rightarrow> bool \<times> table_resources \<times> resources" where
  "prepare_stmts 0 t e = (True, t, e)"
| "prepare_stmts (Suc n) t e =
     (case answer e of (ok, e) \<Rightarrow>
      if \<not> ok then (False, t, e)
      else case acquire e of
        (None, e) \<Rightarrow> (False, t, e)
      | (Some r, e) \<Rightarrow> prepare_stmts n (t\<lparr>tr_stmts := tr_stmts t @ [r]\<rparr>) e)"

definition add_stmts :: "nat \<Rightarrow> table_resources \<Rightarrow> resources \<Rightarrow> bool \<times> table_resources \<times> resources" where
  "add_stmts ncols t e = prepare_stmts (12 + (if ncols > 0 then 1 else 0) + 2) t e"

text \<open>The arrays \<open>col_name\<close>, \<open>col_id\<close>, \<open>col_merge_stmt\<close> and \<open>col_value_stmt\<close>.\<close>

fun add_arrays :: "nat \<Rightarrow> table_resources \<Rightarrow> resources \<Rightarrow> bool \<times> table_resources \<times> resources" where
  "add_arrays 0 t e = (True, t, e)"
| "add_arrays (Suc n) t e =
     (case acquire e of
        (None, e) \<Rightarrow> (False, t, e)
      | (Some r, e) \<Rightarrow> add_arrays n (t\<lparr>tr_arrays := tr_arrays t @ [r]\<rparr>) e)"

text \<open>The callback for one column. \<open>ncols\<close> moves at the end only.\<close>

definition add_column :: "table_resources \<Rightarrow> resources \<Rightarrow> bool \<times> table_resources \<times> resources" where
  "add_column t e =
     (case acquire e of
        (None, e) \<Rightarrow> (False, t, e)
      | (Some name, e) \<Rightarrow>
      case answer e of (ok, e) \<Rightarrow>
      if \<not> ok then (False, t, e)
      else case acquire e of
        (None, e) \<Rightarrow> (False, t, e)
      | (Some merge, e) \<Rightarrow>
      case answer e of (ok, e) \<Rightarrow>
      if \<not> ok then (False, t, e)
      else case acquire e of
        (None, e) \<Rightarrow> (False, t, e)
      | (Some v, e) \<Rightarrow> (True, t\<lparr>tr_cols := tr_cols t @ [(name, merge, v)]\<rparr>, e))"

fun add_column_list :: "nat \<Rightarrow> table_resources \<Rightarrow> resources \<Rightarrow> bool \<times> table_resources \<times> resources" where
  "add_column_list 0 t e = (True, t, e)"
| "add_column_list (Suc n) t e =
     (case add_column t e of
        (False, t, e) \<Rightarrow> (False, t, e)
      | (True, t, e) \<Rightarrow> add_column_list n t e)"

text \<open>
  \<open>table_add_to_context\<close> for a table with \<open>npks\<close> and \<open>ncols\<close> columns, whose registry has room; \<open>None\<close> is \<open>false\<close>.
  \<open>query\<close> says how \<open>sqlite3_exec\<close> ends when no callback fails: with success, or with an error of its own, which is not
  SQLITE_ABORT and is not looked at.
\<close>

definition add_to_context :: "bool \<Rightarrow> nat \<Rightarrow> nat \<Rightarrow> resources \<Rightarrow> table_resources option \<times> resources" where
  "add_to_context query npks ncols e =
     (case create_resources e of
        (None, e) \<Rightarrow> (None, e)
      | (Some t, e) \<Rightarrow>
      case answer e of (ok, e) \<Rightarrow>
      if \<not> ok then (None, table_free t e)
      else if npks = 0 then (None, e)
      else case answer e of (ok, e) \<Rightarrow>
      if \<not> ok then (None, table_free t e)
      else case add_stmts ncols t e of (ok, t, e) \<Rightarrow>
      if \<not> ok then (None, table_free t e)
      else if ncols = 0 then (Some t, e)
      else case add_arrays 4 t e of (ok, t, e) \<Rightarrow>
      if \<not> ok then (None, table_free t e)
      else case answer e of (ok, e) \<Rightarrow>
      if \<not> ok then (None, table_free t e)
      else if \<not> query then (Some t, e)
      else case add_column_list ncols t e of (ok, t, e) \<Rightarrow>
      if \<not> ok then (None, table_free t e) else (Some t, e))"

section \<open>Ownership\<close>

definition owned :: "table_resources \<Rightarrow> resource set" where
  "owned t = set (tr_self t @ tr_stmts t @ tr_arrays t @ concat (List.map (\<lambda>(n, m, v). [n, m, v]) (tr_cols t)))"

text \<open>\<open>owns base t e\<close>: what is open is what was open in \<open>base\<close> and what \<open>t\<close> can reach, and these are apart.\<close>

definition owns :: "resource set \<Rightarrow> table_resources \<Rightarrow> resources \<Rightarrow> bool" where
  "owns base t e \<longleftrightarrow> open_resources e = base \<union> owned t \<and> base \<inter> owned t = {} \<and> (\<forall>r \<in> open_resources e. r < next_resource e)"

lemma answer_fields:
  assumes "answer e = (ok, e')"
  shows "open_resources e' = open_resources e" "next_resource e' = next_resource e"
  using assms by (auto simp: answer_def split: list.splits)

lemma owns_answer: "answer e = (ok, e') \<Longrightarrow> owns base t e' = owns base t e"
  using answer_fields [of e ok e'] by (simp add: owns_def)

lemma acquire_none: "acquire e = (None, e') \<Longrightarrow> open_resources e' = open_resources e \<and> next_resource e' = next_resource e"
  using answer_fields [of e] by (auto simp: acquire_def split: prod.splits if_splits)

lemma acquire_some:
  assumes "acquire e = (Some r, e')"
  shows "r = next_resource e" "open_resources e' = insert r (open_resources e)" "next_resource e' = r + 1"
proof -
  obtain ok e1 where a: "answer e = (ok, e1)" by fastforce
  then have ok: "ok" using assms by (cases ok) (simp_all add: acquire_def)
  note f = answer_fields [OF a]
  show "r = next_resource e" "open_resources e' = insert r (open_resources e)" "next_resource e' = r + 1"
    using assms a ok f by (auto simp: acquire_def)
qed

lemma owns_none: "acquire e = (None, e') \<Longrightarrow> owns base t e' = owns base t e"
  using acquire_none [of e e'] by (simp add: owns_def)

lemma owns_some:
  assumes "acquire e = (Some r, e')" "owns base t e" "owned t' = insert r (owned t)"
  shows "owns base t' e'"
proof -
  have "r \<notin> open_resources e" using acquire_some(1) [OF assms(1)] assms(2) by (auto simp: owns_def)
  then show ?thesis using acquire_some [OF assms(1)] assms(2,3) by (auto simp: owns_def intro: less_SucI)
qed

lemma prepare_stmts_owns:
  "prepare_stmts n t e = (ok, t', e') \<Longrightarrow> owns base t e \<Longrightarrow>
   owns base t' e' \<and> tr_arrays t' = tr_arrays t \<and> tr_cols t' = tr_cols t"
proof (induction n arbitrary: t e)
  case (Suc n)
  obtain a e1 where 1: "answer e = (a, e1)" by fastforce
  obtain o1 e2 where 2: "acquire e1 = (o1, e2)" by fastforce
  have e1: "owns base t e1" using Suc.prems(2) owns_answer [OF 1] by simp
  show ?case
  proof (cases "a \<and> o1 \<noteq> None")
    case False
    then show ?thesis using Suc.prems(1) 1 2 e1 owns_none [of e1 e2] by (auto split: if_splits option.splits)
  next
    case True
    then obtain r where r: "o1 = Some r" by blast
    have "owns base (t\<lparr>tr_stmts := tr_stmts t @ [r]\<rparr>) e2"
      by (rule owns_some [OF 2 [unfolded r] e1]) (auto simp: owned_def)
    from Suc.IH [OF _ this] show ?thesis using Suc.prems(1) 1 2 r True by simp
  qed
qed simp

lemma add_arrays_owns: "add_arrays n t e = (ok, t', e') \<Longrightarrow> owns base t e \<Longrightarrow> owns base t' e' \<and> tr_cols t' = tr_cols t"
proof (induction n arbitrary: t e)
  case (Suc n)
  obtain o1 e2 where 2: "acquire e = (o1, e2)" by fastforce
  show ?case
  proof (cases o1)
    case None
    then show ?thesis using Suc.prems 2 owns_none [of e e2] by auto
  next
    case (Some r)
    have "owns base (t\<lparr>tr_arrays := tr_arrays t @ [r]\<rparr>) e2"
      by (rule owns_some [OF 2 [unfolded Some] Suc.prems(2)]) (auto simp: owned_def)
    from Suc.IH [OF _ this] show ?thesis using Suc.prems(1) 2 Some by simp
  qed
qed simp

lemma owns_two:
  assumes "owns base t e" "acquire e = (Some a, e1)" "answer e1 = (x, e2)" "acquire e2 = (Some b, e3)" "answer e3 = (y, e4)"
    "acquire e4 = (Some c, e5)"
  shows "owns base (t\<lparr>tr_cols := tr_cols t @ [(a, b, c)]\<rparr>) e5"
proof -
  let ?t = "\<lambda>rs. t\<lparr>tr_stmts := tr_stmts t @ rs\<rparr>"
  have 1: "owns base (?t [a]) e2"
    using owns_some [OF assms(2,1), of "?t [a]"] owns_answer [OF assms(3)] by (simp add: owned_def)
  have 2: "owns base (?t [a, b]) e4"
    using owns_some [OF assms(4) 1, of "?t [a, b]"] owns_answer [OF assms(5)] by (simp add: owned_def insert_commute)
  show ?thesis by (rule owns_some [OF assms(6) 2]) (auto simp: owned_def)
qed

lemma add_column_owns: "add_column t e = (True, t', e') \<Longrightarrow> owns base t e \<Longrightarrow> owns base t' e' \<and> tr_cols t' \<noteq> []"
  by (auto simp: add_column_def owns_two split: prod.splits option.splits if_splits)

lemma add_column_list_owns:
  "add_column_list n t e = (True, t', e') \<Longrightarrow> owns base t e \<Longrightarrow> owns base t' e' \<and> (n > 0 \<or> tr_cols t \<noteq> [] \<longrightarrow> tr_cols t' \<noteq> [])"
proof (induction n arbitrary: t e)
  case (Suc n)
  obtain a t1 e1 where 1: "add_column t e = (a, t1, e1)" by (metis prod.exhaust)
  with Suc.prems(1) have a: "a" by (cases a) simp_all
  with add_column_owns [of t e t1 e1] 1 Suc.prems(2) have "owns base t1 e1" "tr_cols t1 \<noteq> []" by simp_all
  then show ?case using Suc.IH [of t1 e1] Suc.prems(1) 1 a by simp
qed simp

lemma table_free_open:
  assumes "owns base t e" "tr_cols t \<noteq> [] \<or> tr_arrays t = []"
  shows "open_resources (table_free t e) = base"
proof -
  define cs where "cs = concat (List.map (\<lambda>(n, m, v). [n, m, v]) (tr_cols t))"
  have "cs = []" if "tr_cols t = []" using that by (simp add: cs_def)
  then have "open_resources (table_free t e) = open_resources e - owned t"
    using assms(2) unfolding table_free_def owned_def cs_def [symmetric] give_back_def Let_def
    by (cases "tr_cols t = []") (simp_all add: Diff_eq Int_ac Un_ac)
  then show ?thesis using assms(1) unfolding owns_def by blast
qed

lemma create_resources_owns:
  assumes "create_resources e = (Some t, e')" "\<forall>r \<in> open_resources e. r < next_resource e"
  shows "owns (open_resources e) t e' \<and> tr_cols t = [] \<and> tr_arrays t = []"
proof -
  let ?t = "\<lambda>rs. \<lparr>tr_self = rs, tr_stmts = [], tr_arrays = [], tr_cols = []\<rparr>"
  obtain a e1 b where s: "acquire e = (Some a, e1)" "acquire e1 = (Some b, e')" "t = ?t [a, b]"
    using assms(1) by (auto simp: create_resources_def split: prod.splits option.splits)
  have 0: "owns (open_resources e) (?t []) e" using assms(2) by (simp add: owns_def owned_def)
  have 1: "owns (open_resources e) (?t [a]) e1" by (rule owns_some [OF s(1) 0]) (simp add: owned_def)
  have "owns (open_resources e) (?t [a, b]) e'" by (rule owns_some [OF s(2) 1]) (auto simp: owned_def)
  with s(3) show ?thesis by simp
qed

lemma create_resources_none:
  assumes "create_resources e = (None, e')" "\<forall>r \<in> open_resources e. r < next_resource e"
  shows "open_resources e' = open_resources e"
proof -
  obtain a e1 where 1: "acquire e = (a, e1)" by fastforce
  show ?thesis
  proof (cases a)
    case None
    then show ?thesis using assms(1) 1 acquire_none [of e e1] by (simp add: create_resources_def)
  next
    case (Some self)
    obtain b e2 where 2: "acquire e1 = (b, e2)" by fastforce
    then have "b = None" "e' = give_back [self] e2" using assms(1) 1 Some by (simp_all add: create_resources_def split: option.splits)
    then show ?thesis
      using 2 acquire_none [of e1 e2] acquire_some [OF 1 [unfolded Some]] assms(2) by (auto simp: give_back_def)
  qed
qed

lemma add_to_context_resources:
  assumes "add_to_context True npks ncols e = (r, e')" "\<forall>r \<in> open_resources e. r < next_resource e" "npks > 0"
  shows "case r of Some t \<Rightarrow> open_resources (table_free t e') = open_resources e
    | None \<Rightarrow> ncols = 0 \<longrightarrow> open_resources e' = open_resources e"
proof -
  let ?base = "open_resources e"
  obtain o1 e1 where 1: "create_resources e = (o1, e1)" by fastforce
  show ?thesis
  proof (cases o1)
    case None
    then show ?thesis using assms(1) 1 create_resources_none [of e e1] assms(2) by (auto simp: add_to_context_def)
  next
    case (Some t)
    then have t: "owns ?base t e1" "tr_cols t = []" "tr_arrays t = []" using create_resources_owns [of e t e1] 1 assms(2) by simp_all
    obtain a e2 where 2: "answer e1 = (a, e2)" by fastforce
    obtain b e3 where 3: "answer e2 = (b, e3)" by fastforce
    obtain ok t4 e4 where 4: "add_stmts ncols t e3 = (ok, t4, e4)" by (metis prod.exhaust)
    have e2: "owns ?base t e2" "owns ?base t e3" using t(1) owns_answer [OF 2] owns_answer [OF 3] by simp_all
    have e4: "owns ?base t4 e4" "tr_arrays t4 = []" "tr_cols t4 = []"
      using prepare_stmts_owns [OF 4 [unfolded add_stmts_def] e2(2)] t(2,3) by simp_all
    note free = table_free_open
    show ?thesis
    proof (cases "a \<and> b \<and> ok \<and> ncols > 0")
      case False
      then show ?thesis using assms(1,3) 1 Some 2 3 4 free [OF e2(1)] free [OF e2(2)] free [OF e4(1)] t(3) e4(2)
        by (auto simp: add_to_context_def split: if_splits)
    next
      case True
      obtain ok5 t5 e5 where 5: "add_arrays 4 t4 e4 = (ok5, t5, e5)" by (metis prod.exhaust)
      obtain c e6 where 6: "answer e5 = (c, e6)" by fastforce
      obtain ok7 t7 e7 where 7: "add_column_list ncols t5 e6 = (ok7, t7, e7)" by (metis prod.exhaust)
      have e6: "owns ?base t5 e6" using add_arrays_owns [OF 5 e4(1)] owns_answer [OF 6] by simp
      show ?thesis
      proof (cases "ok5 \<and> c \<and> ok7")
        case False
        then show ?thesis using assms(1,3) 1 Some 2 3 4 5 6 7 True by (auto simp: add_to_context_def split: if_splits)
      next
        case all: True
        then have "owns ?base t7 e7" "tr_cols t7 \<noteq> []" using add_column_list_owns [of ncols t5 e6 t7 e7 ?base] e6 True 7 by simp_all
        then show ?thesis using assms(1,3) 1 Some 2 3 4 5 6 7 True all free [of ?base t7 e7] by (auto simp: add_to_context_def)
      qed
    qed
  qed
qed


definition demo_resources :: "bool list \<Rightarrow> resources" where
  "demo_resources as = \<lparr>open_resources = {}, next_resource = 0, answers = as\<rparr>"


section \<open>What is lost\<close>

text \<open>When the statement that reads the first column cannot be prepared, the four arrays, the name of the column and the
  statement that merges it stay open: \<open>ncols\<close> is still 0.\<close>

lemma failed_column_loses_statement:
  "(case add_to_context True 1 1 (demo_resources (replicate (2 + 2 + 30 + 4 + 1 + 3 + 1) True @ [False])) of
      (r, e') \<Rightarrow> (r = None, card (open_resources e'))) = (True, 6)"
  by code_simp

text \<open>A query for the columns that fails by itself gives a table without columns, whose arrays are never freed.\<close>

lemma failed_query_loses_arrays:
  "(case add_to_context False 1 1 (demo_resources []) of
      (r, e') \<Rightarrow> (case r of Some t \<Rightarrow> (tr_cols t = [], card (open_resources (table_free t e'))) | None \<Rightarrow> (False, 0))) = (True, 4)"
  by code_simp

text \<open>A table without a primary key is refused after its context was created, which is not freed.\<close>

lemma refused_table_is_lost:
  "card (open_resources (snd (add_to_context True 0 1 (demo_resources [])))) = 2"
  by code_simp

section \<open>The virtual table and its cursors\<close>

text \<open>\<open>cloudsync_changesvtab_connect\<close> and \<open>disconnect\<close> (src/src/vtab.c); the declaration of the columns may fail.\<close>

definition cloudsync_changesvtab_connect :: "resources \<Rightarrow> (int \<times> resource option) \<times> resources" where
  "cloudsync_changesvtab_connect e =
     (case answer e of (ok, e) \<Rightarrow>
      if \<not> ok then ((SQLITE_ERROR, None), e)
      else case acquire e of
        (None, e) \<Rightarrow> ((SQLITE_NOMEM, None), e)
      | (Some vtab, e) \<Rightarrow> ((SQLITE_OK, Some vtab), e))"

definition cloudsync_changesvtab_disconnect :: "resource \<Rightarrow> resources \<Rightarrow> int \<times> resources" where
  "cloudsync_changesvtab_disconnect vtab e = (SQLITE_OK, give_back [vtab] e)"

record cursor_resources =
  cr_self :: resource
  cr_vm :: "resource option"

definition finalize_vm :: "cursor_resources \<Rightarrow> resources \<Rightarrow> cursor_resources \<times> resources" where
  "finalize_vm c e = (c\<lparr>cr_vm := None\<rparr>, give_back (case cr_vm c of None \<Rightarrow> [] | Some vm \<Rightarrow> [vm]) e)"

datatype step_result = StepRow | StepDone | StepError

text \<open>What SQLite calls on a cursor, with the outcome of the text, of the bindings and of the step.\<close>

datatype cursor_call = CallFilter bool bool step_result | CallNext step_result

fun run_call :: "cursor_call \<Rightarrow> cursor_resources \<times> resources \<Rightarrow> cursor_resources \<times> resources" where
  "run_call (CallFilter text_ok bound r) (c, e) =
     (if \<not> text_ok then (c, e)
      else case finalize_vm c e of (c, e) \<Rightarrow>
      (case acquire e of
         (None, e) \<Rightarrow> (c, e)
       | (Some vm, e) \<Rightarrow>
           (let c = c\<lparr>cr_vm := Some vm\<rparr> in if bound \<and> r = StepRow then (c, e) else finalize_vm c e)))"
| "run_call (CallNext r) (c, e) = (if r = StepDone then finalize_vm c e else (c, e))"

definition cloudsync_changesvtab_close :: "cursor_resources \<Rightarrow> resources \<Rightarrow> int \<times> resources" where
  "cloudsync_changesvtab_close c e =
     (case (if cr_vm c \<noteq> None then finalize_vm c e else (c, e)) of (c, e) \<Rightarrow> (SQLITE_OK, give_back [cr_self c] e))"

definition cursor_owns :: "resource set \<Rightarrow> cursor_resources \<times> resources \<Rightarrow> bool" where
  "cursor_owns base ce \<longleftrightarrow> (case ce of (c, e) \<Rightarrow>
     open_resources e = base \<union> set (cr_self c # (case cr_vm c of None \<Rightarrow> [] | Some vm \<Rightarrow> [vm])) \<and>
     cr_self c \<notin> base \<and> (\<forall>vm. cr_vm c = Some vm \<longrightarrow> vm \<notin> base \<and> vm \<noteq> cr_self c) \<and>
     (\<forall>r \<in> open_resources e. r < next_resource e))"

lemma finalize_vm_owns: "cursor_owns base (c, e) \<Longrightarrow> cursor_owns base (finalize_vm c e) \<and> cr_vm (fst (finalize_vm c e)) = None"
  by (cases "cr_vm c") (auto simp: cursor_owns_def finalize_vm_def give_back_def)

lemma acquire_owns:
  assumes "cursor_owns base (c, e)" "cr_vm c = None" "acquire e = (Some vm, e')"
  shows "cursor_owns base (c\<lparr>cr_vm := Some vm\<rparr>, e')"
  using assms(1,2) acquire_some [OF assms(3)] by (auto simp: cursor_owns_def intro: less_SucI)

lemma cursor_call_owns: "cursor_owns base ce \<Longrightarrow> cursor_owns base (run_call x ce)"
proof (induction x ce rule: run_call.induct)
  case (1 text_ok bound r c e)
  obtain c1 e1 where 1: "finalize_vm c e = (c1, e1)" by fastforce
  with finalize_vm_owns [OF "1.prems"] have c1: "cursor_owns base (c1, e1)" "cr_vm c1 = None" by simp_all
  obtain o2 e2 where 2: "acquire e1 = (o2, e2)" by fastforce
  show ?case
  proof (cases o2)
    case None
    then show ?thesis using "1.prems" 1 2 c1 acquire_none [of e1 e2] by (simp add: cursor_owns_def)
  next
    case (Some vm)
    from acquire_owns [OF c1 2 [unfolded Some]] finalize_vm_owns
    show ?thesis using "1.prems" 1 2 Some by (simp add: Let_def)
  qed
next
  case (2 r c e)
  then show ?case using finalize_vm_owns by simp
qed

text \<open>Whatever SQLite calls on a cursor, with whatever outcome, closing it leaves open what was open before it was opened.\<close>

lemma cursor_closes:
  assumes "acquire e = (Some self, e1)" "\<forall>r \<in> open_resources e. r < next_resource e"
    "fold run_call calls (\<lparr>cr_self = self, cr_vm = None\<rparr>, e1) = (c, e2)"
  shows "open_resources (snd (cloudsync_changesvtab_close c e2)) = open_resources e"
proof -
  have "cursor_owns (open_resources e) (\<lparr>cr_self = self, cr_vm = None\<rparr>, e1)"
    using acquire_some [OF assms(1)] assms(2) by (auto simp: cursor_owns_def intro: less_SucI)
  then have "cursor_owns (open_resources e) (fold run_call calls (\<lparr>cr_self = self, cr_vm = None\<rparr>, e1))"
    by (induction calls rule: rev_induct) (simp_all add: cursor_call_owns)
  then have "cursor_owns (open_resources e) (c, e2)" by (simp add: assms(3))
  then show ?thesis
    by (cases "cr_vm c") (auto simp: cursor_owns_def cloudsync_changesvtab_close_def finalize_vm_def give_back_def)
qed

end
