(* ===== verification/Memdebug.thy ===== *)
theory Memdebug
  imports Prelude
begin

text \<open>
  The memory debugger of src/src/utils.c, a build option (CLOUDSYNC_DEBUG_MEMORY) that puts a table of all blocks
  between the library and the allocator of SQLite.

  The allocator is an argument: each call is given the pointer that \<open>sqlite3_malloc64\<close>, \<open>sqlite3_realloc64\<close> or
  \<open>sqlite3_vmprintf\<close> answers with. \<open>blocks\<close> are the blocks that the allocator has handed out and not taken back, and
  \<open>misused\<close> is set when it is given a pointer that is none of them. The stack of a call is an argument too. Frames of
  the stack and messages are kept as printed lines; the texts of the messages are the constructors of \<open>mem_error\<close>.
  The two \<open>assert\<close>s (memory for the table itself) are not modelled.
\<close>

section \<open>The table\<close>

type_synonym addr = "64 word"

record mem_slot =
  ms_ptr :: addr
  ms_size :: i64
  ms_deleted :: bool
  ms_nrealloc :: nat
  ms_frames :: "string list"
  ms_frames2 :: "string list"

datatype mem_error =
    OldPointerNotFound
  | PointerAlreadyFreed
  | UnableToAllocate i64
  | UnableToPrint string
  | ReallocatedNotAllocated
  | UnableToReallocate i64
  | DeallocateNull
  | FreedNotAllocated

datatype line =
    Error mem_error
  | Frame string
  | Allocated
  | Freed
  | Stats i64 i64 i64 i64 i64
  | Leak addr i64 nat

text \<open>\<open>htable\<close> and the counters are the static variables; a key occurs once in the hash table.\<close>

record memory =
  htable :: "(addr \<times> mem_slot) list"
  nalloc :: i64
  nrealloc :: i64
  nfree :: i64
  mem_current :: i64
  mem_max :: i64
  printed :: "line list"
  blocks :: "addr \<rightharpoonup> i64"
  misused :: bool

definition ptr_lookup :: "addr \<Rightarrow> memory \<Rightarrow> mem_slot option" where
  "ptr_lookup p m = map_of (htable m) p"

definition ptr_insert :: "addr \<Rightarrow> mem_slot \<Rightarrow> memory \<Rightarrow> memory" where
  "ptr_insert p slot m = m\<lparr>htable := AList.update p slot (htable m)\<rparr>"

fun strstr :: "string \<Rightarrow> string \<Rightarrow> bool" where
  "strstr [] r \<longleftrightarrow> r = []"
| "strstr (c # s) r \<longleftrightarrow> take (length r) (c # s) = r \<or> strstr s r"

definition stacktrace_is_internal :: "string \<Rightarrow> bool" where
  "stacktrace_is_internal s = list_ex (strstr s) [''??? '', ''libdyld.dylib '', ''memdebug_'', ''_ptr_'']"

definition frame_lines :: "string list \<Rightarrow> line list" where
  "frame_lines stack = List.map Frame (filter (\<lambda>s. \<not> stacktrace_is_internal s) stack)"

definition memdebug_report :: "mem_error \<Rightarrow> string list \<Rightarrow> mem_slot option \<Rightarrow> memory \<Rightarrow> memory" where
  "memdebug_report e stack slot m =
     m\<lparr>printed := printed m @ Error e # frame_lines stack @
        (case slot of None \<Rightarrow> []
         | Some s \<Rightarrow> Allocated # frame_lines (ms_frames s) @ Freed # frame_lines (ms_frames2 s))\<rparr>"

definition ptr_add :: "string list \<Rightarrow> addr \<Rightarrow> i64 \<Rightarrow> memory \<Rightarrow> memory" where
  "ptr_add stack p n m =
     (let m = ptr_insert p \<lparr>ms_ptr = p, ms_size = n, ms_deleted = False, ms_nrealloc = 0, ms_frames = stack, ms_frames2 = []\<rparr> m;
          m = m\<lparr>nalloc := nalloc m + 1, mem_current := mem_current m + n\<rparr>
      in if mem_current m > mem_max m then m\<lparr>mem_max := mem_current m\<rparr> else m)"

definition ptr_remove :: "string list \<Rightarrow> addr \<Rightarrow> memory \<Rightarrow> memory" where
  "ptr_remove stack p m =
     (case ptr_lookup p m of
        None \<Rightarrow> memdebug_report OldPointerNotFound [] None m
      | Some slot \<Rightarrow>
          let m = (if ms_deleted slot then memdebug_report PointerAlreadyFreed stack (Some slot) m else m);
              m = ptr_insert p (slot\<lparr>ms_deleted := True, ms_frames2 := stack\<rparr>) m
          in m\<lparr>nfree := nfree m + 1, mem_current := mem_current m - ms_size slot\<rparr>)"

definition count_realloc :: "addr \<Rightarrow> memory \<Rightarrow> memory" where
  "count_realloc p m =
     (case ptr_lookup p m of None \<Rightarrow> m | Some slot \<Rightarrow> ptr_insert p (slot\<lparr>ms_nrealloc := ms_nrealloc slot + 1\<rparr>) m)"

definition ptr_replace :: "string list \<Rightarrow> addr \<Rightarrow> addr \<Rightarrow> i64 \<Rightarrow> memory \<Rightarrow> memory" where
  "ptr_replace stack old_ptr new_ptr new_size m =
     (if old_ptr = 0 then ptr_add stack new_ptr new_size m
      else
        let m = count_realloc new_ptr (ptr_add stack new_ptr new_size (ptr_remove stack old_ptr m));
            m = m\<lparr>nrealloc := nrealloc m + 1\<rparr>
        in if mem_current m > mem_max m then m\<lparr>mem_max := mem_current m\<rparr> else m)"

section \<open>The allocator of SQLite\<close>

definition sqlite3_malloc64 :: "addr option \<Rightarrow> i64 \<Rightarrow> memory \<Rightarrow> memory" where
  "sqlite3_malloc64 answer n m = (case answer of None \<Rightarrow> m | Some p \<Rightarrow> m\<lparr>blocks := (blocks m)(p \<mapsto> n)\<rparr>)"

text \<open>A size of 0 frees the block and answers NULL.\<close>

definition sqlite3_realloc64 :: "addr option \<Rightarrow> addr \<Rightarrow> i64 \<Rightarrow> memory \<Rightarrow> addr option \<times> memory" where
  "sqlite3_realloc64 answer p n m =
     (if blocks m p = None then (answer, m\<lparr>misused := True\<rparr>)
      else if n = 0 then (None, m\<lparr>blocks := (blocks m)(p := None)\<rparr>)
      else case answer of None \<Rightarrow> (None, m)
         | Some q \<Rightarrow> (Some q, m\<lparr>blocks := (blocks m)(p := None, q \<mapsto> n)\<rparr>))"

definition sqlite3_free :: "addr \<Rightarrow> memory \<Rightarrow> memory" where
  "sqlite3_free p m = (if blocks m p = None then m\<lparr>misused := True\<rparr> else m\<lparr>blocks := (blocks m)(p := None)\<rparr>)"

section \<open>The operations\<close>

definition memdebug_init :: "int \<Rightarrow> (addr \<times> mem_slot) list option \<Rightarrow> (addr \<times> mem_slot) list option" where
  "memdebug_init once table = (if table = None then Some [] else table)"

definition memdebug_alloc :: "string list \<Rightarrow> addr option \<Rightarrow> i64 \<Rightarrow> memory \<Rightarrow> addr option \<times> memory" where
  "memdebug_alloc stack answer n m =
     (let m = sqlite3_malloc64 answer n m
      in case answer of None \<Rightarrow> (None, memdebug_report (UnableToAllocate n) stack None m)
       | Some p \<Rightarrow> (Some p, ptr_add stack p n m))"

definition memdebug_realloc :: "string list \<Rightarrow> addr option \<Rightarrow> addr \<Rightarrow> i64 \<Rightarrow> memory \<Rightarrow> addr option \<times> memory" where
  "memdebug_realloc stack answer p new_size m =
     (if p = 0 then memdebug_alloc stack answer new_size m
      else case ptr_lookup p m of
        None \<Rightarrow> (None, memdebug_report ReallocatedNotAllocated stack None m)
      | Some slot \<Rightarrow>
          (case sqlite3_realloc64 answer p new_size m of
             (None, m) \<Rightarrow> (None, memdebug_report (UnableToReallocate new_size) stack (Some slot) m)
           | (Some new_ptr, m) \<Rightarrow> (Some new_ptr, ptr_replace stack p new_ptr new_size m)))"

text \<open>The size is what \<open>sqlite3_msize\<close> says of the new text.\<close>

definition memdebug_vmprintf :: "string list \<Rightarrow> addr option \<Rightarrow> i64 \<Rightarrow> string \<Rightarrow> memory \<Rightarrow> addr option \<times> memory" where
  "memdebug_vmprintf stack answer n format m =
     (let m = sqlite3_malloc64 answer n m
      in case answer of None \<Rightarrow> (None, memdebug_report (UnableToPrint format) stack None m)
       | Some p \<Rightarrow> (Some p, ptr_add stack p n m))"

definition memdebug_mprintf :: "string list \<Rightarrow> addr option \<Rightarrow> i64 \<Rightarrow> string \<Rightarrow> memory \<Rightarrow> addr option \<times> memory" where
  "memdebug_mprintf stack answer n format m = memdebug_vmprintf stack answer n format m"

definition memdebug_msize :: "addr \<Rightarrow> memory \<Rightarrow> i64 option" where
  "memdebug_msize p m = blocks m p"

definition memdebug_free :: "string list \<Rightarrow> addr \<Rightarrow> memory \<Rightarrow> memory" where
  "memdebug_free stack p m =
     (let m = (if p = 0 then memdebug_report DeallocateNull stack None m else m)
      in case ptr_lookup p m of
        None \<Rightarrow> memdebug_report FreedNotAllocated stack None m
      | Some slot \<Rightarrow>
          if ms_deleted slot then memdebug_report PointerAlreadyFreed stack (Some slot) m
          else sqlite3_free p (ptr_remove stack p m))"

fun leak_lines :: "(addr \<times> mem_slot) list \<Rightarrow> line list" where
  "leak_lines [] = []"
| "leak_lines ((k, slot) # table) =
     (if ms_ptr slot = 0 \<or> ms_deleted slot then leak_lines table
      else Leak (ms_ptr slot) (ms_size slot) (ms_nrealloc slot) # frame_lines (ms_frames slot) @ leak_lines table)"

definition memdebug_finalize :: "memory \<Rightarrow> memory" where
  "memdebug_finalize m =
     m\<lparr>printed := printed m @ Stats (nalloc m) (nrealloc m) (nfree m) (mem_current m) (mem_max m) #
        (if mem_current m > 0 then leak_lines (htable m) else [])\<rparr>"

section \<open>The debugger as a state machine\<close>

definition total :: "(addr \<rightharpoonup> i64) \<Rightarrow> nat" where
  "total b = (\<Sum>p\<in>dom b. unat (the (b p)))"

text \<open>
  What SQLite documents of an answer: a new block lies apart from the others, so its address is not NULL and not one of
  theirs, the blocks fit into the address space together, and a request for no bytes is answered with NULL.
\<close>

fun fresh :: "(addr \<rightharpoonup> i64) \<Rightarrow> addr option \<Rightarrow> i64 \<Rightarrow> bool" where
  "fresh b None n \<longleftrightarrow> True"
| "fresh b (Some p) n \<longleftrightarrow> p \<noteq> 0 \<and> b p = None \<and> n \<noteq> 0 \<and> total b + unat n < 2 ^ 64"

definition mem_start :: memory where
  "mem_start = \<lparr>htable = the (memdebug_init 1 None), nalloc = 0, nrealloc = 0, nfree = 0, mem_current = 0, mem_max = 0,
     printed = [], blocks = Map.empty, misused = False\<rparr>"

text \<open>
  The calls of a client. It may give anything to \<open>memdebug_free\<close>; what it gives to \<open>memdebug_realloc\<close> it has not freed
  before, and it does not ask for a size of 0 there.
\<close>

inductive mem_reachable :: "memory \<Rightarrow> bool" where
  start: "mem_reachable mem_start"
| alloc: "mem_reachable m \<Longrightarrow> fresh (blocks m) answer n \<Longrightarrow> mem_reachable (snd (memdebug_alloc stack answer n m))"
| printf: "mem_reachable m \<Longrightarrow> fresh (blocks m) answer n \<Longrightarrow>
    mem_reachable (snd (memdebug_mprintf stack answer n format m))"
| realloc: "mem_reachable m \<Longrightarrow> fresh ((blocks m)(p := None)) answer n \<Longrightarrow> n \<noteq> 0 \<Longrightarrow>
    (case ptr_lookup p m of None \<Rightarrow> True | Some slot \<Rightarrow> \<not> ms_deleted slot) \<Longrightarrow>
    mem_reachable (snd (memdebug_realloc stack answer p n m))"
| free: "mem_reachable m \<Longrightarrow> mem_reachable (memdebug_free stack p m)"

section \<open>The table mirrors the allocator\<close>

definition live :: "mem_slot option \<Rightarrow> i64 option" where
  "live slot = (case slot of None \<Rightarrow> None | Some s \<Rightarrow> if ms_deleted s then None else Some (ms_size s))"

definition mirrors :: "memory \<Rightarrow> bool" where
  "mirrors m \<longleftrightarrow> distinct (List.map fst (htable m)) \<and> (\<forall>(p, s) \<in> set (htable m). ms_ptr s = p \<and> p \<noteq> 0) \<and>
     (\<forall>p. blocks m p = live (map_of (htable m) p)) \<and> (\<forall>p n. blocks m p = Some n \<longrightarrow> n \<noteq> 0)"

definition counts :: "memory \<Rightarrow> bool" where
  "counts m \<longleftrightarrow> mem_current m = of_nat (total (blocks m)) \<and> total (blocks m) < 2 ^ 64 \<and> mem_current m \<le> mem_max m \<and>
     nalloc m - nfree m = of_nat (card (dom (blocks m)))"

lemma total_insert: "finite (dom b) \<Longrightarrow> b p = None \<Longrightarrow> total (b(p \<mapsto> n)) = total b + unat n"
proof -
  assume f: "finite (dom b)" "b p = None"
  have "(\<Sum>x\<in>dom b. unat (the ((b(p \<mapsto> n)) x))) = (\<Sum>x\<in>dom b. unat (the (b x)))"
    by (rule sum.cong) (use f in auto)
  with f show ?thesis by (simp add: total_def domIff)
qed

lemma total_remove: "finite (dom b) \<Longrightarrow> b p = Some n \<Longrightarrow> total b = total (b(p := None)) + unat n"
proof -
  assume f: "finite (dom b)" "b p = Some n"
  then have "total ((b(p := None))(p \<mapsto> n)) = total (b(p := None)) + unat n" by (intro total_insert) auto
  moreover have "(b(p := None))(p \<mapsto> n) = b" using f by auto
  ultimately show ?thesis by simp
qed

lemma mirrors_finite: "mirrors m \<Longrightarrow> finite (dom (blocks m))"
proof -
  assume m: "mirrors m"
  have "dom (blocks m) \<subseteq> dom (map_of (htable m))"
    using m by (auto simp: mirrors_def live_def dom_def split: option.splits)
  then show ?thesis using finite_dom_map_of finite_subset by blast
qed

lemma set_update: "(k, s) \<in> set (AList.update p x xs) \<Longrightarrow> (k, s) = (p, x) \<or> (k, s) \<in> set xs"
  by (induction xs) (auto split: if_splits)

text \<open>A slot put into the table together with the block it stands for.\<close>

lemma insert_mirrors:
  assumes "mirrors m" "ms_ptr slot = p" "p \<noteq> 0" "live (Some slot) = b" "b \<noteq> Some 0"
  shows "mirrors (ptr_insert p slot m\<lparr>blocks := (blocks m)(p := b)\<rparr>)"
  using assms by (auto simp: mirrors_def ptr_insert_def distinct_update update_conv' dest: set_update)

lemma report_fields [simp]:
  "htable (memdebug_report e st s m) = htable m" "blocks (memdebug_report e st s m) = blocks m"
  "misused (memdebug_report e st s m) = misused m" "nalloc (memdebug_report e st s m) = nalloc m"
  "nfree (memdebug_report e st s m) = nfree m" "mem_current (memdebug_report e st s m) = mem_current m"
  "mem_max (memdebug_report e st s m) = mem_max m" "nrealloc (memdebug_report e st s m) = nrealloc m"
  by (simp_all add: memdebug_report_def)

lemma mirrors_cong: "htable m = htable m' \<Longrightarrow> blocks m = blocks m' \<Longrightarrow> mirrors m = mirrors m'"
  by (simp add: mirrors_def)

lemma counts_cong:
  "blocks m = blocks m' \<Longrightarrow> mem_current m = mem_current m' \<Longrightarrow> mem_max m = mem_max m' \<Longrightarrow> nalloc m = nalloc m' \<Longrightarrow>
   nfree m = nfree m' \<Longrightarrow> counts m = counts m'"
  by (simp add: counts_def)

lemma ptr_add_mirrors:
  assumes "mirrors m" "p \<noteq> 0" "n \<noteq> 0"
  shows "mirrors (ptr_add st p n m\<lparr>blocks := (blocks m)(p \<mapsto> n)\<rparr>)"
proof -
  let ?s = "\<lparr>ms_ptr = p, ms_size = n, ms_deleted = False, ms_nrealloc = 0, ms_frames = st, ms_frames2 = []\<rparr>"
  have "mirrors (ptr_insert p ?s m\<lparr>blocks := (blocks m)(p \<mapsto> n)\<rparr>)"
    by (rule insert_mirrors) (use assms in \<open>simp_all add: live_def\<close>)
  then show ?thesis by (rule mirrors_cong [THEN iffD1, rotated 2]) (simp_all add: ptr_add_def ptr_insert_def Let_def)
qed

lemma ptr_remove_mirrors:
  assumes "mirrors m" "blocks m p = Some n"
  shows "mirrors (ptr_remove st p m\<lparr>blocks := (blocks m)(p := None)\<rparr>)"
proof -
  obtain s where s: "map_of (htable m) p = Some s" "\<not> ms_deleted s"
    using assms by (auto simp: mirrors_def live_def split: option.splits if_splits)
  then have "ms_ptr s = p" "p \<noteq> 0" using assms(1) map_of_SomeD by (fastforce simp: mirrors_def)+
  then have "mirrors (ptr_insert p (s\<lparr>ms_deleted := True, ms_frames2 := st\<rparr>) m\<lparr>blocks := (blocks m)(p := None)\<rparr>)"
    by (intro insert_mirrors) (use assms(1) in \<open>simp_all add: live_def\<close>)
  then show ?thesis
    by (rule mirrors_cong [THEN iffD1, rotated 2]) (use s in \<open>simp_all add: ptr_remove_def ptr_lookup_def ptr_insert_def Let_def\<close>)
qed

lemma ptr_add_counts:
  assumes "mirrors m" "counts m" "blocks m p = None" "total (blocks m) + unat n < 2 ^ 64"
  shows "counts (ptr_add st p n m\<lparr>blocks := (blocks m)(p \<mapsto> n)\<rparr>)"
proof -
  note f = mirrors_finite [OF assms(1)]
  have t: "total ((blocks m)(p \<mapsto> n)) = total (blocks m) + unat n" by (rule total_insert [OF f assms(3)])
  have "card (insert p (dom (blocks m))) = Suc (card (dom (blocks m)))" using f assms(3) by (simp add: domIff)
  then have c: "nalloc m + 1 - nfree m = of_nat (card (insert p (dom (blocks m))))"
    using assms(2) by (simp add: counts_def algebra_simps)
  then show ?thesis using assms(2,4) by (auto simp: counts_def ptr_add_def ptr_insert_def Let_def t c)
qed

lemma of_nat_i64_le: "a \<le> b \<Longrightarrow> b < 2 ^ 64 \<Longrightarrow> (of_nat a :: i64) \<le> of_nat b"
  by (simp add: word_le_nat_alt unat_of_nat take_bit_eq_mod)

lemma ptr_remove_counts:
  assumes "mirrors m" "counts m" "blocks m p = Some n"
  shows "counts (ptr_remove st p m\<lparr>blocks := (blocks m)(p := None)\<rparr>)"
proof -
  note f = mirrors_finite [OF assms(1)]
  obtain s where s: "map_of (htable m) p = Some s" "\<not> ms_deleted s" "ms_size s = n"
    using assms(1,3) by (auto simp: mirrors_def live_def split: option.splits if_splits)
  have t: "total (blocks m) = total ((blocks m)(p := None)) + unat n" by (rule total_remove [OF f assms(3)])
  have "card (dom (blocks m)) = Suc (card (dom (blocks m) - {p}))" using f assms(3) by (intro card.remove) auto
  then have c: "of_nat (card (dom (blocks m))) = (of_nat (card (dom (blocks m) - {p})) + 1 :: i64)" by simp
  have cur: "mem_current m - n = of_nat (total ((blocks m)(p := None)))"
    using assms(2) t by (simp add: counts_def)
  have "(of_nat (total ((blocks m)(p := None))) :: i64) \<le> of_nat (total (blocks m))"
    by (rule of_nat_i64_le) (use t assms(2) in \<open>simp_all add: counts_def\<close>)
  then have "mem_current m - n \<le> mem_max m" using assms(2) unfolding cur counts_def by (metis order_trans)
  moreover have "nalloc m - (nfree m + 1) = of_nat (card (dom (blocks m) - {p}))"
    using assms(2) c by (simp add: counts_def algebra_simps)
  ultimately show ?thesis
    using s assms(2) t cur by (simp add: counts_def ptr_remove_def ptr_lookup_def ptr_insert_def Let_def)
qed

lemma ptr_blocks:
  "ptr_add st p n (m\<lparr>blocks := b\<rparr>) = ptr_add st p n m\<lparr>blocks := b\<rparr>" "blocks (ptr_add st p n m) = blocks m"
  "ptr_remove st p (m\<lparr>blocks := b\<rparr>) = ptr_remove st p m\<lparr>blocks := b\<rparr>" "blocks (ptr_remove st p m) = blocks m"
  "misused (ptr_add st p n m) = misused m" "misused (ptr_remove st p m) = misused m"
  by (auto simp: ptr_add_def ptr_remove_def ptr_lookup_def ptr_insert_def memdebug_report_def Let_def split: option.split)

definition mem_ok :: "memory \<Rightarrow> bool" where
  "mem_ok m \<longleftrightarrow> mirrors m \<and> counts m \<and> \<not> misused m"

lemma report_ok [simp]: "mem_ok (memdebug_report e st s m) = mem_ok m"
  by (simp add: mem_ok_def mirrors_def counts_def)

lemma ptr_add_ok:
  "mem_ok m \<Longrightarrow> fresh (blocks m) (Some p) n \<Longrightarrow> mem_ok (ptr_add st p n (m\<lparr>blocks := (blocks m)(p \<mapsto> n)\<rparr>))"
  by (simp add: mem_ok_def ptr_blocks ptr_add_mirrors ptr_add_counts)

lemma ptr_remove_ok:
  "mem_ok m \<Longrightarrow> blocks m p = Some n \<Longrightarrow> mem_ok (ptr_remove st p (m\<lparr>blocks := (blocks m)(p := None)\<rparr>))"
  by (simp add: mem_ok_def ptr_blocks ptr_remove_mirrors ptr_remove_counts)

lemma lookup_slot:
  assumes "mem_ok m" "ptr_lookup p m = Some s"
  shows "ms_ptr s = p" "p \<noteq> 0" "live (Some s) = blocks m p" "blocks m p \<noteq> Some 0"
proof -
  have m: "mirrors m" using assms(1) by (simp add: mem_ok_def)
  have "(p, s) \<in> set (htable m)" using assms(2) map_of_SomeD unfolding ptr_lookup_def by metis
  with m show "ms_ptr s = p" "p \<noteq> 0" by (auto simp: mirrors_def)
  show "live (Some s) = blocks m p" using m assms(2) by (simp add: mirrors_def ptr_lookup_def)
  show "blocks m p \<noteq> Some 0" using m unfolding mirrors_def by blast
qed

lemma count_realloc_ok: "mem_ok m \<Longrightarrow> mem_ok (count_realloc p m)"
proof (cases "ptr_lookup p m")
  case (Some s)
  assume ok: "mem_ok m"
  note s = lookup_slot [OF ok Some]
  have l: "live (Some (s\<lparr>ms_nrealloc := k\<rparr>)) = live (Some s)" for k by (simp add: live_def)
  have "mirrors (ptr_insert p (s\<lparr>ms_nrealloc := ms_nrealloc s + 1\<rparr>) m\<lparr>blocks := (blocks m)(p := blocks m p)\<rparr>)"
    by (rule insert_mirrors) (use ok s in \<open>simp_all add: mem_ok_def l\<close>)
  then have "mirrors (ptr_insert p (s\<lparr>ms_nrealloc := ms_nrealloc s + 1\<rparr>) m)"
    by (rule mirrors_cong [THEN iffD1, rotated 2]) (simp_all add: ptr_insert_def)
  moreover have "counts (ptr_insert p x m) = counts m" for x by (rule counts_cong) (simp_all add: ptr_insert_def)
  ultimately show ?thesis using ok Some by (simp add: mem_ok_def count_realloc_def) (simp add: ptr_insert_def)
qed (simp add: count_realloc_def)

lemma mem_ok_nrealloc: "mem_ok (m\<lparr>nrealloc := k\<rparr>) = mem_ok m"
  by (simp add: mem_ok_def mirrors_def counts_def)

lemma mem_ok_max: "mem_ok m \<Longrightarrow> mem_ok (m\<lparr>nrealloc := k, mem_max := mem_current m\<rparr>)"
  by (simp add: mem_ok_def mirrors_def counts_def)

lemma ptr_replace_ok:
  assumes "mem_ok m" "blocks m p = Some k" "fresh ((blocks m)(p := None)) (Some q) n" "p \<noteq> 0"
  shows "mem_ok (ptr_replace st p q n (m\<lparr>blocks := (blocks m)(p := None, q \<mapsto> n)\<rparr>))"
proof -
  let ?m = "ptr_remove st p (m\<lparr>blocks := (blocks m)(p := None)\<rparr>)"
  have r: "mem_ok ?m" by (rule ptr_remove_ok [OF assms(1,2)])
  have b: "blocks ?m = (blocks m)(p := None)" by (simp add: ptr_blocks)
  have "mem_ok (ptr_add st q n (?m\<lparr>blocks := (blocks m)(p := None, q \<mapsto> n)\<rparr>))"
    using ptr_add_ok [OF r, of q n st] assms(3) unfolding b by simp
  then have "mem_ok (ptr_add st q n (ptr_remove st p (m\<lparr>blocks := (blocks m)(p := None, q \<mapsto> n)\<rparr>)))"
    by (simp add: ptr_blocks)
  from count_realloc_ok [OF this, of q] show ?thesis
    using assms(4) by (simp add: ptr_replace_def Let_def mem_ok_nrealloc mem_ok_max)
qed

lemma alloc_ok: "mem_ok m \<Longrightarrow> fresh (blocks m) answer n \<Longrightarrow> mem_ok (snd (memdebug_alloc st answer n m))"
  using ptr_add_ok by (cases answer) (simp_all add: memdebug_alloc_def sqlite3_malloc64_def)

lemma printf_ok: "mem_ok m \<Longrightarrow> fresh (blocks m) answer n \<Longrightarrow> mem_ok (snd (memdebug_mprintf st answer n f m))"
  using ptr_add_ok by (cases answer) (simp_all add: memdebug_mprintf_def memdebug_vmprintf_def sqlite3_malloc64_def)

lemma live_lookup: "mem_ok m \<Longrightarrow> blocks m p = live (ptr_lookup p m)" "mem_ok m \<Longrightarrow> p = 0 \<Longrightarrow> blocks m 0 = None"
proof -
  assume ok: "mem_ok m"
  then show "blocks m p = live (ptr_lookup p m)" by (simp add: mem_ok_def mirrors_def ptr_lookup_def)
  then show "blocks m 0 = None" if "p = 0"
    using lookup_slot(2) [OF ok] that by (cases "ptr_lookup p m") (auto simp: live_def)
qed

lemma live_slot:
  assumes "mem_ok m" "blocks m p = Some n"
  obtains s where "ptr_lookup p m = Some s" "\<not> ms_deleted s" "ms_size s = n" "p \<noteq> 0"
proof -
  obtain s where s: "ptr_lookup p m = Some s" "\<not> ms_deleted s" "ms_size s = n"
    using live_lookup(1) [OF assms(1), of p] assms(2) by (auto simp: live_def split: option.splits if_splits)
  with lookup_slot(2) [OF assms(1)] show ?thesis using that by metis
qed

lemma realloc_ok:
  assumes "mem_ok m" "fresh ((blocks m)(p := None)) answer n" "n \<noteq> 0"
    "case ptr_lookup p m of None \<Rightarrow> True | Some slot \<Rightarrow> \<not> ms_deleted slot"
  shows "mem_ok (snd (memdebug_realloc st answer p n m))"
proof (cases "p = 0")
  case True
  then have "(blocks m)(p := None) = blocks m" using live_lookup(2) [OF assms(1)] by auto
  with True show ?thesis using alloc_ok [OF assms(1)] assms(2) by (simp add: memdebug_realloc_def)
next
  case p: False
  show ?thesis
  proof (cases "ptr_lookup p m")
    case None
    then show ?thesis using assms(1) p by (simp add: memdebug_realloc_def)
  next
    case (Some s)
    then have b: "blocks m p = Some (ms_size s)" using live_lookup(1) [OF assms(1), of p] assms(4) by (simp add: live_def)
    show ?thesis
    proof (cases answer)
      case None
      then show ?thesis using assms(1,3) p Some b by (simp add: memdebug_realloc_def sqlite3_realloc64_def)
    next
      case (Some q)
      then have "mem_ok (ptr_replace st p q n (m\<lparr>blocks := (blocks m)(p := None, q \<mapsto> n)\<rparr>))"
        using ptr_replace_ok [OF assms(1) b, of q n st] assms(2) p by simp
      then show ?thesis using Some \<open>ptr_lookup p m = Some s\<close> assms(3) p b
        by (simp add: memdebug_realloc_def sqlite3_realloc64_def)
    qed
  qed
qed

lemma free_ok: "mem_ok m \<Longrightarrow> mem_ok (memdebug_free st p m)"
proof -
  assume ok: "mem_ok m"
  have step: "mem_ok (case ptr_lookup p m of None \<Rightarrow> memdebug_report FreedNotAllocated st None m
      | Some slot \<Rightarrow> if ms_deleted slot then memdebug_report PointerAlreadyFreed st (Some slot) m
                     else sqlite3_free p (ptr_remove st p m))" if "mem_ok m" for m
  proof (cases "\<exists>s. ptr_lookup p m = Some s \<and> \<not> ms_deleted s")
    case True
    then obtain s where s: "ptr_lookup p m = Some s" "\<not> ms_deleted s" by blast
    then have "blocks m p = Some (ms_size s)" using live_lookup(1) [OF that, of p] by (simp add: live_def)
    with s ptr_remove_ok [OF that this] show ?thesis by (simp add: sqlite3_free_def ptr_blocks)
  qed (use that in \<open>auto split: option.split\<close>)
  from step [OF ok] step [of "memdebug_report DeallocateNull st None m"] ok show ?thesis
    unfolding memdebug_free_def Let_def by (cases "p = 0") simp_all
qed

lemma mem_start_ok: "mem_ok mem_start"
  by (simp add: mem_ok_def mirrors_def counts_def mem_start_def memdebug_init_def live_def total_def)

lemma reachable_ok: "mem_reachable m \<Longrightarrow> mem_ok m"
  by (induction rule: mem_reachable.induct) (simp_all add: mem_start_ok alloc_ok printf_ok realloc_ok free_ok)

section \<open>What the debugger promises\<close>


lemma demo_fresh: "mem_reachable (snd (memdebug_alloc [] (Some 4096) 16 mem_start))"
  by (rule mem_reachable.alloc [OF mem_reachable.start]) (simp add: mem_start_def total_def)




lemma leak_lines_iff:
  "distinct (List.map fst table) \<Longrightarrow> \<forall>(p, s) \<in> set table. ms_ptr s = p \<and> p \<noteq> 0 \<Longrightarrow>
   (\<exists>k. Leak p n k \<in> set (leak_lines table)) \<longleftrightarrow> live (map_of table p) = Some n"
proof (induction table rule: leak_lines.induct)
  case (2 k slot table)
  have "map_of table k = None" using "2.prems"(1) by (simp add: map_of_eq_None_iff)
  with 2 show ?case by (cases "p = k") (auto simp: frame_lines_def live_def)
qed (simp add: live_def)

text \<open>At the end the debugger lists the blocks that were not freed, all of them and no others, with their sizes.\<close>

theorem memdebug_finalize_lists_leaks:
  assumes "mem_reachable m"
  shows "(\<exists>k. Leak p n k \<in> set (drop (length (printed m)) (printed (memdebug_finalize m)))) \<longleftrightarrow> blocks m p = Some n"
proof -
  have ok: "mem_ok m" by (rule reachable_ok [OF assms])
  then have m: "mirrors m" "counts m" by (simp_all add: mem_ok_def)
  have l: "(\<exists>k. Leak p n k \<in> set (leak_lines (htable m))) \<longleftrightarrow> blocks m p = Some n"
    using leak_lines_iff [of "htable m" p n] m(1) by (simp add: mirrors_def)
  have "mem_current m > 0" if "blocks m p = Some n"
  proof -
    have "n \<noteq> 0" using m(1) that unfolding mirrors_def by blast
    then have "total (blocks m) > 0" using total_remove [OF mirrors_finite [OF m(1)] that] by (simp add: unat_gt_0)
    then have "unat (mem_current m) > 0" using m(2) by (simp add: counts_def unat_of_nat take_bit_eq_mod)
    then show ?thesis by (simp add: word_neq_0_conv unat_gt_0)
  qed
  with l show ?thesis by (auto simp: memdebug_finalize_def)
qed

theorem memdebug_finalize_lists_leaks_witness:
  "\<exists>k. Leak 4096 16 k \<in> set (drop 0 (printed (memdebug_finalize (snd (memdebug_alloc [] (Some 4096) 16 mem_start)))))"
proof -
  have "printed (snd (memdebug_alloc [] (Some 4096) 16 mem_start)) = []"
    by (simp add: memdebug_alloc_def sqlite3_malloc64_def ptr_add_def ptr_insert_def mem_start_def Let_def)
  then show ?thesis using memdebug_finalize_lists_leaks [OF demo_fresh, where p = 4096 and n = 16]
    by (simp add: memdebug_alloc_def sqlite3_malloc64_def ptr_blocks)
qed

section \<open>What it does not see\<close>

text \<open>A pointer that was freed and is reallocated is not checked for \<open>deleted\<close>: it goes to the allocator.\<close>

lemma stale_realloc_reaches_allocator:
  assumes "mem_reachable m" "ptr_lookup p m = Some slot" "ms_deleted slot"
  shows "misused (snd (memdebug_realloc st answer p n m))"
proof -
  have ok: "mem_ok m" by (rule reachable_ok [OF assms(1)])
  have "blocks m p = None" "p \<noteq> 0" using live_lookup(1) [OF ok, of p] lookup_slot(2) [OF ok assms(2)] assms(2,3) by (auto simp: live_def)
  then show ?thesis using assms(2)
    by (cases answer) (simp_all add: memdebug_realloc_def sqlite3_realloc64_def ptr_replace_def count_realloc_def ptr_blocks
        ptr_insert_def Let_def split: option.split)
qed

text \<open>A reallocation to size 0 frees the block, but its slot stays: a later free passes the checks and frees it twice.\<close>

lemma realloc_zero_frees_twice:
  assumes "mem_reachable m" "blocks m p = Some n"
  shows "misused (memdebug_free st p (snd (memdebug_realloc st answer p 0 m)))"
proof -
  have ok: "mem_ok m" by (rule reachable_ok [OF assms(1)])
  then obtain s where s: "ptr_lookup p m = Some s" "\<not> ms_deleted s" "p \<noteq> 0"
    using live_slot assms(2) by metis
  then have "snd (memdebug_realloc st answer p 0 m) =
      memdebug_report (UnableToReallocate 0) st (Some s) (m\<lparr>blocks := (blocks m)(p := None)\<rparr>)"
    using assms(2) by (simp add: memdebug_realloc_def sqlite3_realloc64_def)
  with s show ?thesis
    by (simp add: memdebug_free_def ptr_lookup_def sqlite3_free_def ptr_blocks)
qed

text \<open>A reallocation makes a new slot, so the number of reallocations of a block in the list of leaks is at most 1.\<close>

definition reallocs_small :: "memory \<Rightarrow> bool" where
  "reallocs_small m \<longleftrightarrow> (\<forall>(p, s) \<in> set (htable m). ms_nrealloc s \<le> 1)"

lemma insert_small: "reallocs_small m \<Longrightarrow> ms_nrealloc s \<le> 1 \<Longrightarrow> reallocs_small (ptr_insert p s m)"
  by (auto simp: reallocs_small_def ptr_insert_def dest: set_update)

lemma small_cong: "htable m = htable m' \<Longrightarrow> reallocs_small m = reallocs_small m'"
  by (simp add: reallocs_small_def)

lemma lookup_small: "reallocs_small m \<Longrightarrow> ptr_lookup p m = Some s \<Longrightarrow> ms_nrealloc s \<le> 1"
  using map_of_SomeD unfolding reallocs_small_def ptr_lookup_def by fastforce

lemma add_small: "reallocs_small m \<Longrightarrow> reallocs_small (ptr_add st p n m)"
  by (rule small_cong [THEN iffD1, OF _ insert_small]) (auto simp: ptr_add_def ptr_insert_def Let_def)

lemma remove_small: "reallocs_small m \<Longrightarrow> reallocs_small (ptr_remove st p m)"
proof (cases "ptr_lookup p m")
  case (Some s)
  assume "reallocs_small m"
  then have "reallocs_small (ptr_insert p (s\<lparr>ms_deleted := True, ms_frames2 := st\<rparr>) m)"
    using lookup_small [OF _ Some] by (intro insert_small) auto
  then show ?thesis by (rule small_cong [THEN iffD1, rotated]) (simp add: ptr_remove_def Some ptr_insert_def Let_def)
qed (simp add: ptr_remove_def small_cong [OF report_fields(1)])

lemma replace_small: "reallocs_small m \<Longrightarrow> reallocs_small (ptr_replace st p q n m)"
proof -
  assume m: "reallocs_small m"
  let ?m = "ptr_add st q n (ptr_remove st p m)"
  have "\<exists>s. ptr_lookup q ?m = Some s \<and> ms_nrealloc s = 0"
    by (simp add: ptr_lookup_def ptr_add_def ptr_insert_def Let_def update_conv')
  then obtain s where "ptr_lookup q ?m = Some s" "ms_nrealloc s = 0" by blast
  then have "reallocs_small (count_realloc q ?m)"
    using m by (auto simp: count_realloc_def intro!: insert_small add_small remove_small)
  then have "reallocs_small (count_realloc q ?m\<lparr>nrealloc := k, mem_max := x\<rparr>)" "reallocs_small (count_realloc q ?m\<lparr>nrealloc := k\<rparr>)" for k x
    by (rule small_cong [THEN iffD1, rotated], simp)+
  with m show ?thesis by (simp add: ptr_replace_def Let_def add_small)
qed

lemma alloc_small: "reallocs_small m \<Longrightarrow> reallocs_small (sqlite3_malloc64 a n m)" "reallocs_small m \<Longrightarrow> reallocs_small (sqlite3_free p m)"
  "reallocs_small m \<Longrightarrow> reallocs_small (snd (sqlite3_realloc64 a p n m))"
  by (rule small_cong [THEN iffD1, rotated], assumption,
      simp add: sqlite3_malloc64_def sqlite3_free_def sqlite3_realloc64_def split: option.split)+

lemma report_small [simp]: "reallocs_small (memdebug_report e st s m) = reallocs_small m"
  by (rule small_cong) simp

lemma operations_small:
  assumes "reallocs_small m"
  shows "reallocs_small (snd (memdebug_alloc st a n m))" "reallocs_small (snd (memdebug_mprintf st a n f m))"
    "reallocs_small (snd (memdebug_realloc st a p n m))" "reallocs_small (memdebug_free st p m)"
proof -
  show a: "reallocs_small (snd (memdebug_alloc st a n m))" "reallocs_small (snd (memdebug_mprintf st a n f m))"
    using assms by (simp_all add: memdebug_alloc_def memdebug_mprintf_def memdebug_vmprintf_def Let_def alloc_small add_small split: option.split)
  obtain r m' where r: "sqlite3_realloc64 a p n m = (r, m')" by fastforce
  then have "reallocs_small m'" using alloc_small(3) [OF assms, of a p n] by simp
  with a(1) r assms show "reallocs_small (snd (memdebug_realloc st a p n m))"
    by (cases r) (simp_all add: memdebug_realloc_def replace_small split: option.split)
  show "reallocs_small (memdebug_free st p m)"
    using assms by (simp add: memdebug_free_def Let_def alloc_small remove_small split: option.split)
qed

lemma start_small: "reallocs_small mem_start"
  by (simp add: reallocs_small_def mem_start_def memdebug_init_def)

lemma leak_counts_one_reallocation:
  assumes "mem_reachable m" "Leak p n k \<in> set (leak_lines (htable m))"
  shows "k \<le> 1"
proof -
  from assms(1) have "reallocs_small m"
    by (induction rule: mem_reachable.induct)
      (simp_all add: operations_small start_small)
  moreover have "Leak p n k \<in> set (leak_lines table) \<Longrightarrow> \<forall>(p, s) \<in> set table. ms_nrealloc s \<le> 1 \<Longrightarrow> k \<le> 1" for table
    by (induction table rule: leak_lines.induct) (auto simp: frame_lines_def split: if_splits)
  ultimately show ?thesis using assms(2) by (simp add: reallocs_small_def)
qed

end
