(* ===== verification/Spec2Isabelle.thy ===== *)
theory Spec2Isabelle
  imports Entry Handles Memdebug
begin

text \<open>
  A model of sqlite-sync (src/src), a SQLite extension that replicates tables between databases. Every
  augmented table \<open>t\<close> has a clock table \<open>t_cloudsync\<close> with a row for each (key, column): a column version, the
  database version and sequence number of the change, and the ordinal of the site that made it. A row with the
  column \<open>__[RIP]__\<close>, the sentinel, holds the causal length of the key: odd while the row is alive, even after a
  delete. Triggers record local changes; changes of other sites are merged by comparing causal lengths, column
  versions and values.

  The parts, in the order in which the theories build on each other:

    \<^item> \<open>Prelude\<close>: machine types, SQLite result codes, C strings and byte comparison.
    \<^item> \<open>Values\<close> (dbutils.c: \<open>dbutils_value_compare\<close>): the order of values that decides conflicts, with the interface
      \<open>conflict_order\<close>: what a comparison must satisfy so that keeping the greater of two values does not depend on
      order and repetition.
    \<^item> \<open>Pk\<close> (pk.c): the encoding of keys and payload rows, with the interface \<open>seek_codec\<close>.
    \<^item> \<open>Utils\<close> (utils.c): UUID v7, string helpers, the schema hash, rowids, names of algorithms.
    \<^item> \<open>State\<close> (the structs of cloudsync.c): the context, the database, the calls of the engine. The interface
      \<open>frame\<close> collects how facts survive the calls; theories below extend it for the fields they write.
    \<^item> \<open>Settings\<close> (dbutils.c): the settings tables and the statement runner, with the interface \<open>settings_store\<close>.
    \<^item> \<open>Tables\<close> (cloudsync.c): the registry of augmented tables and its invariant \<open>registry_ok\<close>.
    \<^item> \<open>Clock\<close> (cloudsync.c): the database version, cached in the context and handed out per transaction, with the
      interface \<open>version_clock\<close>.
    \<^item> \<open>Meta\<close>: the effect of each prepared statement on a clock table.
    \<^item> \<open>Local\<close> (cloudsync.c): \<open>cloudsync_insert\<close>, \<open>cloudsync_update\<close>, \<open>cloudsync_delete\<close>.
    \<^item> \<open>Rows\<close>: the application's tables and what the triggers do on a write.
    \<^item> \<open>Merge\<close>, \<open>Converge\<close> (cloudsync.c): \<open>cloudsync_merge_insert\<close> and what it calls; its refinement of an abstract
      rule on stamps, and convergence.
    \<^item> \<open>Schema\<close> (dbutils.c): the check of a table, the triggers, the schema hash with its history.
    \<^item> \<open>Init\<close>, \<open>Lifecycle\<close>, \<open>Refill\<close> (cloudsync.c, dbutils.c): initialising and cleaning up; filling the clock table.
    \<^item> \<open>Alter\<close> (cloudsync.c): \<open>cloudsync_begin_alter\<close> and \<open>cloudsync_commit_alter\<close>.
    \<^item> \<open>Changes\<close> (vtab.c): the virtual table \<open>cloudsync_changes\<close>: the clauses that \<open>xBestIndex\<close> writes, the cursor over
      the clock tables with the current values (\<open>cloudsync_col_value\<close>), and inserts, which are merges.
    \<^item> \<open>Payload\<close> (cloudsync.c): rows of \<open>cloudsync_changes\<close> as a blob and back. \<open>system_frame\<close> joins the frames of all
      operations below it.
    \<^item> \<open>Transport\<close> (network.c): the buffers around curl, requests and results, query parameters, endpoints.
    \<^item> \<open>Statements\<close>: what writes of the application keep, with the interface \<open>statement_frame\<close>.
    \<^item> \<open>Network\<close>, \<open>Sync\<close>, \<open>Logout\<close> (network.c): the SQL functions that send, check, synchronise, start over and log out.
    \<^item> \<open>System\<close>: all public operations as one transition system, its reachable states and their invariants.
    \<^item> \<open>Platform\<close> (wasm.c, network.c): the WebAssembly transport, which replaces the curl functions of \<open>Transport\<close>, and
      the functions that all transports share.
    \<^item> \<open>Entry\<close> (cloudsync.c, network.c, dbutils.c, vtab.c): the entry point of the extension with the registration of the
      SQL functions, and sessions: a load, calls by name, and what happens around them.
    \<^item> \<open>Handles\<close> (cloudsync.c, vtab.c): the prepared statements and blocks that a table context and a cursor own. It looks
      at the functions of \<open>Tables\<close> and \<open>Changes\<close> from another side and stands by itself.
    \<^item> \<open>Memdebug\<close> (utils.c): the memory debugger, a build option. It stands by itself.

  State. \<open>cloudsync_context\<close> is the struct of the same name; a \<open>cloudsync_table_context\<close> is known by its slot in the
  array \<open>tables\<close>. Prepared statements are functions; the fields that say whether they are prepared are kept where
  the code tests them. \<open>database\<close> holds what the SQL of the library reads and writes.

  Errors. Every call of the engine takes its result code from the list \<open>faults\<close>: theorems without a premise on
  \<open>faults\<close> hold for every sequence of failures, the functional ones say what happens when none occurs.
  \<open>ub\<close> marks undefined behaviour and the few places where the code goes on with what the model does not represent.

  What the lemmas show. The values are ordered totally up to equality of the comparison, so the winner of a conflict
  does not depend on the order of arrival; keys round-trip and are injective; versions handed out are fresh in every
  interleaving of transactions, commits, rollbacks and commits of other connections; local inserts, deletes and key
  changes leave the clock table as specified; a merge implements "keep the greater stamp" and two sites that merge
  the same changes agree; a merge is never recorded as a local change; initialising creates the triggers of the
  algorithm and one history entry for each row, and an initialisation that fails leaves the database as it was.
  A query of \<open>cloudsync_changes\<close> returns the visible history; a payload is applied as the inserts of the rows it was
  encoded from, and what a site sends and another downloads are exactly the changes not sent before; a send that fails
  does not move the position; a synchronisation ends and reaches the first check with rows; a logout is all or nothing.
  In every reachable state the registry is in order and an enabled table records the writes of the application.
  A load that succeeds registers every function, and the invariants hold in every session from the load on; a load that
  failed is never completed. The WebAssembly build computes the endpoints and hands over the results that the curl build
  does. \<open>table_free\<close> gives back what a table context acquired, and the memory debugger shows exactly the blocks of the
  allocator. Several theorems state behaviour that looks unintended; they say so in their text.

  Bounds. No fuel is used: every loop of the code is structural or has a measure. Versions, causal lengths and
  sequence numbers are mathematical integers (the code uses 64 and 32 bits); rowids, hashes and encoded integers
  are words of their width. Keys have fewer than 256 columns and texts fewer than \<open>2 ^ 31\<close> bytes where the code
  assumes it.

  Abstractions. Names are ASCII. A row of an application's table is found by the values of its key; two values are
  the same key when they are equal as values of the model. Generated columns, CHECK constraints, foreign keys,
  collations of user columns and triggers of the application are outside the model. The texts of generated SQL are
  not represented, only their effect and whether they compile. Code outside src/src is a parameter: the allocator
  (\<open>alloc\<close>), LZ4 (\<open>lz4\<close>, with \<open>lz4_ok\<close>: what was compressed expands to its source), curl (\<open>http\<close>, \<open>put\<close> and the parts of
  a URL), \<open>fetch\<close> of Emscripten, the evaluation of the clauses of a query on \<open>cloudsync_changes\<close> (\<open>engine\<close>, with \<open>answers_queries\<close>) and the
  conversions of SQLite between types (\<open>conversions\<close>). The queries of the network layer are read as scans of
  \<open>cloudsync_changes\<close> with the constraint on the site pushed down.

  Not modelled: debugging output (pk_decode_print_callback, the debug functions of dbutils.c), the texts of messages and of
  generated SQL, LZ4, SQLite and curl themselves, and the transport for Apple systems (network.m, another language).
\<close>

end
